(* ===== verification/TTY_Prelude.thy ===== *)
theory TTY_Prelude
  imports Main "HOL-Library.Word" "HOL-Library.Char_ord" "HOL-Library.Multiset"
begin

text \<open>
  Shared ground of the development: the machine integer types of the program, its error
  values, the \<open>?\<close> operator, and the locales \<open>step_machine\<close> (an invariant kept by every step is
  kept by every run) and \<open>logging_machine\<close> (the log only grows).  Every component that is an event
  loop of the source (the session task, the daemon, the client) interprets them.
\<close>

section \<open>Machine integers and bytes\<close>

type_synonym u8 = "8 word"
type_synonym u16 = "16 word"
type_synonym u32 = "32 word"
type_synonym u64 = "64 word"

text \<open>An \<open>i32\<close> is the same 32 bits as a \<open>u32\<close>, read in two's complement by \<^const>\<open>sint\<close>.\<close>

type_synonym i32 = "32 word"
type_synonym bytes = "8 word list"

named_theorems rust_text \<open>facts about strings, their bytes and their validity\<close>

section \<open>Error values\<close>

text \<open>
  The kinds of \<open>std::io::ErrorKind\<close> the program tests or builds.  An \<open>io::Error\<close> is made with
  a kind and a message, wraps the error of \<open>String::from_utf8\<close>, or comes from the operating
  system with its error number (Linux numbers).
\<close>

datatype io_kind = InvalidData | AddrInUse | PermissionDenied | InvalidInput | WouldBlock
  | Interrupted | OtherKind

datatype io_error =
    IoError io_kind string
  | Utf8Error
  | OsError nat

definition EINTR :: nat where [simp]: "EINTR = 4"
definition EIO :: nat where [simp]: "EIO = 5"
definition EAGAIN :: nat where [simp]: "EAGAIN = 11"
definition EACCES :: nat where [simp]: "EACCES = 13"
definition EADDRINUSE :: nat where [simp]: "EADDRINUSE = 98"

fun error_kind :: "io_error \<Rightarrow> io_kind" where
  "error_kind (IoError k m) = k"
| "error_kind Utf8Error = InvalidData"
| "error_kind (OsError n) =
     (if n = EAGAIN then WouldBlock
      else if n = EINTR then Interrupted
      else if n = EADDRINUSE then AddrInUse
      else if n = EACCES then PermissionDenied
      else OtherKind)"

fun raw_os_error :: "io_error \<Rightarrow> nat option" where
  "raw_os_error (OsError n) = Some n"
| "raw_os_error _ = None"

text \<open>The \<open>?\<close> operator on a \<open>Result\<close>.\<close>

fun try_then :: "'e + 'a \<Rightarrow> ('a \<Rightarrow> 'e + 'b) \<Rightarrow> 'e + 'b" where
  "try_then (Inl e) f = Inl e"
| "try_then (Inr a) f = f a"

lemma try_then_Inr_iff: "try_then r f = Inr b \<longleftrightarrow> (\<exists>a. r = Inr a \<and> f a = Inr b)"
  by (cases r) auto

lemma try_then_Inl_iff:
  "try_then r f = Inl e \<longleftrightarrow> r = Inl e \<or> (\<exists>a. r = Inr a \<and> f a = Inl e)"
  by (cases r) auto

section \<open>Runs of a step function\<close>

text \<open>
  An event loop of the source is a step function on a state; a run folds it over the events
  the environment delivers.
\<close>

definition run_steps :: "('s \<Rightarrow> 'e \<Rightarrow> 's) \<Rightarrow> 's \<Rightarrow> 'e list \<Rightarrow> 's" where
  "run_steps step s es = foldl step s es"

lemma run_steps_simps [simp]:
  "run_steps step s [] = s"
  "run_steps step s (e # es) = run_steps step (step s e) es"
  by (simp_all add: run_steps_def)

lemma run_steps_append [simp]:
  "run_steps step s (es @ fs) = run_steps step (run_steps step s es) fs"
  by (simp add: run_steps_def)

locale step_machine =
  fixes step :: "'s \<Rightarrow> 'e \<Rightarrow> 's"
    and inv :: "'s \<Rightarrow> bool"
  assumes step_inv: "inv s \<Longrightarrow> inv (step s e)"
begin

lemma run_inv: "inv s \<Longrightarrow> inv (run_steps step s es)"
  by (induction es arbitrary: s) (auto intro: step_inv)

end

text \<open>A machine that extends it with an output trace which only ever grows.\<close>

locale logging_machine = step_machine step inv
  for step :: "'s \<Rightarrow> 'e \<Rightarrow> 's" and inv :: "'s \<Rightarrow> bool" +
  fixes log :: "'s \<Rightarrow> 'o list"
  assumes step_log: "inv s \<Longrightarrow> \<exists>new. log (step s e) = log s @ new"
begin

lemma run_log: "inv s \<Longrightarrow> \<exists>new. log (run_steps step s es) = log s @ new"
proof (induction es arbitrary: s)
  case Nil
  then show ?case by simp
next
  case (Cons e es)
  obtain n1 where "log (step s e) = log s @ n1" using step_log Cons.prems by blast
  moreover obtain n2 where "log (run_steps step (step s e) es) = log (step s e) @ n2"
    using Cons.IH step_inv Cons.prems by blast
  ultimately show ?case by simp
qed

lemma run_log_mono: "inv s \<Longrightarrow> x \<in> set (log s) \<Longrightarrow> x \<in> set (log (run_steps step s es))"
  using run_log [of s es] by auto

end

end
