(* ===== verification/Rust_Text.thy ===== *)
theory Rust_Text
  imports TTY_Prelude
begin

text \<open>
  The part of Rust's standard library on text that the program uses, as functions on
  \<^typ>\<open>string\<close>, where a character is one byte of the UTF-8 encoding: \<open>String::from_utf8\<close>,
  \<open>str::lines\<close>, \<open>split\<close>, \<open>split_once\<close>, \<open>join\<close>, \<open>to_string\<close> on unsigned integers and
  \<open>parse\<close> back.  All separators the program splits at are ASCII, so splitting the bytes is
  splitting the characters.
\<close>

section \<open>Bytes and UTF-8\<close>

definition as_bytes :: "string \<Rightarrow> bytes" where
  "as_bytes s = map of_char s"

definition of_bytes :: "bytes \<Rightarrow> string" where
  "of_bytes bs = map (\<lambda>b. char_of (unat b)) bs"

definition utf8_cont :: "u8 \<Rightarrow> bool" where
  "utf8_cont b \<longleftrightarrow> 0x80 \<le> b \<and> b \<le> 0xBF"

text \<open>
  The well-formed byte sequences of the Unicode standard (table 3-7): how many continuation
  bytes a first byte needs, and the narrower range some first bytes ask of the second.
\<close>

definition utf8_width :: "u8 \<Rightarrow> nat option" where
  "utf8_width b0 =
     (if b0 < 0x80 then Some 0
      else if 0xC2 \<le> b0 \<and> b0 \<le> 0xDF then Some 1
      else if 0xE0 \<le> b0 \<and> b0 \<le> 0xEF then Some 2
      else if 0xF0 \<le> b0 \<and> b0 \<le> 0xF4 then Some 3
      else None)"

definition utf8_second :: "u8 \<Rightarrow> u8 \<Rightarrow> bool" where
  "utf8_second b0 b1 \<longleftrightarrow>
     (b0 = 0xE0 \<longrightarrow> 0xA0 \<le> b1) \<and> (b0 = 0xED \<longrightarrow> b1 \<le> 0x9F)
     \<and> (b0 = 0xF0 \<longrightarrow> 0x90 \<le> b1) \<and> (b0 = 0xF4 \<longrightarrow> b1 \<le> 0x8F)"

definition utf8_tail :: "u8 \<Rightarrow> bytes \<Rightarrow> bytes option" where
  "utf8_tail b0 bs =
     (case utf8_width b0 of
        None \<Rightarrow> None
      | Some n \<Rightarrow>
          if n \<le> length bs \<and> list_all utf8_cont (take n bs) \<and> (0 < n \<longrightarrow> utf8_second b0 (hd bs))
          then Some (drop n bs) else None)"

lemma utf8_tail_length: "utf8_tail b bs = Some r \<Longrightarrow> length r \<le> length bs"
  by (auto simp: utf8_tail_def split: if_split_asm option.split_asm)

lemma utf8_tail_append: "utf8_tail b bs = Some r \<Longrightarrow> utf8_tail b (bs @ x) = Some (r @ x)"
  by (auto simp: utf8_tail_def hd_append split: if_split_asm option.split_asm)

lemma utf8_tail_ascii [simp]: "b < 0x80 \<Longrightarrow> utf8_tail b bs = Some bs"
  by (simp add: utf8_tail_def utf8_width_def)

lemma utf8_tail_at_ascii:
  assumes "utf8_tail b0 (as @ c # bs) = Some r" and "c < 0x80"
  shows "\<exists>as'. r = as' @ c # bs \<and> utf8_tail b0 as = Some as'"
proof -
  obtain n where n: "utf8_width b0 = Some n" "list_all utf8_cont (take n (as @ c # bs))"
      "0 < n \<longrightarrow> utf8_second b0 (hd (as @ c # bs))" "r = drop n (as @ c # bs)"
    using assms(1) by (auto simp: utf8_tail_def split: if_split_asm option.split_asm)
  have "\<not> utf8_cont c" using assms(2) by (auto simp: utf8_cont_def)
  with n(2) have "n \<le> length as"
    by (cases "n - length as") (auto simp: not_le)
  with n show ?thesis by (auto simp: utf8_tail_def hd_append split: if_split_asm)
qed

function utf8_valid :: "bytes \<Rightarrow> bool" where
  "utf8_valid [] = True"
| "utf8_valid (b # bs) = (case utf8_tail b bs of None \<Rightarrow> False | Some r \<Rightarrow> utf8_valid r)"
  by pat_completeness auto
termination
  by (relation "measure length") (auto dest: utf8_tail_length)

lemma utf8_valid_append [rust_text]:
  "utf8_valid a \<Longrightarrow> utf8_valid (a @ b) = utf8_valid b"
proof (induction a rule: utf8_valid.induct)
  case 1
  then show ?case by simp
next
  case (2 b0 bs)
  then obtain r where r: "utf8_tail b0 bs = Some r" "utf8_valid r" by (auto split: option.splits)
  with 2 show ?case by (simp add: utf8_tail_append)
qed

text \<open>Cutting valid text at an ASCII character leaves valid text on both sides.\<close>

lemma utf8_valid_at_ascii:
  "utf8_valid (as @ c # bs) \<Longrightarrow> c < 0x80 \<Longrightarrow> utf8_valid as \<and> utf8_valid bs"
proof (induction as rule: utf8_valid.induct)
  case 1
  then show ?case by simp
next
  case (2 b0 as)
  from "2.prems"(1) obtain r where r: "utf8_tail b0 (as @ c # bs) = Some r" "utf8_valid r"
    by (auto split: option.splits)
  with utf8_tail_at_ascii "2.prems"(2) obtain as'
    where "r = as' @ c # bs" "utf8_tail b0 as = Some as'" by blast
  with r "2.IH" "2.prems"(2) show ?case by simp
qed

definition from_utf8 :: "bytes \<Rightarrow> io_error + string" where
  "from_utf8 bs = (if utf8_valid bs then Inr (of_bytes bs) else Inl Utf8Error)"

text \<open>The type invariant of \<open>String\<close> and \<open>str\<close>.\<close>

definition rust_str :: "string \<Rightarrow> bool" where
  "rust_str s \<longleftrightarrow> utf8_valid (as_bytes s)"

definition ascii :: "string \<Rightarrow> bool" where
  "ascii s \<longleftrightarrow> (\<forall>c \<in> set s. (of_char c :: nat) < 128)"

lemma as_bytes_simps [simp]:
  "as_bytes [] = []"
  "as_bytes (c # s) = of_char c # as_bytes s"
  "as_bytes (s @ t) = as_bytes s @ as_bytes t"
  "length (as_bytes s) = length s"
  by (simp_all add: as_bytes_def)

lemma unat_of_char [simp]: "unat (of_char c :: u8) = of_char c"
proof -
  have "(of_char c :: u8) = of_nat (of_char c)" by (simp only: of_nat_of_char)
  then have "unat (of_char c :: u8) = of_char c mod 256"
    by (simp only: unat_of_nat) (simp add: take_bit_eq_mod)
  then show ?thesis by simp
qed

lemma unat_u8_less: "unat (b :: u8) < 256"
  using unsigned_less [of b] by simp

lemma of_char_char_of_unat [simp]: "(of_char (char_of (unat b) :: char) :: u8) = b"
proof -
  have "unat (of_char (char_of (unat b) :: char) :: u8) = unat b"
    using unat_u8_less [of b] by (simp only: unat_of_char of_char_of mod_less)
  then show ?thesis by (simp only: word_unat_eq_iff)
qed

lemma of_bytes_as_bytes [simp]: "of_bytes (as_bytes s) = s"
  by (induction s) (simp_all add: of_bytes_def as_bytes_def)

lemma as_bytes_of_bytes [simp]: "as_bytes (of_bytes bs) = bs"
  by (induction bs) (simp_all add: of_bytes_def as_bytes_def)

lemma as_bytes_inject [simp]: "as_bytes s = as_bytes t \<longleftrightarrow> s = t"
  by (metis of_bytes_as_bytes)

lemma rust_str_Nil [simp]: "rust_str []"
  by (simp add: rust_str_def)

lemma rust_str_append [rust_text]: "rust_str s \<Longrightarrow> rust_str t \<Longrightarrow> rust_str (s @ t)"
  by (simp add: rust_str_def utf8_valid_append)

lemma ascii_simps [simp]:
  "ascii []"
  "ascii (c # s) \<longleftrightarrow> (of_char c :: nat) < 128 \<and> ascii s"
  "ascii (s @ t) \<longleftrightarrow> ascii s \<and> ascii t"
  by (auto simp: ascii_def)

lemma ascii_rust_str [rust_text]: "ascii s \<Longrightarrow> rust_str s"
  by (induction s) (simp_all add: rust_str_def word_less_nat_alt)

lemma rust_str_ascii_append [rust_text]: "ascii s \<Longrightarrow> rust_str (s @ t) = rust_str t"
  by (simp add: rust_str_def utf8_valid_append ascii_rust_str [unfolded rust_str_def])

lemma of_char_ascii: "(of_char c :: nat) < 128 \<Longrightarrow> (of_char c :: u8) < 0x80"
  by (simp add: word_less_nat_alt)

lemma rust_str_at_ascii:
  "rust_str (s @ c # t) \<Longrightarrow> (of_char c :: nat) < 128 \<Longrightarrow> rust_str s \<and> rust_str t"
  unfolding rust_str_def as_bytes_simps
  by (rule utf8_valid_at_ascii, assumption, rule of_char_ascii)

lemma from_utf8_as_bytes [simp]: "rust_str s \<Longrightarrow> from_utf8 (as_bytes s) = Inr s"
  by (simp add: from_utf8_def rust_str_def)

lemma from_utf8_Inr: "from_utf8 bs = Inr s \<longleftrightarrow> bs = as_bytes s \<and> rust_str s"
  by (auto simp: from_utf8_def rust_str_def)

lemma from_utf8_Inl: "from_utf8 bs = Inl e \<longleftrightarrow> e = Utf8Error \<and> \<not> utf8_valid bs"
  by (auto simp: from_utf8_def)

section \<open>Splitting and joining\<close>

abbreviation NL :: char where "NL \<equiv> CHR 0x0A"
abbreviation CR :: char where "CR \<equiv> CHR 0x0D"
abbreviation TAB :: char where "TAB \<equiv> CHR 0x09"

text \<open>\<open>str::split(c)\<close>: never empty, one more part than there are separators.\<close>

fun split_char :: "char \<Rightarrow> string \<Rightarrow> string list" where
  "split_char c [] = [[]]"
| "split_char c (x # xs) =
     (if x = c then [] # split_char c xs
      else (case split_char c xs of [] \<Rightarrow> [[x]] | y # ys \<Rightarrow> (x # y) # ys))"

text \<open>\<open>str::split_once(c)\<close>, at the first occurrence, and its mirror for \<open>rfind\<close>.\<close>

fun split_once :: "char \<Rightarrow> string \<Rightarrow> (string \<times> string) option" where
  "split_once c [] = None"
| "split_once c (x # xs) =
     (if x = c then Some ([], xs) else map_option (\<lambda>(a, b). (x # a, b)) (split_once c xs))"

definition rsplit_once :: "char \<Rightarrow> string \<Rightarrow> (string \<times> string) option" where
  "rsplit_once c s = map_option (\<lambda>(a, b). (rev b, rev a)) (split_once c (rev s))"

text \<open>\<open>str::split_inclusive('\n')\<close> and \<open>str::lines\<close>: the line ends at \<open>\n\<close> or \<open>\r\n\<close>.\<close>

fun split_inclusive :: "char \<Rightarrow> string \<Rightarrow> string list" where
  "split_inclusive c [] = []"
| "split_inclusive c (x # xs) =
     (if x = c then [x] # split_inclusive c xs
      else (case split_inclusive c xs of [] \<Rightarrow> [[x]] | y # ys \<Rightarrow> (x # y) # ys))"

fun strip_suffix :: "char \<Rightarrow> string \<Rightarrow> string option" where
  "strip_suffix c s = (if s \<noteq> [] \<and> last s = c then Some (butlast s) else None)"

definition strip_cr :: "string \<Rightarrow> string" where
  "strip_cr s = (case strip_suffix CR s of None \<Rightarrow> s | Some t \<Rightarrow> t)"

definition strip_line :: "string \<Rightarrow> string" where
  "strip_line s = (case strip_suffix NL s of None \<Rightarrow> s | Some t \<Rightarrow> strip_cr t)"

definition str_lines :: "string \<Rightarrow> string list" where
  "str_lines s = map strip_line (split_inclusive NL s)"

text \<open>\<open>[String]::join(sep)\<close>.\<close>

fun join_str :: "string \<Rightarrow> string list \<Rightarrow> string" where
  "join_str sep [] = []"
| "join_str sep [x] = x"
| "join_str sep (x # y # ys) = x @ sep @ join_str sep (y # ys)"

lemma split_char_nonempty [simp]: "split_char c s \<noteq> []"
  by (induction s) (auto split: list.splits)

lemma split_char_fresh: "c \<notin> set s \<Longrightarrow> split_char c s = [s]"
  by (induction s) auto

lemma split_char_append:
  "c \<notin> set s \<Longrightarrow> split_char c (s @ c # t) = s # split_char c t"
  by (induction s) (auto split: list.splits)

lemma split_char_join:
  "xs \<noteq> [] \<Longrightarrow> \<forall>x \<in> set xs. c \<notin> set x \<Longrightarrow> split_char c (join_str [c] xs) = xs"
  by (induction "[c]" xs rule: join_str.induct) (simp_all add: split_char_fresh split_char_append)

lemma split_once_append: "c \<notin> set s \<Longrightarrow> split_once c (s @ c # t) = Some (s, t)"
  by (induction s) auto

lemma split_once_None: "split_once c s = None \<longleftrightarrow> c \<notin> set s"
  by (induction s) auto

lemma split_once_Some: "split_once c s = Some (a, b) \<longleftrightarrow> s = a @ c # b \<and> c \<notin> set a"
proof (induction s arbitrary: a)
  case Nil
  then show ?case by simp
next
  case (Cons x xs)
  then show ?case by (cases a) (auto split: if_splits)
qed

lemma rsplit_once_None: "rsplit_once c s = None \<longleftrightarrow> c \<notin> set s"
  by (simp add: rsplit_once_def split_once_None)

lemma rsplit_once_Some: "rsplit_once c s = Some (a, b) \<longleftrightarrow> s = a @ c # b \<and> c \<notin> set b"
proof -
  have "rsplit_once c s = Some (a, b) \<longleftrightarrow> split_once c (rev s) = Some (rev b, rev a)"
    by (auto simp: rsplit_once_def)
  also have "\<dots> \<longleftrightarrow> rev s = rev b @ c # rev a \<and> c \<notin> set b"
    by (simp add: split_once_Some)
  also have "rev s = rev b @ c # rev a \<longleftrightarrow> s = a @ c # b"
    by (metis append_assoc append_Cons append_Nil rev_append rev_rev_ident rev_singleton_conv rev.simps(2))
  finally show ?thesis .
qed

lemma split_inclusive_fresh:
  "c \<notin> set s \<Longrightarrow> split_inclusive c s = (if s = [] then [] else [s])"
  by (induction s) auto

lemma split_inclusive_append:
  "c \<notin> set s \<Longrightarrow> split_inclusive c (s @ c # t) = (s @ [c]) # split_inclusive c t"
  by (induction s) auto

lemma strip_line_NL [simp]: "strip_line (s @ [NL]) = strip_cr s"
  by (simp add: strip_line_def)

lemma strip_line_fresh: "NL \<notin> set s \<Longrightarrow> strip_line s = s"
  by (cases s rule: rev_cases) (auto simp: strip_line_def)

lemma strip_cr_id: "strip_cr s = s \<longleftrightarrow> s = [] \<or> last s \<noteq> CR"
  by (cases s rule: rev_cases) (auto simp: strip_cr_def)

text \<open>
  What \<open>lines\<close> recovers of lines that were joined with \<open>\n\<close>: a carriage return at the end of
  a line that is not the last is lost, and an empty last line is dropped.
\<close>

lemma str_lines_append:
  "NL \<notin> set s \<Longrightarrow> str_lines (s @ NL # t) = strip_cr s # str_lines t"
  by (simp add: str_lines_def split_inclusive_append)

lemma str_lines_fresh: "NL \<notin> set s \<Longrightarrow> str_lines s = (if s = [] then [] else [s])"
  by (simp add: str_lines_def split_inclusive_fresh strip_line_fresh)

lemma str_lines_join:
  assumes "\<forall>x \<in> set xs. NL \<notin> set x" and "xs \<noteq> []" and "last xs \<noteq> []"
  shows "str_lines (join_str [NL] xs) = map strip_cr (butlast xs) @ [last xs]"
  using assms
  by (induction "[NL]" xs rule: join_str.induct) (simp_all add: str_lines_fresh str_lines_append)

lemma join_str_eq_Nil: "join_str [c] xs = [] \<longleftrightarrow> xs = [] \<or> xs = [[]]"
  by (induction "[c]" xs rule: join_str.induct) auto

lemma rust_str_join [rust_text]:
  "ascii sep \<Longrightarrow> \<forall>x \<in> set xs. rust_str x \<Longrightarrow> rust_str (join_str sep xs)"
  by (induction sep xs rule: join_str.induct)
    (simp_all add: rust_str_append rust_str_ascii_append)

section \<open>Unsigned integers as text\<close>

definition digit_char :: "nat \<Rightarrow> char" where
  "digit_char n = char_of (48 + n)"

fun show_nat :: "nat \<Rightarrow> string" where
  "show_nat n = (if n < 10 then [digit_char n] else show_nat (n div 10) @ [digit_char (n mod 10)])"

declare show_nat.simps [simp del]

definition digit_value :: "char \<Rightarrow> nat option" where
  "digit_value c = (let n = of_char c :: nat in if 48 \<le> n \<and> n \<le> 57 then Some (n - 48) else None)"

fun digits_value :: "nat \<Rightarrow> string \<Rightarrow> nat option" where
  "digits_value acc [] = Some acc"
| "digits_value acc (c # cs) =
     (case digit_value c of None \<Rightarrow> None | Some d \<Rightarrow> digits_value (10 * acc + d) cs)"

text \<open>
  \<open>str::parse\<close> at an unsigned type whose values are below \<open>bound\<close>: an optional \<open>+\<close>, at least one
  digit, \<open>None\<close> for an empty string, another character or an overflow.
\<close>

definition parse_uint :: "nat \<Rightarrow> string \<Rightarrow> nat option" where
  "parse_uint bound s =
     (let ds = (case s of c # cs \<Rightarrow> (if c = CHR ''+'' then cs else s) | [] \<Rightarrow> [])
      in if ds = [] then None
         else (case digits_value 0 ds of
                 None \<Rightarrow> None
               | Some n \<Rightarrow> (if n < bound then Some n else None)))"

definition parse_u16 :: "string \<Rightarrow> u16 option" where
  "parse_u16 s = map_option of_nat (parse_uint (2 ^ 16) s)"

definition parse_u32 :: "string \<Rightarrow> u32 option" where
  "parse_u32 s = map_option of_nat (parse_uint (2 ^ 32) s)"

definition parse_u64 :: "string \<Rightarrow> u64 option" where
  "parse_u64 s = map_option of_nat (parse_uint (2 ^ 64) s)"

definition show_u16 :: "u16 \<Rightarrow> string" where "show_u16 w = show_nat (unat w)"
definition show_u32 :: "u32 \<Rightarrow> string" where "show_u32 w = show_nat (unat w)"
definition show_u64 :: "u64 \<Rightarrow> string" where "show_u64 w = show_nat (unat w)"

lemma of_char_digit: "n < 10 \<Longrightarrow> (of_char (digit_char n) :: nat) = 48 + n"
  by (simp add: digit_char_def)

lemma digit_value_digit [simp]: "n < 10 \<Longrightarrow> digit_value (digit_char n) = Some n"
  by (simp add: digit_value_def of_char_digit)

lemma digits_value_append:
  "digits_value acc (s @ t) = (case digits_value acc s of None \<Rightarrow> None | Some n \<Rightarrow> digits_value n t)"
  by (induction s arbitrary: acc) (auto split: option.splits)

lemma digits_value_show: "digits_value 0 (show_nat n) = Some n"
proof (induction n rule: show_nat.induct)
  case (1 n)
  then show ?case
    by (cases "n < 10") (simp_all add: show_nat.simps [of n] digits_value_append)
qed

lemma show_nat_nonempty [simp]: "show_nat n \<noteq> []"
  by (subst show_nat.simps) simp

text \<open>Every character of a printed number is a digit, so none is a separator of the protocol.\<close>

lemma show_nat_digits: "c \<in> set (show_nat n) \<Longrightarrow> 48 \<le> (of_char c :: nat) \<and> (of_char c :: nat) \<le> 57"
proof (induction n rule: show_nat.induct)
  case (1 n)
  then show ?case
    by (cases "n < 10") (auto simp: show_nat.simps [of n] of_char_digit)
qed

lemma show_nat_not_sep [simp]:
  "TAB \<notin> set (show_nat n)" "NL \<notin> set (show_nat n)" "CR \<notin> set (show_nat n)"
  "CHR ''+'' \<notin> set (show_nat n)" "CHR '':'' \<notin> set (show_nat n)"
  by (auto dest: show_nat_digits)

lemma ascii_show_nat [simp]: "ascii (show_nat n)"
  by (force simp: ascii_def dest: show_nat_digits)

lemma parse_show_nat: "n < bound \<Longrightarrow> parse_uint bound (show_nat n) = Some n"
proof -
  assume n: "n < bound"
  have "(case show_nat n of c # cs \<Rightarrow> (if c = CHR ''+'' then cs else show_nat n) | [] \<Rightarrow> [])
    = show_nat n"
    using show_nat_not_sep(4) [of n] by (cases "show_nat n") auto
  with n show ?thesis by (simp add: parse_uint_def digits_value_show)
qed

lemma show_nat_inject [simp]: "show_nat m = show_nat n \<longleftrightarrow> m = n"
  by (metis digits_value_show option.inject)

lemma unat_bounds:
  "unat (a :: u16) < 65536" "unat (b :: u32) < 4294967296"
  "unat (c :: u64) < 18446744073709551616"
  using unsigned_less [of a] unsigned_less [of b] unsigned_less [of c] by simp_all

lemma parse_show_u32 [simp]: "parse_u32 (show_u32 w) = Some w"
  using unat_bounds(2) [of w] by (simp add: parse_u32_def show_u32_def parse_show_nat)

lemma parse_show_u64 [simp]: "parse_u64 (show_u64 w) = Some w"
  using unat_bounds(3) [of w] by (simp add: parse_u64_def show_u64_def parse_show_nat)

lemma parse_show_u16 [simp]: "parse_u16 (show_u16 w) = Some w"
  using unat_bounds(1) [of w] by (simp add: parse_u16_def show_u16_def parse_show_nat)

lemma show_u32_inject [simp]: "show_u32 v = show_u32 w \<longleftrightarrow> v = w"
  by (metis parse_show_u32 option.inject)

end
