(* ===== verification/Wire.thy ===== *)
theory Wire
  imports Rust_Text
begin

text \<open>
  Bytes on the wire: big-endian integers as \<open>BufMut::put_u16\<close>/\<open>put_u32\<close> write them and
  \<open>from_be_bytes\<close> reads them, and the contracts of the framing layer as locales.
  \<open>fixed_width\<close> is the law of one integer field; \<open>stream_decoder\<close> is what a decoder must do
  for its reader to be correct however the stream is cut into reads; \<open>frame_codec\<close> adds an
  encoder.  The reader's lemmas are proved once, inside the locales.
\<close>

section \<open>Big-endian integers\<close>

definition u16_from_be :: "u8 \<Rightarrow> u8 \<Rightarrow> u16" where
  "u16_from_be b0 b1 = or (push_bit 8 (ucast b0)) (ucast b1)"

definition u32_from_be :: "u8 \<Rightarrow> u8 \<Rightarrow> u8 \<Rightarrow> u8 \<Rightarrow> u32" where
  "u32_from_be b0 b1 b2 b3 =
     or (push_bit 24 (ucast b0)) (or (push_bit 16 (ucast b1)) (or (push_bit 8 (ucast b2)) (ucast b3)))"

definition u16_to_be :: "u16 \<Rightarrow> bytes" where
  "u16_to_be w = [ucast (drop_bit 8 w), ucast w]"

definition u32_to_be :: "u32 \<Rightarrow> bytes" where
  "u32_to_be w = [ucast (drop_bit 24 w), ucast (drop_bit 16 w), ucast (drop_bit 8 w), ucast w]"

definition get_u16 :: "bytes \<Rightarrow> u16" where
  "get_u16 bs = u16_from_be (bs ! 0) (bs ! 1)"

definition get_u32 :: "bytes \<Rightarrow> u32" where
  "get_u32 bs = u32_from_be (bs ! 0) (bs ! 1) (bs ! 2) (bs ! 3)"

text \<open>An integer field: a fixed number of bytes, and reading inverts writing both ways.\<close>

locale fixed_width =
  fixes put :: "'a \<Rightarrow> bytes" and get :: "bytes \<Rightarrow> 'a" and width :: nat
  assumes put_length: "length (put x) = width"
    and get_put: "get (put x) = x"
    and put_get: "length bs = width \<Longrightarrow> put (get bs) = bs"
begin

lemma put_inject: "put x = put y \<longleftrightarrow> x = y"
  by (metis get_put)

lemma take_put [simp]: "take width (put x @ rest) = put x"
  using put_length [of x] by simp

lemma drop_put [simp]: "drop width (put x @ rest) = rest"
  using put_length [of x] by simp

lemma get_surj: "length bs = width \<Longrightarrow> get bs = x \<longleftrightarrow> bs = put x"
  by (metis get_put put_get)

end

lemma u16_from_be_to_be: "u16_from_be (ucast (drop_bit 8 w)) (ucast w) = w"
  unfolding u16_from_be_def
  by (rule bit_word_eqI) (auto simp: bit_simps)

lemma u32_from_be_to_be:
  "u32_from_be (ucast (drop_bit 24 w)) (ucast (drop_bit 16 w)) (ucast (drop_bit 8 w)) (ucast w) = w"
proof (rule bit_word_eqI)
  fix n :: nat
  assume "n < LENGTH(32)"
  then consider "n < 8" | "8 \<le> n" "n < 16" | "16 \<le> n" "n < 24" | "24 \<le> n" "n < 32"
    by fastforce
  then show "bit (u32_from_be (ucast (drop_bit 24 w)) (ucast (drop_bit 16 w)) (ucast (drop_bit 8 w))
      (ucast w)) n = bit w n"
    unfolding u32_from_be_def by cases (auto simp: bit_simps)
qed

lemma u16_bytes_of_from_be:
  "ucast (drop_bit 8 (u16_from_be a b)) = a" "ucast (u16_from_be a b) = b"
  unfolding u16_from_be_def
  by (rule bit_word_eqI, auto simp: bit_simps dest: bit_imp_le_length)+

lemma u32_bytes_of_from_be:
  "ucast (drop_bit 24 (u32_from_be a b c d)) = a"
  "ucast (drop_bit 16 (u32_from_be a b c d)) = b"
  "ucast (drop_bit 8 (u32_from_be a b c d)) = c"
  "ucast (u32_from_be a b c d) = d"
  unfolding u32_from_be_def
  by (rule bit_word_eqI, auto simp: bit_simps dest: bit_imp_le_length)+

lemma length_eq_numerals:
  "length bs = 2 \<longleftrightarrow> (\<exists>a b. bs = [a, b])"
  "length bs = 4 \<longleftrightarrow> (\<exists>a b c d. bs = [a, b, c, d])"
  by (auto simp: numeral_eq_Suc length_Suc_conv)

interpretation be16: fixed_width u16_to_be get_u16 2
  by unfold_locales
    (auto simp: u16_to_be_def get_u16_def u16_from_be_to_be u16_bytes_of_from_be length_eq_numerals)

interpretation be32: fixed_width u32_to_be get_u32 4
  by unfold_locales
    (auto simp: u32_to_be_def get_u32_def u32_from_be_to_be u32_bytes_of_from_be length_eq_numerals
       nth_Cons')

section \<open>Decoding a stream\<close>

text \<open>
  A decoder looks at the bytes received so far and returns an error, nothing yet, or one item,
  and what is left of the buffer.  \<open>drain\<close> calls it until it has nothing more to return, as
  \<open>Framed::next\<close> does between two reads.  Each item takes at least one byte, so the length of
  the buffer plus one is enough fuel.
\<close>

type_synonym 'f decoder = "bytes \<Rightarrow> (io_error + 'f option) \<times> bytes"

fun drain :: "nat \<Rightarrow> 'f decoder \<Rightarrow> bytes \<Rightarrow> 'f list \<times> io_error option \<times> bytes" where
  "drain 0 dec src = ([], None, src)"
| "drain (Suc fuel) dec src =
     (case dec src of
        (Inl e, rest) \<Rightarrow> ([], Some e, rest)
      | (Inr None, rest) \<Rightarrow> ([], None, rest)
      | (Inr (Some f), rest) \<Rightarrow>
          (case drain fuel dec rest of (fs, e, rest') \<Rightarrow> (f # fs, e, rest')))"

definition drain_all :: "'f decoder \<Rightarrow> bytes \<Rightarrow> 'f list \<times> io_error option \<times> bytes" where
  "drain_all dec src = drain (Suc (length src)) dec src"

text \<open>Feeding a stream read by read: the buffer is drained after each read.\<close>

fun feed :: "'f decoder \<Rightarrow> bytes \<Rightarrow> bytes list \<Rightarrow> 'f list \<times> io_error option \<times> bytes" where
  "feed dec buf [] = ([], None, buf)"
| "feed dec buf (chunk # chunks) =
     (case drain_all dec (buf @ chunk) of
        (fs, Some e, rest) \<Rightarrow> (fs, Some e, rest)
      | (fs, None, rest) \<Rightarrow>
          (case feed dec rest chunks of (gs, e, rest') \<Rightarrow> (fs @ gs, e, rest')))"

locale stream_decoder =
  fixes dec :: "'f decoder"
  assumes dec_incomplete: "dec src = (Inr None, rest) \<Longrightarrow> rest = src"
    and dec_empty: "dec [] = (Inr None, [])"
    and dec_error: "dec src = (Inl e, rest) \<Longrightarrow> dec (src @ more) = (Inl e, rest @ more)"
    and dec_item: "dec src = (Inr (Some f), rest) \<Longrightarrow>
      \<exists>used. used \<noteq> [] \<and> src = used @ rest \<and> (\<forall>more. dec (used @ more) = (Inr (Some f), more))"
begin

lemma dec_item_shorter: "dec src = (Inr (Some f), rest) \<Longrightarrow> length rest < length src"
  by (drule dec_item) auto

lemma drain_fuel_enough:
  "length src < n \<Longrightarrow> length src < m \<Longrightarrow> drain n dec src = drain m dec src"
proof (induction n arbitrary: m src)
  case 0
  then show ?case by simp
next
  case (Suc n)
  then obtain m' where m: "m = Suc m'" by (cases m) auto
  have "drain n dec rest = drain m' dec rest"
    if "dec src = (Inr (Some f), rest)" for f rest
    using Suc m dec_item_shorter [OF that] by (intro Suc.IH) auto
  with m show ?case by (auto split: prod.splits sum.splits option.splits)
qed

lemma drain_all_step:
  "drain_all dec src =
     (case dec src of
        (Inl e, rest) \<Rightarrow> ([], Some e, rest)
      | (Inr None, rest) \<Rightarrow> ([], None, rest)
      | (Inr (Some f), rest) \<Rightarrow>
          (case drain_all dec rest of (fs, e, rest') \<Rightarrow> (f # fs, e, rest')))"
proof -
  have "drain (length src) dec rest = drain_all dec rest"
    if "dec src = (Inr (Some f), rest)" for f rest
    unfolding drain_all_def using dec_item_shorter [OF that] by (intro drain_fuel_enough) auto
  then show ?thesis
    by (auto simp: drain_all_def split: prod.splits sum.splits option.splits)
qed

lemma decoder_cases [case_names incomplete error item]:
  assumes "\<And>src. dec src = (Inr None, src) \<Longrightarrow> P src"
    and "\<And>src e rest. dec src = (Inl e, rest) \<Longrightarrow> P src"
    and "\<And>src f rest. dec src = (Inr (Some f), rest) \<Longrightarrow> P rest \<Longrightarrow> P src"
  shows "P src"
proof (induction "length src" arbitrary: src rule: less_induct)
  case less
  show ?case
  proof (cases "dec src")
    case (Pair r left)
    show ?thesis
    proof (cases r)
      case (Inl e)
      with Pair assms(2) show ?thesis by blast
    next
      case (Inr o')
      with Pair assms(1,3) dec_incomplete dec_item_shorter less show ?thesis
        by (cases o') blast+
    qed
  qed
qed

text \<open>
  The main law of the reader: bytes that arrive later never change what was decoded before,
  and draining what was left over together with the new bytes continues where it stopped.
\<close>

lemma drain_all_append:
  "drain_all dec src = (fs, None, rest) \<Longrightarrow>
   drain_all dec (src @ more) =
     (case drain_all dec (rest @ more) of (gs, e, rest') \<Rightarrow> (fs @ gs, e, rest'))"
proof (induction src arbitrary: fs rule: decoder_cases)
  case (item src f left)
  from item.prems item.hyps(1) obtain gs where gs: "drain_all dec left = (gs, None, rest)" "fs = f # gs"
    by (auto simp: drain_all_step [of src] split: prod.splits)
  from dec_item [OF item.hyps(1)] obtain used
    where "src = used @ left" "dec (used @ left @ more) = (Inr (Some f), left @ more)" by blast
  then show ?case
    using item.IH [OF gs(1)] gs(2) by (simp add: drain_all_step [of "used @ left @ more"] split: prod.splits)
qed (auto simp: drain_all_step [of src for src] split: prod.splits)

lemma drain_all_append_error:
  "drain_all dec src = (fs, Some e, rest) \<Longrightarrow>
   drain_all dec (src @ more) = (fs, Some e, rest @ more)"
proof (induction src arbitrary: fs rule: decoder_cases)
  case (item src f left)
  from item.prems item.hyps(1) obtain gs where gs: "drain_all dec left = (gs, Some e, rest)" "fs = f # gs"
    by (auto simp: drain_all_step [of src] split: prod.splits)
  from dec_item [OF item.hyps(1)] obtain used
    where "src = used @ left" "dec (used @ left @ more) = (Inr (Some f), left @ more)" by blast
  then show ?case
    using item.IH [OF gs(1)] gs(2) by (simp add: drain_all_step [of "used @ left @ more"])
next
  case (error src e' left)
  then show ?case
    using dec_error [of src e' left more] by (simp add: drain_all_step [of src] drain_all_step [of "src @ more"])
qed (simp add: drain_all_step [of src for src])

lemma drain_all_idle:
  "drain_all dec src = (fs, None, rest) \<Longrightarrow> drain_all dec rest = ([], None, rest)"
proof (induction src arbitrary: fs rule: decoder_cases)
  case (item src f left)
  then show ?case by (auto simp: drain_all_step [of src] split: prod.splits)
qed (auto simp: drain_all_step)

lemma feed_chunks:
  "drain_all dec buf = ([], None, buf) \<Longrightarrow>
   drain_all dec (buf @ concat chunks) = (fs, None, rest) \<Longrightarrow>
   feed dec buf chunks = (fs, None, rest)"
proof (induction chunks arbitrary: buf fs)
  case Nil
  then show ?case by simp
next
  case (Cons c cs)
  show ?case
  proof (cases "drain_all dec (buf @ c)")
    case (fields gs e left)
    show ?thesis
    proof (cases e)
      case None
      with fields have d: "drain_all dec (buf @ c) = (gs, None, left)" by simp
      from drain_all_append [OF d, of "concat cs"] Cons.prems(2)
      obtain hs where hs: "drain_all dec (left @ concat cs) = (hs, None, rest)" "fs = gs @ hs"
        by (auto split: prod.splits)
      from Cons.IH [OF drain_all_idle [OF d] hs(1)] hs(2) d show ?thesis by simp
    next
      case (Some e')
      with fields have "drain_all dec ((buf @ c) @ concat cs) = (gs, Some e', left @ concat cs)"
        by (intro drain_all_append_error) simp
      with Cons.prems(2) show ?thesis by simp
    qed
  qed
qed

end

text \<open>
  A codec: the decoder inverts an encoder on the items that may be sent.  A stream of encoded
  items, cut into reads anywhere, gives back exactly these items.
\<close>

locale frame_codec = stream_decoder dec
  for dec :: "'f decoder" +
  fixes enc :: "'f \<Rightarrow> bytes" and sendable :: "'f \<Rightarrow> bool"
  assumes dec_enc: "sendable f \<Longrightarrow> dec (enc f @ rest) = (Inr (Some f), rest)"
begin

lemma drain_all_encoded:
  "\<forall>f \<in> set fs. sendable f \<Longrightarrow> drain_all dec (concat (map enc fs)) = (fs, None, [])"
proof (induction fs)
  case Nil
  then show ?case by (simp add: drain_all_step [of "[]"] dec_empty)
next
  case (Cons f fs)
  then show ?case
    by (simp add: drain_all_step [of "enc f @ concat (map enc fs)"] dec_enc)
qed

lemma feed_encoded:
  assumes "\<forall>f \<in> set fs. sendable f" and "concat chunks = concat (map enc fs)"
  shows "feed dec [] chunks = (fs, None, [])"
  using assms drain_all_encoded
  by (intro feed_chunks) (simp_all add: drain_all_step [of "[]"] dec_empty)

text \<open>A proper prefix of a stream gives a prefix of the items, never a wrong item or an error.\<close>

lemma drain_all_prefix:
  assumes "\<forall>f \<in> set fs. sendable f" and "src @ more = concat (map enc fs)"
  shows "\<exists>gs hs rest. drain_all dec src = (gs, None, rest) \<and> fs = gs @ hs"
proof (cases "drain_all dec src")
  case (fields gs e rest)
  have all: "drain_all dec (src @ more) = (fs, None, [])"
    using drain_all_encoded [OF assms(1)] assms(2) by simp
  show ?thesis
  proof (cases e)
    case None
    with fields have "drain_all dec src = (gs, None, rest)" by simp
    from drain_all_append [OF this, of more] all this show ?thesis
      by (auto split: prod.splits)
  next
    case (Some e')
    with fields drain_all_append_error [of src gs e' rest more] all show ?thesis by simp
  qed
qed

end

end
