(* ===== verification/Protocol.thy ===== *)
theory Protocol
  imports Wire
begin

text \<open>
  \<open>src/protocol.rs\<close>: the frames of the wire protocol and \<open>FrameCodec\<close>.  A frame is a type
  byte, a big-endian \<open>u32\<close> payload length and the payload.  \<open>decode\<close> and \<open>encode\<close> are the two
  methods of the codec; the state they mutate, the \<open>BytesMut\<close> buffer, is passed and returned.
  The theory ends with the interpretation of the reader's contracts on \<open>decode\<close> and
  \<open>encode\<close>.
\<close>

section \<open>Data\<close>

definition TYPE_DATA :: u8 where [simp]: "TYPE_DATA = 0x01"
definition TYPE_RESIZE :: u8 where [simp]: "TYPE_RESIZE = 0x02"
definition TYPE_EXIT :: u8 where [simp]: "TYPE_EXIT = 0x03"
definition TYPE_DETACHED :: u8 where [simp]: "TYPE_DETACHED = 0x04"
definition TYPE_PING :: u8 where [simp]: "TYPE_PING = 0x05"
definition TYPE_PONG :: u8 where [simp]: "TYPE_PONG = 0x06"
definition TYPE_ENV :: u8 where [simp]: "TYPE_ENV = 0x07"
definition TYPE_NEW_SESSION :: u8 where [simp]: "TYPE_NEW_SESSION = 0x10"
definition TYPE_ATTACH :: u8 where [simp]: "TYPE_ATTACH = 0x11"
definition TYPE_LIST_SESSIONS :: u8 where [simp]: "TYPE_LIST_SESSIONS = 0x12"
definition TYPE_KILL_SESSION :: u8 where [simp]: "TYPE_KILL_SESSION = 0x13"
definition TYPE_KILL_SERVER :: u8 where [simp]: "TYPE_KILL_SERVER = 0x14"
definition TYPE_SESSION_CREATED :: u8 where [simp]: "TYPE_SESSION_CREATED = 0x20"
definition TYPE_SESSION_INFO :: u8 where [simp]: "TYPE_SESSION_INFO = 0x21"
definition TYPE_OK :: u8 where [simp]: "TYPE_OK = 0x22"
definition TYPE_ERROR :: u8 where [simp]: "TYPE_ERROR = 0x23"

definition HEADER_LEN :: nat where [simp]: "HEADER_LEN = 5"
definition MAX_FRAME_SIZE :: nat where "MAX_FRAME_SIZE = 2 ^ 20"

record session_entry =
  entry_id :: string
  entry_name :: string
  entry_pty_path :: string
  entry_shell_pid :: u32
  entry_created_at :: u64
  entry_attached :: bool
  entry_last_heartbeat :: u64

datatype frame =
    Data bytes
  | Resize u16 u16
  | Exit i32
  | Detached
  | Ping
  | Pong
  | Env "(string \<times> string) list"
  | NewSession string
  | Attach string
  | ListSessions
  | KillSession string
  | KillServer
  | SessionCreated string
  | SessionInfo "session_entry list"
  | Ok
  | Error string

text \<open>An \<open>anyhow\<close> error is a message, possibly built around an I/O error.\<close>

datatype app_error = Message string | Context string io_error

fun expect_from :: "(io_error + frame) option \<Rightarrow> app_error + frame" where
  "expect_from (Some (Inr frame)) = Inr frame"
| "expect_from (Some (Inl e)) = Inl (Context ''daemon protocol error: '' e)"
| "expect_from None = Inl (Message ''daemon closed connection'')"

section \<open>Decoding\<close>

text \<open>\<open>{frame_type:02x}\<close>.\<close>

definition hex_digit :: "nat \<Rightarrow> char" where
  "hex_digit n = (if n < 10 then char_of (48 + n) else char_of (87 + n))"

definition show_hex2 :: "u8 \<Rightarrow> string" where
  "show_hex2 b = [hex_digit (unat b div 16), hex_digit (unat b mod 16)]"

definition decode_string :: "bytes \<Rightarrow> io_error + string" where
  "decode_string payload = from_utf8 payload"

definition env_of_text :: "string \<Rightarrow> (string \<times> string) list" where
  "env_of_text text =
     (if text = [] then [] else List.map_filter (split_once CHR ''='') (str_lines text))"

definition entry_of_line :: "string \<Rightarrow> session_entry option" where
  "entry_of_line line =
     (let parts = split_char TAB line
      in if length parts = 7
         then Some \<lparr>entry_id = parts ! 0,
                    entry_name = parts ! 1,
                    entry_pty_path = parts ! 2,
                    entry_shell_pid = (case parse_u32 (parts ! 3) of None \<Rightarrow> 0 | Some n \<Rightarrow> n),
                    entry_created_at = (case parse_u64 (parts ! 4) of None \<Rightarrow> 0 | Some n \<Rightarrow> n),
                    entry_attached = (parts ! 5 = ''1''),
                    entry_last_heartbeat = (case parse_u64 (parts ! 6) of None \<Rightarrow> 0 | Some n \<Rightarrow> n)\<rparr>
         else None)"

definition info_of_text :: "string \<Rightarrow> session_entry list" where
  "info_of_text text = (if text = [] then [] else List.map_filter entry_of_line (str_lines text))"

text \<open>The \<open>match frame_type\<close> on a complete payload.\<close>

definition decode_payload :: "u8 \<Rightarrow> bytes \<Rightarrow> io_error + frame" where
  "decode_payload frame_type payload =
     (if frame_type = TYPE_DATA then Inr (Data payload)
      else if frame_type = TYPE_RESIZE then
        (if length payload \<noteq> 4 then Inl (IoError InvalidData ''resize frame must be 4 bytes'')
         else Inr (Resize (u16_from_be (payload ! 0) (payload ! 1))
                          (u16_from_be (payload ! 2) (payload ! 3))))
      else if frame_type = TYPE_EXIT then
        (if length payload \<noteq> 4 then Inl (IoError InvalidData ''exit frame must be 4 bytes'')
         else Inr (Exit (u32_from_be (payload ! 0) (payload ! 1) (payload ! 2) (payload ! 3))))
      else if frame_type = TYPE_DETACHED then Inr Detached
      else if frame_type = TYPE_PING then Inr Ping
      else if frame_type = TYPE_PONG then Inr Pong
      else if frame_type = TYPE_ENV then
        try_then (from_utf8 payload) (\<lambda>text. Inr (Env (env_of_text text)))
      else if frame_type = TYPE_NEW_SESSION then
        try_then (decode_string payload) (\<lambda>name. Inr (NewSession name))
      else if frame_type = TYPE_ATTACH then
        try_then (decode_string payload) (\<lambda>session. Inr (Attach session))
      else if frame_type = TYPE_LIST_SESSIONS then Inr ListSessions
      else if frame_type = TYPE_KILL_SESSION then
        try_then (decode_string payload) (\<lambda>session. Inr (KillSession session))
      else if frame_type = TYPE_KILL_SERVER then Inr KillServer
      else if frame_type = TYPE_SESSION_CREATED then
        try_then (decode_string payload) (\<lambda>id. Inr (SessionCreated id))
      else if frame_type = TYPE_SESSION_INFO then
        try_then (from_utf8 payload) (\<lambda>text. Inr (SessionInfo (info_of_text text)))
      else if frame_type = TYPE_OK then Inr Ok
      else if frame_type = TYPE_ERROR then
        try_then (decode_string payload) (\<lambda>message. Inr (Error message))
      else Inl (IoError InvalidData (''unknown frame type: 0x'' @ show_hex2 frame_type)))"

definition too_large :: "nat \<Rightarrow> io_error" where
  "too_large payload_len =
     IoError InvalidData (''frame payload too large: '' @ show_nat payload_len @ '' bytes (max ''
       @ show_nat MAX_FRAME_SIZE @ '')'')"

text \<open>\<open>Decoder::decode\<close>: the result and what is left of the buffer \<open>src\<close>.\<close>

definition decode :: "frame decoder" where
  "decode src =
     (if length src < HEADER_LEN then (Inr None, src)
      else
        (let frame_type = src ! 0;
             payload_len = unat (u32_from_be (src ! 1) (src ! 2) (src ! 3) (src ! 4))
         in if payload_len > MAX_FRAME_SIZE then (Inl (too_large payload_len), src)
            else if length src < HEADER_LEN + payload_len then (Inr None, src)
            else
              (let body = drop HEADER_LEN src;
                   payload = take payload_len body;
                   rest = drop payload_len body
               in (case decode_payload frame_type payload of
                     Inl e \<Rightarrow> (Inl e, rest)
                   | Inr f \<Rightarrow> (Inr (Some f), rest)))))"

section \<open>Encoding\<close>

text \<open>\<open>put_u8(ty); put_u32(payload.len() as u32); extend(payload)\<close>, the length cut to 32 bits.\<close>

definition put_frame :: "bytes \<Rightarrow> u8 \<Rightarrow> bytes \<Rightarrow> bytes" where
  "put_frame dst ty payload = dst @ ty # u32_to_be (of_nat (length payload)) @ payload"

definition encode_empty :: "bytes \<Rightarrow> u8 \<Rightarrow> bytes" where
  "encode_empty dst ty = (dst @ [ty]) @ u32_to_be 0"

definition encode_str :: "bytes \<Rightarrow> u8 \<Rightarrow> string \<Rightarrow> bytes" where
  "encode_str dst ty s = put_frame dst ty (as_bytes s)"

definition text_of_env :: "(string \<times> string) list \<Rightarrow> string" where
  "text_of_env vars = join_str [NL] (map (\<lambda>(k, v). k @ ''='' @ v) vars)"

definition line_of_entry :: "session_entry \<Rightarrow> string" where
  "line_of_entry e =
     join_str [TAB]
       [entry_id e, entry_name e, entry_pty_path e, show_u32 (entry_shell_pid e),
        show_u64 (entry_created_at e), if entry_attached e then ''1'' else ''0'',
        show_u64 (entry_last_heartbeat e)]"

definition text_of_info :: "session_entry list \<Rightarrow> string" where
  "text_of_info sessions = join_str [NL] (map line_of_entry sessions)"

text \<open>\<open>Encoder::encode\<close>, which always returns \<open>Ok(())\<close>.\<close>

fun encode_into :: "frame \<Rightarrow> bytes \<Rightarrow> bytes" where
  "encode_into (Data d) dst = put_frame dst TYPE_DATA d"
| "encode_into (Resize cols rows) dst =
     dst @ TYPE_RESIZE # u32_to_be 4 @ u16_to_be cols @ u16_to_be rows"
| "encode_into (Exit code) dst = dst @ TYPE_EXIT # u32_to_be 4 @ u32_to_be code"
| "encode_into Detached dst = encode_empty dst TYPE_DETACHED"
| "encode_into Ping dst = encode_empty dst TYPE_PING"
| "encode_into Pong dst = encode_empty dst TYPE_PONG"
| "encode_into (Env vars) dst = put_frame dst TYPE_ENV (as_bytes (text_of_env vars))"
| "encode_into (NewSession name) dst = encode_str dst TYPE_NEW_SESSION name"
| "encode_into (Attach session) dst = encode_str dst TYPE_ATTACH session"
| "encode_into ListSessions dst = encode_empty dst TYPE_LIST_SESSIONS"
| "encode_into (KillSession session) dst = encode_str dst TYPE_KILL_SESSION session"
| "encode_into KillServer dst = encode_empty dst TYPE_KILL_SERVER"
| "encode_into (SessionCreated i) dst = encode_str dst TYPE_SESSION_CREATED i"
| "encode_into (SessionInfo sessions) dst =
     put_frame dst TYPE_SESSION_INFO (as_bytes (text_of_info sessions))"
| "encode_into Ok dst = encode_empty dst TYPE_OK"
| "encode_into (Error message) dst = encode_str dst TYPE_ERROR message"

definition encode :: "frame \<Rightarrow> bytes \<Rightarrow> (io_error + unit) \<times> bytes" where
  "encode f dst = (Inr (), encode_into f dst)"

abbreviation frame_bytes :: "frame \<Rightarrow> bytes" where
  "frame_bytes f \<equiv> encode_into f []"

section \<open>The frames that survive the wire\<close>

definition env_ok :: "(string \<times> string) list \<Rightarrow> bool" where
  "env_ok vars \<longleftrightarrow>
     (\<forall>(k, v) \<in> set vars. rust_str k \<and> rust_str v \<and> CHR ''='' \<notin> set k
        \<and> NL \<notin> set k \<and> NL \<notin> set v)
     \<and> (\<forall>(k, v) \<in> set (butlast vars). strip_cr v = v)"

definition entry_ok :: "session_entry \<Rightarrow> bool" where
  "entry_ok e \<longleftrightarrow>
     (\<forall>s \<in> {entry_id e, entry_name e, entry_pty_path e}.
        rust_str s \<and> TAB \<notin> set s \<and> NL \<notin> set s)"

fun sendable :: "frame \<Rightarrow> bool" where
  "sendable (Data d) \<longleftrightarrow> length d \<le> MAX_FRAME_SIZE"
| "sendable (Env vars) \<longleftrightarrow> env_ok vars \<and> length (text_of_env vars) \<le> MAX_FRAME_SIZE"
| "sendable (NewSession s) \<longleftrightarrow> rust_str s \<and> length s \<le> MAX_FRAME_SIZE"
| "sendable (Attach s) \<longleftrightarrow> rust_str s \<and> length s \<le> MAX_FRAME_SIZE"
| "sendable (KillSession s) \<longleftrightarrow> rust_str s \<and> length s \<le> MAX_FRAME_SIZE"
| "sendable (SessionCreated s) \<longleftrightarrow> rust_str s \<and> length s \<le> MAX_FRAME_SIZE"
| "sendable (SessionInfo es) \<longleftrightarrow>
     (\<forall>e \<in> set es. entry_ok e) \<and> length (text_of_info es) \<le> MAX_FRAME_SIZE"
| "sendable (Error s) \<longleftrightarrow> rust_str s \<and> length s \<le> MAX_FRAME_SIZE"
| "sendable _ \<longleftrightarrow> True"

text \<open>The type invariant of a decoded frame: every \<open>String\<close> in it is valid UTF-8.\<close>

fun frame_strings :: "frame \<Rightarrow> string list" where
  "frame_strings (NewSession s) = [s]"
| "frame_strings (Attach s) = [s]"
| "frame_strings (KillSession s) = [s]"
| "frame_strings (SessionCreated s) = [s]"
| "frame_strings (Error s) = [s]"
| "frame_strings (Env vars) = map fst vars @ map snd vars"
| "frame_strings (SessionInfo es) = map entry_id es @ map entry_name es @ map entry_pty_path es"
| "frame_strings _ = []"

section \<open>How decode reads a buffer\<close>

lemma decode_short: "length src < 5 \<Longrightarrow> decode src = (Inr None, src)"
  by (simp add: decode_def)

lemma decode_Cons5:
  "decode (t # b1 # b2 # b3 # b4 # body) =
     (let n = unat (u32_from_be b1 b2 b3 b4)
      in if n > MAX_FRAME_SIZE then (Inl (too_large n), t # b1 # b2 # b3 # b4 # body)
         else if length body < n then (Inr None, t # b1 # b2 # b3 # b4 # body)
         else (case decode_payload t (take n body) of
                 Inl e \<Rightarrow> (Inl e, drop n body)
               | Inr f \<Rightarrow> (Inr (Some f), drop n body)))"
  by (simp add: decode_def Let_def)

lemma length_ge_5: "\<not> length src < 5 \<Longrightarrow> \<exists>t b1 b2 b3 b4 body. src = t # b1 # b2 # b3 # b4 # body"
  by (auto simp: not_less numeral_eq_Suc Suc_le_length_iff)

lemma decode_buffer_cases [case_names short full]:
  assumes "length src < 5 \<Longrightarrow> P"
    and "\<And>t b1 b2 b3 b4 body. src = t # b1 # b2 # b3 # b4 # body \<Longrightarrow> P"
  shows P
  using assms length_ge_5 by blast

lemma decode_incomplete: "decode src = (Inr None, rest) \<Longrightarrow> rest = src"
  by (cases src rule: decode_buffer_cases)
    (auto simp: decode_short decode_Cons5 Let_def split: if_splits sum.splits)

lemma decode_error_more: "decode src = (Inl e, rest) \<Longrightarrow> decode (src @ later) = (Inl e, rest @ later)"
  by (cases src rule: decode_buffer_cases)
    (auto simp: decode_short decode_Cons5 Let_def split: if_splits sum.splits)

lemma decode_item_more:
  "decode src = (Inr (Some f), rest) \<Longrightarrow>
   \<exists>used. used \<noteq> [] \<and> src = used @ rest \<and> (\<forall>later. decode (used @ later) = (Inr (Some f), later))"
proof (cases src rule: decode_buffer_cases)
  case (full t b1 b2 b3 b4 body)
  let ?n = "unat (u32_from_be b1 b2 b3 b4)"
  assume d: "decode src = (Inr (Some f), rest)"
  show ?thesis
    using d full
    by (intro exI [of _ "t # b1 # b2 # b3 # b4 # take ?n body"])
      (auto simp: decode_Cons5 Let_def split: if_splits sum.splits)
qed (simp add: decode_short)

text \<open>A whole frame: header and payload, then anything.\<close>

lemma u32_bytes: "\<exists>b1 b2 b3 b4. u32_to_be w = [b1, b2, b3, b4] \<and> u32_from_be b1 b2 b3 b4 = w"
  by (simp add: u32_to_be_def u32_from_be_to_be)

lemma MAX_FRAME_SIZE_u32: "n \<le> MAX_FRAME_SIZE \<Longrightarrow> unat (of_nat n :: u32) = n"
  by (simp add: MAX_FRAME_SIZE_def unat_of_nat take_bit_eq_mod)

lemma decode_put_frame:
  assumes "length p \<le> MAX_FRAME_SIZE"
  shows "decode (put_frame [] ty p @ rest) =
     (case decode_payload ty p of Inl e \<Rightarrow> (Inl e, rest) | Inr f \<Rightarrow> (Inr (Some f), rest))"
proof -
  obtain b1 b2 b3 b4 where b: "u32_to_be (of_nat (length p)) = [b1, b2, b3, b4]"
      "u32_from_be b1 b2 b3 b4 = of_nat (length p)"
    using u32_bytes by blast
  then show ?thesis
    using assms by (simp add: put_frame_def decode_Cons5 MAX_FRAME_SIZE_u32 Let_def split: sum.split)
qed

lemma decode_put_frame_too_large:
  assumes "length p > MAX_FRAME_SIZE" and "length p < 2 ^ 32"
  shows "decode (put_frame [] ty p @ rest) = (Inl (too_large (length p)), put_frame [] ty p @ rest)"
proof -
  obtain b1 b2 b3 b4 where b: "u32_to_be (of_nat (length p)) = [b1, b2, b3, b4]"
      "u32_from_be b1 b2 b3 b4 = of_nat (length p)"
    using u32_bytes by blast
  moreover have "unat (of_nat (length p) :: u32) = length p"
    using assms(2) by (simp add: unat_of_nat take_bit_eq_mod)
  ultimately show ?thesis
    using assms by (simp add: put_frame_def decode_Cons5)
qed

section \<open>Encoded frames\<close>

fun frame_type_of :: "frame \<Rightarrow> u8" where
  "frame_type_of (Data _) = TYPE_DATA"
| "frame_type_of (Resize _ _) = TYPE_RESIZE"
| "frame_type_of (Exit _) = TYPE_EXIT"
| "frame_type_of Detached = TYPE_DETACHED"
| "frame_type_of Ping = TYPE_PING"
| "frame_type_of Pong = TYPE_PONG"
| "frame_type_of (Env _) = TYPE_ENV"
| "frame_type_of (NewSession _) = TYPE_NEW_SESSION"
| "frame_type_of (Attach _) = TYPE_ATTACH"
| "frame_type_of ListSessions = TYPE_LIST_SESSIONS"
| "frame_type_of (KillSession _) = TYPE_KILL_SESSION"
| "frame_type_of KillServer = TYPE_KILL_SERVER"
| "frame_type_of (SessionCreated _) = TYPE_SESSION_CREATED"
| "frame_type_of (SessionInfo _) = TYPE_SESSION_INFO"
| "frame_type_of Ok = TYPE_OK"
| "frame_type_of (Error _) = TYPE_ERROR"

fun payload_of :: "frame \<Rightarrow> bytes" where
  "payload_of (Data d) = d"
| "payload_of (Resize cols rows) = u16_to_be cols @ u16_to_be rows"
| "payload_of (Exit code) = u32_to_be code"
| "payload_of (Env vars) = as_bytes (text_of_env vars)"
| "payload_of (NewSession s) = as_bytes s"
| "payload_of (Attach s) = as_bytes s"
| "payload_of (KillSession s) = as_bytes s"
| "payload_of (SessionCreated s) = as_bytes s"
| "payload_of (SessionInfo es) = as_bytes (text_of_info es)"
| "payload_of (Error s) = as_bytes s"
| "payload_of _ = []"

lemma encode_into_eq: "encode_into f dst = dst @ put_frame [] (frame_type_of f) (payload_of f)"
  by (cases f) (simp_all add: put_frame_def encode_empty_def encode_str_def be16.put_length be32.put_length)

lemma length_frame_bytes: "length (frame_bytes f) = 5 + length (payload_of f)"
  by (simp add: encode_into_eq put_frame_def be32.put_length)

lemma payload_of_length: "sendable f \<Longrightarrow> length (payload_of f) \<le> MAX_FRAME_SIZE"
  by (cases f) (simp_all add: be16.put_length be32.put_length MAX_FRAME_SIZE_def)

lemma env_of_text_of_env: "env_ok vars \<Longrightarrow> env_of_text (text_of_env vars) = vars"
proof -
  assume ok: "env_ok vars"
  let ?f = "\<lambda>(k, v). k @ ''='' @ v"
  show ?thesis
  proof (cases "vars = []")
    case True
    then show ?thesis by (simp add: env_of_text_def text_of_env_def)
  next
    case False
    then have ne: "map ?f vars \<noteq> []" "last (map ?f vars) \<noteq> []"
      by (auto simp: last_map split: prod.splits)
    have nl: "\<forall>x \<in> set (map ?f vars). NL \<notin> set x"
      using ok by (auto simp: env_ok_def)
    have "map strip_cr (butlast (map ?f vars)) = butlast (map ?f vars)"
      using ok by (fastforce simp: env_ok_def map_butlast [symmetric] strip_cr_id split: if_splits intro!: map_idI)
    then have "str_lines (text_of_env vars) = map ?f vars"
      using str_lines_join [OF nl ne] ne(1) by (simp add: text_of_env_def)
    moreover have "List.map_filter (split_once CHR ''='') (map ?f vars) = vars"
    proof -
      have "\<forall>(k, v) \<in> set vars. CHR ''='' \<notin> set k" using ok by (auto simp: env_ok_def)
      then show ?thesis
        by (induction vars) (auto simp: List.map_filter_simps split_once_append)
    qed
    moreover have "text_of_env vars \<noteq> []"
      using ne by (auto simp: text_of_env_def join_str_eq_Nil)
    ultimately show ?thesis by (simp add: env_of_text_def)
  qed
qed

definition untabbed :: "session_entry \<Rightarrow> bool" where
  "untabbed e \<longleftrightarrow> TAB \<notin> set (entry_id e @ entry_name e @ entry_pty_path e)"

lemma entry_of_line_untabbed:
  assumes "untabbed e"
  shows "entry_of_line (line_of_entry e) = Some e"
proof -
  have "split_char TAB (line_of_entry e) =
     [entry_id e, entry_name e, entry_pty_path e, show_u32 (entry_shell_pid e),
        show_u64 (entry_created_at e), if entry_attached e then ''1'' else ''0'',
        show_u64 (entry_last_heartbeat e)]"
    using assms unfolding line_of_entry_def
    by (intro split_char_join) (auto simp: untabbed_def show_u32_def show_u64_def)
  then show ?thesis by (simp add: entry_of_line_def)
qed

lemma entry_of_line_of_entry:
  "entry_ok e \<Longrightarrow> entry_of_line (line_of_entry e) = Some e"
  by (rule entry_of_line_untabbed) (simp add: entry_ok_def untabbed_def)

lemma line_of_entry_last: "\<exists>s d. line_of_entry e = s @ show_nat d \<and> s \<noteq> []"
  by (rule exI [of _ "entry_id e @ TAB # entry_name e @ TAB # entry_pty_path e @ TAB #
        show_u32 (entry_shell_pid e) @ TAB # show_u64 (entry_created_at e) @ TAB #
        (if entry_attached e then ''1'' else ''0'') @ [TAB]"],
      rule exI [of _ "unat (entry_last_heartbeat e)"]) (simp add: line_of_entry_def show_u64_def)

lemma line_of_entry_ends:
  "line_of_entry e \<noteq> []" "strip_cr (line_of_entry e) = line_of_entry e"
proof -
  obtain s d where l: "line_of_entry e = s @ show_nat d" using line_of_entry_last by blast
  then show "line_of_entry e \<noteq> []" by simp
  have "last (show_nat d) \<noteq> CR"
    using show_nat_not_sep(3) [of d] last_in_set [OF show_nat_nonempty [of d]] by metis
  with l show "strip_cr (line_of_entry e) = line_of_entry e" by (simp add: strip_cr_id)
qed

lemma entry_ok_line: "entry_ok e \<Longrightarrow> NL \<notin> set (line_of_entry e)"
  by (auto simp: entry_ok_def line_of_entry_def show_u32_def show_u64_def)

text \<open>Lines without a newline are recovered one by one.\<close>

lemma info_of_text_lines:
  assumes "\<forall>e \<in> set es. NL \<notin> set (line_of_entry e)"
  shows "info_of_text (text_of_info es) = List.map_filter entry_of_line (map line_of_entry es)"
proof (cases "es = []")
  case True
  then show ?thesis by (simp add: info_of_text_def text_of_info_def List.map_filter_simps)
next
  case False
  let ?ls = "map line_of_entry es"
  have ne: "?ls \<noteq> []" "last ?ls \<noteq> []" using False by (simp_all add: last_map line_of_entry_ends)
  have "map strip_cr (butlast ?ls) = butlast ?ls"
    by (rule map_idI) (auto dest!: in_set_butlastD simp: line_of_entry_ends)
  moreover have "\<forall>x \<in> set ?ls. NL \<notin> set x" using assms by auto
  ultimately have "str_lines (text_of_info es) = ?ls"
    using str_lines_join [OF _ ne] ne(1) by (simp add: text_of_info_def)
  moreover have "text_of_info es \<noteq> []"
    using ne by (auto simp: text_of_info_def join_str_eq_Nil)
  ultimately show ?thesis by (simp add: info_of_text_def)
qed

lemma info_of_text_of_info:
  "\<forall>e \<in> set es. entry_ok e \<Longrightarrow> info_of_text (text_of_info es) = es"
  by (subst info_of_text_lines, simp add: entry_ok_line, induction es)
    (auto simp: List.map_filter_simps entry_of_line_of_entry)

lemma rust_str_text_of_env: "env_ok vars \<Longrightarrow> rust_str (text_of_env vars)"
  unfolding text_of_env_def
  by (rule rust_str_join)
    (auto simp: env_ok_def rust_str_append rust_str_ascii_append [of "''=''", simplified])

lemma rust_str_show [simp]: "rust_str (show_u32 n)" "rust_str (show_u64 m)" "rust_str (show_nat k)"
  by (simp_all add: show_u32_def show_u64_def ascii_rust_str)

lemma rust_str_line_of_entry: "entry_ok e \<Longrightarrow> rust_str (line_of_entry e)"
  unfolding line_of_entry_def
  by (rule rust_str_join) (auto simp: entry_ok_def ascii_rust_str)

lemma rust_str_text_of_info: "\<forall>e \<in> set es. entry_ok e \<Longrightarrow> rust_str (text_of_info es)"
  unfolding text_of_info_def by (rule rust_str_join) (auto simp: rust_str_line_of_entry)

lemma decode_payload_of: "sendable f \<Longrightarrow> decode_payload (frame_type_of f) (payload_of f) = Inr f"
proof (cases f)
  case (Resize cols rows)
  then show ?thesis
    using be16.get_put [of cols] be16.get_put [of rows]
    by (simp add: decode_payload_def u16_to_be_def get_u16_def)
next
  case (Exit code)
  then show ?thesis
    using be32.get_put [of code]
    by (simp add: decode_payload_def u32_to_be_def get_u32_def nth_Cons')
qed (simp_all add: decode_payload_def decode_string_def env_of_text_of_env rust_str_text_of_env
    info_of_text_of_info rust_str_text_of_info)

lemma decode_encoded: "sendable f \<Longrightarrow> decode (frame_bytes f @ rest) = (Inr (Some f), rest)"
  by (simp add: encode_into_eq decode_put_frame payload_of_length decode_payload_of)

text \<open>The contracts of the reader hold of \<open>FrameCodec\<close>.\<close>

interpretation codec: frame_codec decode frame_bytes sendable
  by unfold_locales
    (auto intro: decode_incomplete decode_error_more decode_item_more decode_encoded
      simp: decode_short)

section \<open>What a decoded frame looks like\<close>

text \<open>Strings cut out of valid text at ASCII separators are valid.\<close>

lemma rust_str_split_once:
  "rust_str s \<Longrightarrow> (of_char c :: nat) < 128 \<Longrightarrow> split_once c s = Some (a, b) \<Longrightarrow> rust_str a \<and> rust_str b"
  by (metis rust_str_at_ascii split_once_Some)

lemma rust_str_split_char:
  "rust_str s \<Longrightarrow> (of_char c :: nat) < 128 \<Longrightarrow> x \<in> set (split_char c s) \<Longrightarrow> rust_str x"
proof (induction "length s" arbitrary: s rule: less_induct)
  case less
  show ?case
  proof (cases "split_once c s")
    case None
    with less.prems show ?thesis by (simp add: split_once_None split_char_fresh)
  next
    case (Some ab)
    then obtain a b where ab: "s = a @ c # b" "c \<notin> set a"
      by (cases ab) (auto simp: split_once_Some)
    with less.prems have v: "rust_str a \<and> rust_str b" using rust_str_at_ascii by blast
    from ab less.prems(3) have "x = a \<or> x \<in> set (split_char c b)" by (simp add: split_char_append)
    with v less.hyps [of b] less.prems(2) ab show ?thesis by auto
  qed
qed

lemma rust_str_strip_cr: "rust_str s \<Longrightarrow> rust_str (strip_cr s)"
proof (cases s rule: rev_cases)
  case (snoc t c)
  assume "rust_str s"
  with snoc show ?thesis
    using rust_str_at_ascii [of t CR "[]"] by (auto simp: strip_cr_def)
qed (simp add: strip_cr_def)

lemma rust_str_lines: "rust_str s \<Longrightarrow> x \<in> set (str_lines s) \<Longrightarrow> rust_str x"
proof (induction "length s" arbitrary: s rule: less_induct)
  case less
  show ?case
  proof (cases "split_once NL s")
    case None
    with less.prems show ?thesis by (auto simp: split_once_None str_lines_fresh split: if_splits)
  next
    case (Some ab)
    then obtain a b where ab: "s = a @ NL # b" "NL \<notin> set a"
      by (cases ab) (auto simp: split_once_Some)
    with less.prems have v: "rust_str a \<and> rust_str b" using rust_str_at_ascii [of a NL b] by simp
    from ab less.prems(2) have "x = strip_cr a \<or> x \<in> set (str_lines b)"
      by (simp add: str_lines_append)
    with v less.hyps [of b] ab show ?thesis by (auto intro: rust_str_strip_cr)
  qed
qed

lemma env_of_text_valid:
  assumes "rust_str text" and "(k, v) \<in> set (env_of_text text)"
  shows "rust_str k" "rust_str v"
proof -
  from assms(2) obtain line where l: "line \<in> set (str_lines text)"
      "split_once CHR ''='' line = Some (k, v)"
    by (auto simp: env_of_text_def List.map_filter_def split: if_splits)
  have "rust_str line" using rust_str_lines [OF assms(1) l(1)] .
  with l(2) show "rust_str k" "rust_str v"
    using rust_str_split_once [of line "CHR ''=''" k v] by simp_all
qed

lemma info_of_text_valid:
  assumes "rust_str text" and "e \<in> set (info_of_text text)"
    and "s \<in> {entry_id e, entry_name e, entry_pty_path e}"
  shows "rust_str s"
proof -
  from assms(2) obtain line where l: "line \<in> set (str_lines text)" "entry_of_line line = Some e"
    by (auto simp: info_of_text_def List.map_filter_def split: if_splits)
  then have "length (split_char TAB line) = 7" and "s \<in> set (split_char TAB line)"
    using assms(3) by (auto simp: entry_of_line_def Let_def split: if_splits)
  with rust_str_lines [OF assms(1) l(1)] show ?thesis
    using rust_str_split_char [of line TAB s] by simp
qed

lemma env_frame_strings:
  assumes "rust_str text" and "s \<in> set (frame_strings (Env (env_of_text text)))"
  shows "rust_str s"
proof -
  from assms(2) obtain k v where "(k, v) \<in> set (env_of_text text)" "s = k \<or> s = v" by auto
  with env_of_text_valid [OF assms(1)] show ?thesis by metis
qed

lemma info_frame_strings:
  "rust_str text \<Longrightarrow> s \<in> set (frame_strings (SessionInfo (info_of_text text))) \<Longrightarrow> rust_str s"
  using info_of_text_valid by auto

lemma decode_payload_strings:
  assumes "decode_payload t p = Inr f" and "s \<in> set (frame_strings f)"
  shows "rust_str s"
proof (cases f)
  case (Env vars)
  with assms(1) have "\<exists>text. rust_str text \<and> vars = env_of_text text"
    by (auto simp: decode_payload_def decode_string_def try_then_Inr_iff from_utf8_Inr split: if_splits)
  with assms(2) Env env_frame_strings show ?thesis by blast
next
  case (SessionInfo es)
  with assms(1) have "\<exists>text. rust_str text \<and> es = info_of_text text"
    by (auto simp: decode_payload_def decode_string_def try_then_Inr_iff from_utf8_Inr split: if_splits)
  with assms(2) SessionInfo info_frame_strings show ?thesis by blast
qed (use assms in \<open>auto simp: decode_payload_def decode_string_def try_then_Inr_iff from_utf8_Inr
      split: if_splits\<close>)

lemma decode_Some:
  assumes "decode src = (Inr (Some f), rest)"
  obtains t p where "src = put_frame [] t p @ rest" "length p \<le> MAX_FRAME_SIZE"
    "decode_payload t p = Inr f"
proof (cases src rule: decode_buffer_cases)
  case short
  with assms show ?thesis by (simp add: decode_short)
next
  case (full t b1 b2 b3 b4 body)
  let ?n = "unat (u32_from_be b1 b2 b3 b4)"
  from assms full have n: "?n \<le> MAX_FRAME_SIZE" "?n \<le> length body" "rest = drop ?n body"
      "decode_payload t (take ?n body) = Inr f"
    by (auto simp: decode_Cons5 Let_def split: if_splits sum.splits)
  have "u32_to_be (of_nat ?n) = [b1, b2, b3, b4]"
    using be32.put_get [of "[b1, b2, b3, b4]"] by (simp add: get_u32_def nth_Cons')
  with full n show ?thesis
    by (intro that [of t "take ?n body"]) (simp_all add: put_frame_def min_absorb2)
qed

text \<open>
  Frames whose payload is their whole content are the same bytes again when encoded; \<open>Env\<close> and
  \<open>SessionInfo\<close> are parsed leniently, and frames without content ignore their payload.
\<close>

fun canonical :: "frame \<Rightarrow> bool" where
  "canonical (Data _) = True"
| "canonical (Resize _ _) = True"
| "canonical (Exit _) = True"
| "canonical (NewSession _) = True"
| "canonical (Attach _) = True"
| "canonical (KillSession _) = True"
| "canonical (SessionCreated _) = True"
| "canonical (Error _) = True"
| "canonical _ = False"

lemma decode_payload_canonical:
  "decode_payload t p = Inr f \<Longrightarrow> canonical f \<Longrightarrow> t = frame_type_of f \<and> p = payload_of f"
  by (auto simp: decode_payload_def decode_string_def try_then_Inr_iff from_utf8_Inr
      length_eq_numerals u16_to_be_def u32_to_be_def u16_bytes_of_from_be u32_bytes_of_from_be
      split: if_splits)

lemma decode_then_encode:
  "decode src = (Inr (Some f), rest) \<Longrightarrow> canonical f \<Longrightarrow> src = frame_bytes f @ rest"
  by (elim decode_Some) (auto simp: encode_into_eq dest: decode_payload_canonical)

section \<open>Session listings with unclean names\<close>

lemma length_split_char: "length (split_char c s) = Suc (count_list s c)"
  by (induction s) (auto split: list.splits)

lemma entry_of_line_tabbed:
  assumes "\<not> untabbed e"
  shows "entry_of_line (line_of_entry e) = None"
proof -
  have z: "count_list (show_nat n) TAB = 0" for n by (simp add: count_list_0_iff)
  have "0 < count_list (entry_id e @ entry_name e @ entry_pty_path e) TAB"
    using assms by (metis untabbed_def count_list_0_iff gr0I)
  then have "length (split_char TAB (line_of_entry e)) > 7"
    by (simp add: length_split_char line_of_entry_def show_u32_def show_u64_def z)
  then show ?thesis by (simp add: entry_of_line_def)
qed

lemma info_of_text_filter:
  assumes "\<forall>e \<in> set es. rust_str (line_of_entry e) \<and> NL \<notin> set (line_of_entry e)"
  shows "info_of_text (text_of_info es) = filter untabbed es"
proof -
  have "List.map_filter entry_of_line (map line_of_entry es) = filter untabbed es"
    by (induction es) (auto simp: List.map_filter_simps entry_of_line_untabbed entry_of_line_tabbed)
  with assms show ?thesis by (simp add: info_of_text_lines)
qed

section \<open>Properties\<close>

text \<open>
  C14. Round trip: \<open>encode\<close> appends to its buffer, and \<open>decode\<close> on the encoding of a sendable
  frame, whatever bytes follow, returns exactly that frame and leaves exactly those bytes.
\<close>

theorem decode_encode_roundtrip:
  "sendable f \<Longrightarrow>
     snd (encode f dst) = dst @ snd (encode f []) \<and>
     decode (snd (encode f []) @ rest) = (Inr (Some f), rest)"
  by (simp add: encode_def decode_encoded) (simp add: encode_into_eq)

text \<open>A listing with one session, followed by a byte of the next frame.\<close>

definition sample_entry :: session_entry where
  "sample_entry = \<lparr>entry_id = ''0'', entry_name = ''work'', entry_pty_path = ''/dev/pts/4'',
     entry_shell_pid = 48291, entry_created_at = 1700000000, entry_attached = True,
     entry_last_heartbeat = 1700000003\<rparr>"

lemma sample_sendable:
  "sendable (SessionInfo [sample_entry])" "sendable (Env [(''TERM'', ''xterm''), (''LANG'', [])])"
  "sendable (NewSession ''work'')"
  by (auto simp: sample_entry_def entry_ok_def env_ok_def ascii_rust_str text_of_info_def
      line_of_entry_def text_of_env_def MAX_FRAME_SIZE_def show_u32_def show_u64_def show_nat.simps
      strip_cr_def)

theorem decode_encode_roundtrip_witness:
  "decode (snd (encode (SessionInfo [sample_entry]) []) @ [0x05]) =
     (Inr (Some (SessionInfo [sample_entry])), [0x05])"
  using decode_encode_roundtrip [OF sample_sendable(1)] by blast

text \<open>
  C15. The reader is independent of packet boundaries: a stream of sendable frames, cut into
  reads anywhere, is decoded to exactly these frames, in order, with nothing left over.
\<close>

theorem frames_survive_any_chunking:
  "\<forall>f \<in> set fs. sendable f \<Longrightarrow>
   concat chunks = concat (map (\<lambda>f. snd (encode f [])) fs) \<Longrightarrow>
   feed decode [] chunks = (fs, None, [])"
  by (rule codec.feed_encoded) (simp_all add: encode_def)

theorem frames_survive_any_chunking_witness:
  "feed decode [] [[0x05, 0, 0], [0, 0, 0x02, 0, 0, 0, 4, 0, 80], [0, 24]] = ([Ping, Resize 80 24], None, [])"
proof (rule frames_survive_any_chunking)
  show "\<forall>f \<in> set [Ping, Resize 80 24]. sendable f" by simp
  show "concat [[0x05, 0, 0], [0, 0, 0x02, 0, 0, 0, 4, 0, 80], [0, 24]] =
      concat (map (\<lambda>f. snd (encode f [])) [Ping, Resize 80 24])"
    by (simp add: encode_def encode_empty_def u32_to_be_def u16_to_be_def)
qed

text \<open>
  C36. Bounds and types of what \<open>decode\<close> accepts: an accepted frame took a five byte header and at
  most one megabyte of payload off the front of the buffer, and every string in it is valid UTF-8.
\<close>

theorem decode_accepts_within_bounds:
  assumes "decode src = (Inr (Some f), rest)"
  shows "\<exists>header payload. src = header @ payload @ rest \<and> length header = HEADER_LEN \<and>
      length payload \<le> MAX_FRAME_SIZE \<and> (\<forall>s \<in> set (frame_strings f). rust_str s)"
proof -
  from assms obtain t p where p: "src = put_frame [] t p @ rest" "length p \<le> MAX_FRAME_SIZE"
      "decode_payload t p = Inr f"
    by (rule decode_Some)
  then show ?thesis
    by (intro exI [of _ "t # u32_to_be (of_nat (length p))"] exI [of _ p])
      (auto simp: put_frame_def be32.put_length dest: decode_payload_strings)
qed

theorem decode_accepts_within_bounds_witness:
  "\<exists>header payload. ([0x22, 0, 0, 0, 0, 7] :: bytes) = header @ payload @ [7] \<and> length header = HEADER_LEN \<and>
      length payload \<le> MAX_FRAME_SIZE \<and> (\<forall>s \<in> set (frame_strings Ok). rust_str s)"
  by (rule decode_accepts_within_bounds)
    (simp add: decode_def Let_def u32_from_be_def decode_payload_def MAX_FRAME_SIZE_def)

text \<open>
  \<open>decode\<close> loses nothing of the frames whose payload is their content: encoding the decoded
  frame gives back the very bytes that were consumed.
\<close>

theorem encode_decode_canonical:
  "decode src = (Inr (Some f), rest) \<Longrightarrow> canonical f \<Longrightarrow> src = snd (encode f []) @ rest"
  by (simp add: encode_def decode_then_encode)

theorem encode_decode_canonical_witness:
  "[0x03, 0, 0, 0, 4, 0xFF, 0xFF, 0xFF, 0xFE, 9] = snd (encode (Exit (- 2)) []) @ [9]"
  by (rule encode_decode_canonical)
    (simp_all add: decode_def Let_def u32_from_be_def decode_payload_def MAX_FRAME_SIZE_def)

text \<open>
  The encoder has no limit of its own: a \<open>Data\<close> frame above one megabyte (and below the
  32-bit length field's range) is encoded without an error, and the peer's decoder refuses it
  and does not advance.
\<close>

theorem oversized_frame_is_refused_by_peer:
  assumes "MAX_FRAME_SIZE < length d" and "length d < 2 ^ 32"
  shows "fst (encode (Data d) []) = Inr () \<and>
     decode (snd (encode (Data d) []) @ rest) =
       (Inl (too_large (length d)), snd (encode (Data d) []) @ rest)"
  using assms by (simp add: encode_def decode_put_frame_too_large)

theorem oversized_frame_is_refused_by_peer_witness:
  "fst (decode (snd (encode (Data (replicate 1048577 0)) []))) = Inl (too_large 1048577)"
  using oversized_frame_is_refused_by_peer [of "replicate 1048577 0" "[]"]
  by (simp add: MAX_FRAME_SIZE_def)

text \<open>
  Listings and unclean names: entries without a newline and a tab arrive as sent; every entry
  with a tab in its id, name or PTY path is silently dropped by the client's decoder.
\<close>

theorem tabbed_entries_vanish_from_listing:
  assumes "\<forall>e \<in> set es. rust_str (line_of_entry e) \<and> NL \<notin> set (line_of_entry e)"
    and "length (text_of_info es) \<le> MAX_FRAME_SIZE"
  shows "decode (snd (encode (SessionInfo es) []) @ rest) =
     (Inr (Some (SessionInfo (filter untabbed es))), rest)"
proof -
  have "rust_str (text_of_info es)"
    using assms(1) unfolding text_of_info_def by (intro rust_str_join) auto
  then show ?thesis
    using assms(2) info_of_text_filter [OF assms(1)]
    by (simp add: encode_def encode_str_def encode_into_eq decode_put_frame decode_payload_def)
qed

theorem tabbed_entries_vanish_from_listing_witness:
  "decode (snd (encode (SessionInfo [sample_entry\<lparr>entry_name := ''a'' @ [TAB] @ ''b''\<rparr>]) []) @ []) =
     (Inr (Some (SessionInfo [])), [])"
proof -
  let ?e = "sample_entry\<lparr>entry_name := ''a'' @ [TAB] @ ''b''\<rparr>"
  have "rust_str (line_of_entry ?e)" "NL \<notin> set (line_of_entry ?e)"
    "length (text_of_info [?e]) \<le> MAX_FRAME_SIZE" "\<not> untabbed ?e"
    by (simp_all add: sample_entry_def line_of_entry_def text_of_info_def show_u32_def show_u64_def
        ascii_rust_str untabbed_def)
      (simp add: show_nat.simps MAX_FRAME_SIZE_def)
  then show ?thesis
    using tabbed_entries_vanish_from_listing [of "[?e]" "[]"] by simp
qed

end
