(* ===== verification/Unix_Fs.thy ===== *)
theory Unix_Fs
  imports Rust_Text
begin

text \<open>
  The part of \<open>std::path\<close>, \<open>std::fs\<close> and the Unix socket calls that the program uses.  A path is
  its components (the normal form of \<open>Path::components\<close>, which \<open>Path\<close> equality compares; a
  trailing slash, which the text of a path would still show, is not represented).
  The world maps each name to what \<open>lstat\<close> reports there; a symbolic link records whether its
  target exists and whether it leads to a listening socket.  Each call returns an error number
  or the changed world.  Not modelled: two names of one object, and other processes that change
  the world between two calls.
\<close>

section \<open>Paths\<close>

record path =
  absolute :: bool
  comps :: "string list"

definition abs_path :: "string list \<Rightarrow> path" where
  "abs_path cs = \<lparr>absolute = True, comps = cs\<rparr>"

definition rel_path :: "string list \<Rightarrow> path" where
  "rel_path cs = \<lparr>absolute = False, comps = cs\<rparr>"

definition path_parent :: "path \<Rightarrow> path option" where
  "path_parent p = (if comps p = [] then None else Some (p\<lparr>comps := butlast (comps p)\<rparr>))"

definition path_join :: "path \<Rightarrow> string \<Rightarrow> path" where
  "path_join p name = p\<lparr>comps := comps p @ [name]\<rparr>"

definition with_file_name :: "path \<Rightarrow> string \<Rightarrow> path" where
  "with_file_name p name =
     (if comps p = [] \<or> last (comps p) = ''..'' then p\<lparr>comps := comps p @ [name]\<rparr>
      else p\<lparr>comps := butlast (comps p) @ [name]\<rparr>)"

definition path_of_string :: "string \<Rightarrow> path" where
  "path_of_string s =
     (let parts = split_char CHR ''/'' s; isabs = (s \<noteq> [] \<and> hd s = CHR ''/'')
      in \<lparr>absolute = isabs,
          comps = (if \<not> isabs \<and> hd parts = ''.'' then [''.''] else [])
            @ filter (\<lambda>c. c \<noteq> [] \<and> c \<noteq> ''.'') parts\<rparr>)"

definition display_path :: "path \<Rightarrow> string" where
  "display_path p = (if absolute p then ''/'' else []) @ join_str ''/'' (comps p)"

lemma path_parent_join [simp]: "path_parent (path_join p name) = Some p"
  by (simp add: path_parent_def path_join_def)

lemma path_parent_shorter: "path_parent p = Some q \<Longrightarrow> length (comps q) < length (comps p)"
  by (auto simp: path_parent_def split: if_splits)

lemma path_parent_not_self: "path_parent p = Some q \<Longrightarrow> q \<noteq> p"
  by (auto dest: path_parent_shorter)

section \<open>The file system\<close>

type_synonym mode = "32 word"

datatype node =
    Dir nat mode       \<comment> \<open>owner and permission bits\<close>
  | RegFile nat mode
  | Sock nat mode bool \<comment> \<open>owner, permission bits, and whether a process listens on it\<close>
  | Link nat bool bool \<comment> \<open>owner, target exists, target is a listening socket\<close>

record world =
  nodes :: "path \<Rightarrow> node option"
  uid :: nat
  umask :: mode
  may_create :: "path \<Rightarrow> bool"
  xdg_runtime_dir :: "string option"

fun node_uid :: "node \<Rightarrow> nat" where
  "node_uid (Dir u m) = u"
| "node_uid (RegFile u m) = u"
| "node_uid (Sock u m l) = u"
| "node_uid (Link u e l) = u"

fun is_dir :: "node \<Rightarrow> bool" where
  "is_dir (Dir u m) = True"
| "is_dir _ = False"

fun is_symlink :: "node \<Rightarrow> bool" where
  "is_symlink (Link u e l) = True"
| "is_symlink _ = False"

definition ENOENT :: nat where [simp]: "ENOENT = 2"
definition EPERM :: nat where [simp]: "EPERM = 1"
definition EEXIST :: nat where [simp]: "EEXIST = 17"
definition EISDIR :: nat where [simp]: "EISDIR = 21"
definition ECONNREFUSED :: nat where [simp]: "ECONNREFUSED = 111"

text \<open>\<open>Path::exists\<close> follows a link; \<open>symlink_metadata\<close> does not.\<close>

definition path_exists :: "world \<Rightarrow> path \<Rightarrow> bool" where
  "path_exists w p =
     (case nodes w p of None \<Rightarrow> False | Some (Link u e l) \<Rightarrow> e | Some _ \<Rightarrow> True)"

definition symlink_metadata :: "world \<Rightarrow> path \<Rightarrow> io_error + node" where
  "symlink_metadata w p = (case nodes w p of None \<Rightarrow> Inl (OsError ENOENT) | Some n \<Rightarrow> Inr n)"

text \<open>A new name needs an existing parent and the permission to create there.\<close>

definition parent_ready :: "world \<Rightarrow> path \<Rightarrow> io_error option" where
  "parent_ready w p =
     (case path_parent p of
        None \<Rightarrow> Some (OsError ENOENT)
      | Some q \<Rightarrow> if \<not> path_exists w q then Some (OsError ENOENT)
                 else if \<not> may_create w p then Some (OsError EACCES) else None)"

definition create_dir :: "world \<Rightarrow> path \<Rightarrow> io_error + world" where
  "create_dir w p =
     (if nodes w p \<noteq> None then Inl (OsError EEXIST)
      else (case parent_ready w p of
              Some e \<Rightarrow> Inl e
            | None \<Rightarrow> Inr (w\<lparr>nodes := (nodes w)(p \<mapsto> Dir (uid w) (and 511 (not (umask w))))\<rparr>)))"

text \<open>\<open>set_permissions\<close> is for the owner; on a link it changes the target, which is not a name here.\<close>

definition set_permissions :: "world \<Rightarrow> path \<Rightarrow> mode \<Rightarrow> io_error + world" where
  "set_permissions w p m =
     (case nodes w p of
        None \<Rightarrow> Inl (OsError ENOENT)
      | Some n \<Rightarrow>
          if node_uid n \<noteq> uid w then Inl (OsError EPERM)
          else Inr (w\<lparr>nodes := (nodes w)(p \<mapsto>
            (case n of Dir u _ \<Rightarrow> Dir u m | RegFile u _ \<Rightarrow> RegFile u m
             | Sock u _ l \<Rightarrow> Sock u m l | Link u e l \<Rightarrow> Link u e l))\<rparr>))"

definition remove_file :: "world \<Rightarrow> path \<Rightarrow> io_error + world" where
  "remove_file w p =
     (case nodes w p of
        None \<Rightarrow> Inl (OsError ENOENT)
      | Some n \<Rightarrow>
          if is_dir n then Inl (OsError EISDIR)
          else if \<not> may_create w p then Inl (OsError EACCES)
          else Inr (w\<lparr>nodes := (nodes w)(p := None)\<rparr>))"

text \<open>\<open>std::fs::write\<close>: create or truncate (the content is not kept).\<close>

definition write_file :: "world \<Rightarrow> path \<Rightarrow> io_error + world" where
  "write_file w p =
     (case nodes w p of
        None \<Rightarrow>
          (case parent_ready w p of
             Some e \<Rightarrow> Inl e
           | None \<Rightarrow> Inr (w\<lparr>nodes := (nodes w)(p \<mapsto> RegFile (uid w) (and 438 (not (umask w))))\<rparr>))
      | Some (Dir u m) \<Rightarrow> Inl (OsError EISDIR)
      | Some n \<Rightarrow> if node_uid n = uid w then Inr w else Inl (OsError EACCES))"

section \<open>Unix sockets\<close>

text \<open>
  \<open>UnixListener::bind\<close> creates the socket file and fails with \<open>EADDRINUSE\<close> on any existing name;
  \<open>UnixStream::connect\<close> succeeds where a process listens.
\<close>

definition bind_socket :: "world \<Rightarrow> path \<Rightarrow> io_error + world" where
  "bind_socket w p =
     (if nodes w p \<noteq> None then Inl (OsError EADDRINUSE)
      else (case parent_ready w p of
              Some e \<Rightarrow> Inl e
            | None \<Rightarrow> Inr (w\<lparr>nodes := (nodes w)(p \<mapsto> Sock (uid w) (and 511 (not (umask w))) True)\<rparr>)))"

definition connect_socket :: "world \<Rightarrow> path \<Rightarrow> io_error option" where
  "connect_socket w p =
     (case nodes w p of
        None \<Rightarrow> Some (OsError ENOENT)
      | Some (Sock u m l) \<Rightarrow> if l then None else Some (OsError ECONNREFUSED)
      | Some (Link u e l) \<Rightarrow> if l then None else Some (OsError ECONNREFUSED)
      | Some _ \<Rightarrow> Some (OsError ECONNREFUSED))"

section \<open>Laws\<close>

text \<open>Every call changes at most the name it is given and nothing else of the world.\<close>

definition only_changes :: "path set \<Rightarrow> world \<Rightarrow> world \<Rightarrow> bool" where
  "only_changes ps w w' \<longleftrightarrow>
     w' = w\<lparr>nodes := nodes w'\<rparr> \<and> (\<forall>q. q \<notin> ps \<longrightarrow> nodes w' q = nodes w q)"

lemma only_changes_refl [simp]: "only_changes ps w w"
  by (simp add: only_changes_def)

lemma only_changes_trans:
  assumes "only_changes ps w w'" and "only_changes qs w' w''"
  shows "only_changes (ps \<union> qs) w w''"
proof -
  have "w'' = w\<lparr>nodes := nodes w''\<rparr>"
    using assms by (metis only_changes_def world.update_convs(1) world.surjective world.select_convs(1))
  with assms show ?thesis by (simp add: only_changes_def)
qed

lemma only_changes_mono: "only_changes ps w w' \<Longrightarrow> ps \<subseteq> qs \<Longrightarrow> only_changes qs w w'"
  by (auto simp: only_changes_def)

lemma only_changes_fields:
  "only_changes ps w w' \<Longrightarrow> uid w' = uid w \<and> umask w' = umask w \<and> may_create w' = may_create w
     \<and> xdg_runtime_dir w' = xdg_runtime_dir w"
  unfolding only_changes_def by (metis world.select_convs(2-5) world.surjective world.update_convs(1))

text \<open>The laws a caller of one of these calls relies on: an error leaves no trace.\<close>

locale fs_call =
  fixes call :: "world \<Rightarrow> path \<Rightarrow> io_error + world"
  assumes call_frame: "call w p = Inr w' \<Longrightarrow> only_changes {p} w w'"
begin

lemma call_other: "call w p = Inr w' \<Longrightarrow> q \<noteq> p \<Longrightarrow> nodes w' q = nodes w q"
  using call_frame [of w p w'] by (simp add: only_changes_def)

lemma call_uid: "call w p = Inr w' \<Longrightarrow> uid w' = uid w"
  using call_frame [of w p w'] only_changes_fields by blast

end

interpretation create_dir_call: fs_call create_dir
  by unfold_locales
    (auto simp: create_dir_def only_changes_def split: if_splits option.splits)

interpretation remove_file_call: fs_call remove_file
  by unfold_locales
    (auto simp: remove_file_def only_changes_def split: if_splits option.splits)

interpretation bind_socket_call: fs_call bind_socket
  by unfold_locales
    (auto simp: bind_socket_def only_changes_def split: if_splits option.splits)

interpretation write_file_call: fs_call write_file
  by unfold_locales
    (auto simp: write_file_def only_changes_def split: if_splits option.splits node.splits)

interpretation set_permissions_call: fs_call "\<lambda>w p. set_permissions w p m" for m
  by unfold_locales
    (auto simp: set_permissions_def only_changes_def split: if_splits option.splits)

end
