(* ===== verification/Security.thy ===== *)
theory Security
  imports Unix_Fs
begin

text \<open>
  \<open>src/security.rs\<close>: creating the socket directory, binding the control socket, checking the
  peer's user id, duplicating descriptors and clamping window sizes.  A function that changes
  the file system returns its result together with the world it leaves behind, so what an error
  path has already created stays visible.
\<close>

section \<open>Window sizes, peers, descriptors\<close>

definition MAX_WINSIZE :: u16 where "MAX_WINSIZE = 10000"

text \<open>\<open>Ord::clamp\<close>.\<close>

definition clamp_u16 :: "u16 \<Rightarrow> u16 \<Rightarrow> u16 \<Rightarrow> u16" where
  "clamp_u16 x lo hi = (if x < lo then lo else if x > hi then hi else x)"

definition clamp_winsize :: "u16 \<Rightarrow> u16 \<Rightarrow> u16 \<times> u16" where
  "clamp_winsize cols rows = (clamp_u16 cols 1 MAX_WINSIZE, clamp_u16 rows 1 MAX_WINSIZE)"

text \<open>\<open>cred\<close> is the result of \<open>stream.peer_cred()\<close>, \<open>my_uid\<close> that of \<open>getuid()\<close>.\<close>

definition verify_peer_uid :: "io_error + nat \<Rightarrow> nat \<Rightarrow> io_error + unit" where
  "verify_peer_uid cred my_uid =
     try_then cred (\<lambda>u.
       if u \<noteq> my_uid
       then Inl (IoError PermissionDenied (''rejecting connection from uid '' @ show_nat u
              @ '' (expected '' @ show_nat my_uid @ '')''))
       else Inr ())"

text \<open>\<open>new_fd\<close> is what \<open>dup(2)\<close> returned, \<open>errno\<close> the error number it set.\<close>

definition checked_dup :: "int \<Rightarrow> nat \<Rightarrow> io_error + int" where
  "checked_dup new_fd errno = (if new_fd = -1 then Inl (OsError errno) else Inr new_fd)"

section \<open>The socket directory\<close>

definition is_trusted_root :: "world \<Rightarrow> path \<Rightarrow> bool" where
  "is_trusted_root w p \<longleftrightarrow>
     p \<in> {abs_path [], abs_path [''tmp''], abs_path [''run'']}
     \<or> (case xdg_runtime_dir w of None \<Rightarrow> False | Some xdg \<Rightarrow> p = path_of_string xdg)"

definition validate_dir :: "world \<Rightarrow> path \<Rightarrow> io_error + unit" where
  "validate_dir w p =
     try_then (symlink_metadata w p) (\<lambda>meta.
       if is_symlink meta
       then Inl (IoError InvalidInput (''refusing to use symlink at '' @ display_path p))
       else if \<not> is_dir meta
       then Inl (IoError InvalidInput (display_path p @ '' is not a directory''))
       else if node_uid meta \<noteq> uid w
       then Inl (IoError PermissionDenied (display_path p @ '' is owned by uid ''
              @ show_nat (node_uid meta) @ '', expected uid '' @ show_nat (uid w)
              @ ''; set $XDG_RUNTIME_DIR or use --ctl-socket''))
       else Inr ())"

definition mode_0700 :: mode where [simp]: "mode_0700 = 448"
definition mode_0600 :: mode where [simp]: "mode_0600 = 384"

function secure_create_dir_all :: "world \<Rightarrow> path \<Rightarrow> (io_error + unit) \<times> world" where
  "secure_create_dir_all w p =
     (if path_exists w p then
        (if is_trusted_root w p then (Inr (), w) else (validate_dir w p, w))
      else
        (case (case path_parent p of
                 None \<Rightarrow> (Inr (), w)
               | Some parent \<Rightarrow> secure_create_dir_all w parent) of
           (Inl e, w1) \<Rightarrow> (Inl e, w1)
         | (Inr _, w1) \<Rightarrow>
             (case create_dir w1 p of
                Inl e \<Rightarrow> (Inl e, w1)
              | Inr w2 \<Rightarrow>
                  (case set_permissions w2 p mode_0700 of
                     Inl e \<Rightarrow> (Inl e, w2)
                   | Inr w3 \<Rightarrow> (Inr (), w3)))))"
  by pat_completeness auto
termination
  by (relation "measure (\<lambda>(w, p). length (comps p))") (auto dest: path_parent_shorter)

declare secure_create_dir_all.simps [simp del]

section \<open>The control socket\<close>

definition set_socket_permissions :: "world \<Rightarrow> path \<Rightarrow> io_error + world" where
  "set_socket_permissions w p = set_permissions w p mode_0600"

text \<open>Bind, then restrict the permissions: the two calls that end both successful branches.\<close>

definition bind_and_restrict :: "world \<Rightarrow> path \<Rightarrow> io_error + world \<Rightarrow> (io_error + unit) \<times> world" where
  "bind_and_restrict w p bound =
     (case bound of
        Inl e \<Rightarrow> (Inl e, w)
      | Inr w1 \<Rightarrow>
          (case set_socket_permissions w1 p of
             Inl e \<Rightarrow> (Inl e, w1)
           | Inr w2 \<Rightarrow> (Inr (), w2)))"

definition bind_unix_listener :: "world \<Rightarrow> path \<Rightarrow> (io_error + unit) \<times> world" where
  "bind_unix_listener w p =
     (case bind_socket w p of
        Inr w1 \<Rightarrow> bind_and_restrict w p (Inr w1)
      | Inl e \<Rightarrow>
          if error_kind e = AddrInUse then
            (case connect_socket w p of
               None \<Rightarrow>
                 (Inl (IoError AddrInUse (display_path p @ '' is already in use by a running process'')), w)
             | Some _ \<Rightarrow>
                 (case remove_file w p of
                    Inl e' \<Rightarrow> (Inl e', w)
                  | Inr w1 \<Rightarrow> bind_and_restrict w1 p (bind_socket w1 p)))
          else (Inl e, w))"

section \<open>Lemmas\<close>

lemma validate_dir_Inr:
  "validate_dir w p = Inr () \<longleftrightarrow> (\<exists>m. nodes w p = Some (Dir (uid w) m))"
  by (auto simp: validate_dir_def symlink_metadata_def split: option.splits if_splits
      elim!: is_dir.elims)

lemma create_dir_Inr:
  assumes "create_dir w p = Inr w'"
  shows "nodes w p = None" "w' = w\<lparr>nodes := (nodes w)(p \<mapsto> Dir (uid w) (and 511 (not (umask w))))\<rparr>"
  using assms by (auto simp: create_dir_def split: if_splits option.splits)

lemma make_dir_0700:
  assumes "create_dir w p = Inr w2"
  shows "set_permissions w2 p mode_0700 = Inr (w\<lparr>nodes := (nodes w)(p \<mapsto> Dir (uid w) mode_0700)\<rparr>)"
  using create_dir_Inr [OF assms] by (simp add: set_permissions_def)

text \<open>
  The recursion, with the two calls on a fresh directory in one step: the error of \<open>chmod\<close>
  cannot happen on a directory just made.
\<close>

lemma secure_create_step:
  "\<not> path_exists w p \<Longrightarrow>
   secure_create_dir_all w p =
     (case (case path_parent p of None \<Rightarrow> (Inr (), w) | Some q \<Rightarrow> secure_create_dir_all w q) of
        (Inl e, w1) \<Rightarrow> (Inl e, w1)
      | (Inr _, w1) \<Rightarrow>
          (case create_dir w1 p of
             Inl e \<Rightarrow> (Inl e, w1)
           | Inr w2 \<Rightarrow> (Inr (), w1\<lparr>nodes := (nodes w1)(p \<mapsto> Dir (uid w1) mode_0700)\<rparr>)))"
  by (subst secure_create_dir_all.simps)
    (auto split: prod.splits sum.splits option.splits dest: make_dir_0700)

lemma secure_create_existing:
  "path_exists w p \<Longrightarrow> secure_create_dir_all w p =
     ((if is_trusted_root w p then Inr () else validate_dir w p), w)"
  by (simp add: secure_create_dir_all.simps)

text \<open>\<open>ancestor q p\<close>: \<open>q\<close> is \<open>p\<close> or a directory above it.\<close>

definition ancestor :: "path \<Rightarrow> path \<Rightarrow> bool" where
  "ancestor q p \<longleftrightarrow> absolute q = absolute p \<and> (\<exists>cs. comps p = comps q @ cs)"

lemma ancestor_refl [simp]: "ancestor p p"
  by (simp add: ancestor_def)

lemma ancestor_parent:
  assumes "path_parent p = Some q" and "ancestor a q"
  shows "ancestor a p"
proof -
  have "comps p = comps q @ [last (comps p)]" "absolute q = absolute p"
    using assms(1) by (auto simp: path_parent_def split: if_splits)
  with assms(2) show ?thesis by (auto simp: ancestor_def)
qed

definition fresh_dirs_only :: "path \<Rightarrow> world \<Rightarrow> world \<Rightarrow> bool" where
  "fresh_dirs_only p w w' \<longleftrightarrow>
     w' = w\<lparr>nodes := nodes w'\<rparr> \<and>
     (\<forall>q. nodes w' q \<noteq> nodes w q \<longrightarrow>
        ancestor q p \<and> nodes w q = None \<and> nodes w' q = Some (Dir (uid w) mode_0700))"

lemma fresh_dirs_only_refl [simp]: "fresh_dirs_only p w w"
  by (simp add: fresh_dirs_only_def)

lemma fresh_dirs_only_parent:
  "fresh_dirs_only q w w' \<Longrightarrow> path_parent p = Some q \<Longrightarrow> fresh_dirs_only p w w'"
  by (auto simp: fresh_dirs_only_def intro: ancestor_parent)

lemma fresh_dirs_only_uid: "fresh_dirs_only p w w' \<Longrightarrow> uid w' = uid w"
  unfolding fresh_dirs_only_def by (metis world.select_convs(2) world.surjective world.update_convs(1))

lemma fresh_dirs_only_add:
  assumes "fresh_dirs_only p w w1" and "nodes w1 p = None"
  shows "fresh_dirs_only p w (w1\<lparr>nodes := (nodes w1)(p \<mapsto> Dir (uid w1) mode_0700)\<rparr>)"
proof -
  have "w1 = w\<lparr>nodes := nodes w1\<rparr>" using assms(1) by (simp add: fresh_dirs_only_def)
  then have w: "w1\<lparr>nodes := n\<rparr> = w\<lparr>nodes := n\<rparr>" for n by (metis world.surjective world.update_convs(1))
  have "nodes w p = None" using assms unfolding fresh_dirs_only_def by metis
  then show ?thesis
    using assms fresh_dirs_only_uid [OF assms(1)] unfolding w
    by (auto simp: fresh_dirs_only_def)
qed

lemma secure_create_frame: "fresh_dirs_only p w (snd (secure_create_dir_all w p))"
proof (induction w p rule: secure_create_dir_all.induct)
  case (1 w p)
  show ?case
  proof (cases "path_exists w p")
    case True
    then show ?thesis by (simp add: secure_create_existing)
  next
    case False
    define pr where "pr = (case path_parent p of None \<Rightarrow> (Inr (), w) | Some q \<Rightarrow> secure_create_dir_all w q)"
    have f: "fresh_dirs_only p w (snd pr)"
      using "1.IH" False fresh_dirs_only_parent by (auto simp: pr_def split: option.splits)
    show ?thesis
      using f fresh_dirs_only_add [OF f] create_dir_Inr(1) [of "snd pr" p]
      unfolding secure_create_step [OF False] pr_def [symmetric]
      by (auto split: prod.splits sum.splits)
  qed
qed

lemma secure_create_result:
  assumes "fst (secure_create_dir_all w p) = Inr ()"
  shows "if path_exists w p \<and> is_trusted_root w p then snd (secure_create_dir_all w p) = w
     else \<exists>m. nodes (snd (secure_create_dir_all w p)) p = Some (Dir (uid w) m)
        \<and> (\<not> path_exists w p \<longrightarrow> m = mode_0700)"
proof (cases "path_exists w p")
  case True
  with assms show ?thesis
    by (auto simp: secure_create_existing validate_dir_Inr split: if_splits)
next
  case False
  have "uid (snd (secure_create_dir_all w p)) = uid w"
    using fresh_dirs_only_uid [OF secure_create_frame] by blast
  with False assms show ?thesis
    unfolding secure_create_step [OF False]
    by (auto split: prod.splits sum.splits option.splits)
qed

lemma set_socket_permissions_fresh:
  assumes "bind_socket w p = Inr w1"
  shows "set_socket_permissions w1 p = Inr (w\<lparr>nodes := (nodes w)(p \<mapsto> Sock (uid w) mode_0600 True)\<rparr>)"
  using assms
  by (auto simp: bind_socket_def set_socket_permissions_def set_permissions_def
      split: if_splits option.splits)

lemma bind_and_restrict_eq:
  "bind_and_restrict w p (bind_socket w p) =
     (case bind_socket w p of
        Inl e \<Rightarrow> (Inl e, w)
      | Inr w1 \<Rightarrow> (Inr (), w\<lparr>nodes := (nodes w)(p \<mapsto> Sock (uid w) mode_0600 True)\<rparr>))"
  by (auto simp: bind_and_restrict_def set_socket_permissions_fresh split: sum.splits)

lemma parent_ready_kind: "parent_ready w p = Some e \<Longrightarrow> error_kind e \<noteq> AddrInUse"
  by (auto simp: parent_ready_def split: option.splits if_splits)

lemma bind_unix_listener_free:
  "nodes w p = None \<Longrightarrow> bind_unix_listener w p =
     (case parent_ready w p of
        Some e \<Rightarrow> (Inl e, w)
      | None \<Rightarrow> (Inr (), w\<lparr>nodes := (nodes w)(p \<mapsto> Sock (uid w) mode_0600 True)\<rparr>))"
  using bind_and_restrict_eq [of w p]
  by (auto simp: bind_unix_listener_def bind_socket_def dest: parent_ready_kind split: option.splits if_splits)

lemma bind_unix_listener_taken:
  "nodes w p = Some n \<Longrightarrow> bind_unix_listener w p =
     (if connect_socket w p = None
      then (Inl (IoError AddrInUse (display_path p @ '' is already in use by a running process'')), w)
      else if is_dir n then (Inl (OsError EISDIR), w)
      else if \<not> may_create w p then (Inl (OsError EACCES), w)
      else bind_unix_listener (w\<lparr>nodes := (nodes w)(p := None)\<rparr>) p)"
  using bind_and_restrict_eq [of "w\<lparr>nodes := (nodes w)(p := None)\<rparr>" p]
  by (auto simp: bind_unix_listener_def bind_socket_def [of w] remove_file_def bind_unix_listener_free
      bind_socket_def dest: parent_ready_kind split: option.splits if_splits sum.splits)

lemma bind_unix_listener_spec:
  "only_changes {p} w (snd (bind_unix_listener w p))"
  "fst (bind_unix_listener w p) = Inr () \<Longrightarrow>
     nodes (snd (bind_unix_listener w p)) p = Some (Sock (uid w) mode_0600 True)"
  "connect_socket w p = None \<Longrightarrow>
     bind_unix_listener w p =
       (Inl (IoError AddrInUse (display_path p @ '' is already in use by a running process'')), w)"
proof -
  have free: "only_changes {p} v (snd (bind_unix_listener v p)) \<and>
      (fst (bind_unix_listener v p) = Inr () \<longrightarrow>
        nodes (snd (bind_unix_listener v p)) p = Some (Sock (uid v) mode_0600 True))"
    if "nodes v p = None" for v
    using that by (auto simp: bind_unix_listener_free only_changes_def split: option.splits)
  have taken: "only_changes {p} w (w\<lparr>nodes := (nodes w)(p := None)\<rparr>)"
    by (simp add: only_changes_def)
  show "only_changes {p} w (snd (bind_unix_listener w p))"
    using free [of w] free [of "w\<lparr>nodes := (nodes w)(p := None)\<rparr>"]
      only_changes_trans [OF taken, of "{p}"]
    by (cases "nodes w p") (auto simp: bind_unix_listener_taken)
  show "fst (bind_unix_listener w p) = Inr () \<Longrightarrow>
     nodes (snd (bind_unix_listener w p)) p = Some (Sock (uid w) mode_0600 True)"
    using free [of w] free [of "w\<lparr>nodes := (nodes w)(p := None)\<rparr>"]
    by (cases "nodes w p") (auto simp: bind_unix_listener_taken split: if_splits)
  show "connect_socket w p = None \<Longrightarrow> bind_unix_listener w p =
       (Inl (IoError AddrInUse (display_path p @ '' is already in use by a running process'')), w)"
    by (cases "nodes w p") (simp_all add: bind_unix_listener_taken, simp add: connect_socket_def)
qed

lemma verify_peer_uid_Inr: "verify_peer_uid cred my_uid = Inr () \<longleftrightarrow> cred = Inr my_uid"
  by (cases cred) (auto simp: verify_peer_uid_def)

lemma clamp_winsize_bounds:
  "clamp_winsize cols rows = (c, r) \<Longrightarrow> 1 \<le> c \<and> c \<le> MAX_WINSIZE \<and> 1 \<le> r \<and> r \<le> MAX_WINSIZE"
  by (auto simp: clamp_winsize_def clamp_u16_def MAX_WINSIZE_def word_le_nat_alt word_less_nat_alt
      split: if_splits)

section \<open>Properties\<close>

text \<open>A host with a sticky \<open>/tmp\<close> and a private directory of the user under another user's home.\<close>

definition sample_world :: world where
  "sample_world = \<lparr>nodes = [abs_path [] \<mapsto> Dir 0 493, abs_path [''tmp''] \<mapsto> Dir 0 1023,
      abs_path [''srv''] \<mapsto> Dir 666 511, abs_path [''srv'', ''me''] \<mapsto> Dir 1000 511,
      abs_path [''tmp'', ''notes''] \<mapsto> RegFile 1000 420],
     uid = 1000, umask = 63, may_create = (\<lambda>p. True), xdg_runtime_dir = None\<rparr>"

lemmas sample_world_simps = sample_world_def abs_path_def rel_path_def path_exists_def
  path_parent_def parent_ready_def is_trusted_root_def

text \<open>
  C31. \<open>secure_create_dir_all\<close> creates nothing but private directories and never accepts another
  one: whatever the outcome, each name it changed is the path or a directory above it, did not
  exist before and is now a directory of this user with mode 0700; and where it succeeds on a
  path that is not an existing trusted root, the path is a real directory (no link) of this user,
  with mode 0700 if it was created.
\<close>

theorem secure_create_dir_all_spec:
  "(\<forall>q. nodes (snd (secure_create_dir_all w p)) q \<noteq> nodes w q \<longrightarrow>
      ancestor q p \<and> nodes w q = None \<and>
      nodes (snd (secure_create_dir_all w p)) q = Some (Dir (uid w) mode_0700)) \<and>
   (fst (secure_create_dir_all w p) = Inr () \<and> \<not> (path_exists w p \<and> is_trusted_root w p) \<longrightarrow>
      (\<exists>m. nodes (snd (secure_create_dir_all w p)) p = Some (Dir (uid w) m) \<and>
        (\<not> path_exists w p \<longrightarrow> m = mode_0700)))"
  using secure_create_frame [of p w] secure_create_result [of w p]
  by (auto simp: fresh_dirs_only_def split: if_splits)

theorem secure_create_dir_all_spec_witness:
  "nodes (snd (secure_create_dir_all sample_world (abs_path [''tmp'', ''gritty-1000''])))
     (abs_path [''tmp'', ''gritty-1000'']) = Some (Dir 1000 448)"
proof -
  let ?p = "abs_path [''tmp'', ''gritty-1000'']"
  have n: "\<not> path_exists sample_world ?p" by (simp add: sample_world_simps)
  have q: "path_parent ?p = Some (abs_path [''tmp''])" by (simp add: sample_world_simps)
  have t: "secure_create_dir_all sample_world (abs_path [''tmp'']) = (Inr (), sample_world)"
    by (subst secure_create_existing) (simp_all add: sample_world_simps)
  have "fst (secure_create_dir_all sample_world ?p) = Inr ()"
    unfolding secure_create_step [OF n] q option.case t
    by (simp add: create_dir_def sample_world_simps)
  with n secure_create_dir_all_spec [of sample_world ?p] show ?thesis
    by (simp add: sample_world_def)
qed



text \<open>
  The stale-socket path does not look at what it removes: a regular file at the socket's path
  (in a directory where the user may write) is deleted and replaced by the socket.
\<close>

theorem bind_unix_listener_deletes_regular_file:
  assumes "nodes w p = Some (RegFile u m)" and "may_create w p"
    and "path_parent p = Some q" and "path_exists w q"
  shows "bind_unix_listener w p =
     (Inr (), w\<lparr>nodes := (nodes w)(p \<mapsto> Sock (uid w) mode_0600 True)\<rparr>)"
proof -
  let ?w = "w\<lparr>nodes := (nodes w)(p := None)\<rparr>"
  have "path_exists ?w q" using assms(3,4) path_parent_not_self by (simp add: path_exists_def)
  with assms(2,3) have "parent_ready ?w p = None" by (simp add: parent_ready_def)
  with assms(1,2) show ?thesis
    by (simp add: bind_unix_listener_taken bind_unix_listener_free connect_socket_def)
qed

theorem bind_unix_listener_deletes_regular_file_witness:
  "nodes (snd (bind_unix_listener sample_world (abs_path [''tmp'', ''notes''])))
     (abs_path [''tmp'', ''notes'']) = Some (Sock 1000 384 True)"
  by (subst bind_unix_listener_deletes_regular_file [of _ _ 1000 420 "abs_path [''tmp'']"])
    (simp_all add: sample_world_simps)

text \<open>
  Only the last directory is validated: an existing directory of this user is accepted
  whoever owns the directories above it.
\<close>

theorem ancestors_are_not_validated:
  assumes "nodes w p = Some (Dir (uid w) m)"
  shows "secure_create_dir_all w p = (Inr (), w)"
  using assms validate_dir_Inr [of w p]
  by (subst secure_create_existing) (auto simp: path_exists_def)

theorem ancestors_are_not_validated_witness:
  "secure_create_dir_all sample_world (abs_path [''srv'', ''me'']) = (Inr (), sample_world) \<and>
   nodes sample_world (abs_path [''srv'']) = Some (Dir 666 511) \<and>
   \<not> is_trusted_root sample_world (abs_path [''srv''])"
  using ancestors_are_not_validated [of sample_world "abs_path [''srv'', ''me'']" 511]
  by (simp add: sample_world_simps)

text \<open>
  Window sizes given to the terminal are between 1 and 10000 in both directions, and sizes
  already in that range are not changed.
\<close>

theorem clamp_winsize_sane:
  "(case clamp_winsize cols rows of (c, r) \<Rightarrow>
      1 \<le> c \<and> c \<le> 10000 \<and> 1 \<le> r \<and> r \<le> 10000) \<and>
   (1 \<le> cols \<and> cols \<le> 10000 \<and> 1 \<le> rows \<and> rows \<le> 10000 \<longrightarrow>
      clamp_winsize cols rows = (cols, rows))"
  using clamp_winsize_bounds [of cols rows]
  by (auto simp: MAX_WINSIZE_def) (auto simp: clamp_winsize_def clamp_u16_def MAX_WINSIZE_def)

theorem clamp_winsize_sane_witness: "clamp_winsize 80 24 = (80, 24)"
  using clamp_winsize_sane [of 80 24] by simp

end
