(* ===== verification/Server.thy ===== *)
theory Server
  imports Protocol Security
begin

text \<open>
  \<open>src/server.rs\<close>: the session task.  \<open>run\<close> allocates a PTY, waits for the first client, reads an
  optional \<open>Env\<close> frame, spawns the shell, and then relays between the PTY and one client at a
  time; the shell outlives its clients.  The task is a state machine: a state \<open>session\<close>, one
  event per branch of a \<open>select!\<close> (and per action of the daemon on the task), and the list of
  effects in the order the code causes them.  What the system calls of a step return is the
  argument \<open>sys\<close> of the step.
\<close>

section \<open>Data\<close>

text \<open>A connection (\<open>Framed<UnixStream, FrameCodec>\<close>) is known by a number.\<close>

type_synonym conn = nat

record session_metadata =
  pty_path :: string
  shell_pid :: u32
  created_at :: u64
  attached :: bool
  last_heartbeat :: u64

datatype signal = SIGHUP | SIGWINCH

record shell_command =
  program :: string
  args :: "string list"
  current_dir :: "string option"
  env_vars :: "(string \<times> string) list"

datatype effect =
    SendFrame conn frame         \<comment> \<open>\<open>framed.send(frame)\<close>, whether or not it succeeds\<close>
  | Close conn                   \<comment> \<open>the connection is dropped\<close>
  | PtyWrite bytes               \<comment> \<open>bytes the PTY accepted\<close>
  | SetWinsize u16 u16           \<comment> \<open>\<open>TIOCSWINSZ\<close>: columns and rows\<close>
  | SignalGroup int signal       \<comment> \<open>\<open>killpg\<close>\<close>
  | SpawnShell shell_command

text \<open>The results of the system calls a step makes.\<close>

record syscalls =
  sys_writable :: "io_error option"     \<comment> \<open>\<open>async_master.writable().await\<close>\<close>
  sys_write :: "io_error + nat"         \<comment> \<open>\<open>write\<close> to the PTY\<close>
  sys_send :: "io_error option"         \<comment> \<open>\<open>framed.send\<close>\<close>
  sys_foreground :: "int option"        \<comment> \<open>\<open>tcgetpgrp\<close>\<close>
  sys_now :: u64                        \<comment> \<open>seconds since the epoch\<close>
  sys_spawn :: "io_error + u32"         \<comment> \<open>\<open>spawn\<close>: the child's pid\<close>
  sys_try_wait :: "i32 option option"   \<comment> \<open>\<open>try_wait\<close>: exited, with or without a code\<close>
  sys_shell :: "string option"          \<comment> \<open>\<open>$SHELL\<close>\<close>
  sys_home :: "string option"           \<comment> \<open>\<open>$HOME\<close>\<close>

datatype phase =
    AwaitFirst                       \<comment> \<open>\<open>client_rx.recv()\<close> before the shell exists\<close>
  | ReadEnv conn                     \<comment> \<open>the 100 ms wait for an \<open>Env\<close> frame\<close>
  | Relay conn                       \<comment> \<open>the inner loop\<close>
  | AwaitClient conn                 \<comment> \<open>the outer loop; the old \<open>framed\<close> is still held\<close>
  | Returned "io_error + unit"
  | Aborted

record session =
  phase :: phase
  client_rx :: "conn list"           \<comment> \<open>handed over, not yet received\<close>
  senders_gone :: bool
  metadata_slot :: "session_metadata option"
  pgid :: "int option"               \<comment> \<open>\<open>ManagedChild\<close>\<close>
  tty_name :: string
  finished :: bool                   \<comment> \<open>\<open>JoinHandle::is_finished\<close>\<close>
  effects :: "effect list"

datatype event =
    ClientRecv                               \<comment> \<open>\<open>client_rx.recv()\<close> is ready\<close>
  | EnvWait "(io_error + frame) option option" \<comment> \<open>the timed \<open>framed.next()\<close>; \<open>None\<close>: timed out\<close>
  | SocketFrame "(io_error + frame) option"  \<comment> \<open>\<open>framed.next()\<close>\<close>
  | PtyReadable "io_error option" "io_error + bytes"
  | ChildExit "io_error + i32 option"        \<comment> \<open>\<open>child.wait()\<close>\<close>
  | Handoff conn                             \<comment> \<open>the daemon sends a connection\<close>
  | DropSenders
  | AbortTask                                \<comment> \<open>\<open>handle.abort()\<close>\<close>
  | JoinReady                                \<comment> \<open>the runtime marks the task finished\<close>

section \<open>Allocating the PTY\<close>

record pty_calls =
  call_openpty :: "io_error + int \<times> int"
  call_ttyname :: "string option"
  call_dups :: "int \<times> int \<times> int"
  call_dup_errno :: nat
  call_getfl :: "io_error + u32"
  call_setfl :: "u32 \<Rightarrow> io_error option"
  call_asyncfd :: "io_error option"
  oflag_bits :: u32                  \<comment> \<open>the bits \<open>OFlag::from_bits_truncate\<close> keeps\<close>

definition O_NONBLOCK :: u32 where "O_NONBLOCK = 2048"

definition none_or :: "io_error option \<Rightarrow> io_error + unit" where
  "none_or r = (case r of None \<Rightarrow> Inr () | Some e \<Rightarrow> Inl e)"

definition open_session_pty :: "pty_calls \<Rightarrow> io_error + string" where
  "open_session_pty c =
     try_then (call_openpty c) (\<lambda>(master, slave).
       let pty = (case call_ttyname c of None \<Rightarrow> [] | Some s \<Rightarrow> s);
           (d1, d2, d3) = call_dups c
       in try_then (checked_dup d1 (call_dup_errno c)) (\<lambda>stdin_fd.
          try_then (checked_dup d2 (call_dup_errno c)) (\<lambda>stdout_fd.
          try_then (checked_dup d3 (call_dup_errno c)) (\<lambda>stderr_fd.
          try_then (call_getfl c) (\<lambda>flags.
          try_then (none_or (call_setfl c (or (and flags (oflag_bits c)) O_NONBLOCK))) (\<lambda>_.
          try_then (none_or (call_asyncfd c)) (\<lambda>_. Inr pty)))))))"

definition blank_session :: "string \<Rightarrow> session" where
  "blank_session pty =
     \<lparr>phase = AwaitFirst, client_rx = [], senders_gone = False, metadata_slot = None,
      pgid = None, tty_name = pty, finished = False, effects = []\<rparr>"

definition start_session :: "pty_calls \<Rightarrow> session" where
  "start_session c =
     (case open_session_pty c of
        Inl e \<Rightarrow> (blank_session [])\<lparr>phase := Returned (Inl e)\<rparr>
      | Inr pty \<Rightarrow> blank_session pty)"

section \<open>Operations\<close>

definition emit :: "effect list \<Rightarrow> session \<Rightarrow> session" where
  "emit es s = s\<lparr>effects := effects s @ es\<rparr>"

fun holds_conn :: "phase \<Rightarrow> conn list" where
  "holds_conn (ReadEnv c) = [c]"
| "holds_conn (Relay c) = [c]"
| "holds_conn (AwaitClient c) = [c]"
| "holds_conn _ = []"

text \<open>
  Leaving \<open>run\<close>, by \<open>return\<close>, \<open>break\<close> or \<open>?\<close>, or being aborted: the locals are dropped in reverse
  order, \<open>ManagedChild\<close> (SIGHUP to the shell's group), then \<open>framed\<close>, then the receiver with the
  connections still queued in it.
\<close>

definition leave :: "phase \<Rightarrow> session \<Rightarrow> session" where
  "leave ph s =
     (emit ((case pgid s of None \<Rightarrow> [] | Some g \<Rightarrow> [SignalGroup g SIGHUP])
        @ map Close (holds_conn (phase s) @ client_rx s)) s)\<lparr>phase := ph, client_rx := []\<rparr>"

definition finish :: "io_error + unit \<Rightarrow> session \<Rightarrow> session" where
  "finish r s = leave (Returned r) s"

text \<open>\<open>metadata_slot.get()\<close>, then a store to one of its atomics.\<close>

definition set_attached :: "bool \<Rightarrow> session \<Rightarrow> session" where
  "set_attached b s = s\<lparr>metadata_slot := map_option (\<lambda>m. m\<lparr>attached := b\<rparr>) (metadata_slot s)\<rparr>"

definition set_heartbeat :: "u64 \<Rightarrow> session \<Rightarrow> session" where
  "set_heartbeat t s = s\<lparr>metadata_slot := map_option (\<lambda>m. m\<lparr>last_heartbeat := t\<rparr>) (metadata_slot s)\<rparr>"

text \<open>\<open>RelayExit::ClientGone\<close>\<close>

definition client_gone :: "conn \<Rightarrow> session \<Rightarrow> session" where
  "client_gone c s = (set_attached False s)\<lparr>phase := AwaitClient c\<rparr>"

text \<open>\<open>RelayExit::ShellExited(code)\<close>: the real code, if the child can be reaped by now.\<close>

definition exit_code :: "syscalls \<Rightarrow> i32 \<Rightarrow> i32" where
  "exit_code sys code =
     (case sys_try_wait sys of
        Some status \<Rightarrow> (case status of Some k \<Rightarrow> k | None \<Rightarrow> code)
      | None \<Rightarrow> code)"

definition shell_exited :: "syscalls \<Rightarrow> conn \<Rightarrow> i32 \<Rightarrow> session \<Rightarrow> session" where
  "shell_exited sys c code s = finish (Inr ()) (emit [SendFrame c (Exit (exit_code sys code))] s)"

text \<open>The shell command: a login shell in the home directory, with the client's variables.\<close>

definition shell_command_of :: "syscalls \<Rightarrow> (string \<times> string) list \<Rightarrow> shell_command" where
  "shell_command_of sys vars =
     \<lparr>program = (case sys_shell sys of Some sh \<Rightarrow> sh | None \<Rightarrow> ''/bin/sh''),
      args = [''-l''],
      current_dir = sys_home sys,
      env_vars = vars\<rparr>"

definition env_of_first_frame :: "(io_error + frame) option option \<Rightarrow> (string \<times> string) list" where
  "env_of_first_frame r = (case r of Some (Some (Inr (Env vars))) \<Rightarrow> vars | _ \<Rightarrow> [])"

text \<open>After the wait for \<open>Env\<close>: spawn the shell, publish the metadata, enter the relay.\<close>

definition spawn_shell :: "syscalls \<Rightarrow> conn \<Rightarrow> (io_error + frame) option option \<Rightarrow> session \<Rightarrow> session" where
  "spawn_shell sys c first s =
     (let s1 = emit [SpawnShell (shell_command_of sys (env_of_first_frame first))] s
      in (case sys_spawn sys of
            Inl e \<Rightarrow> finish (Inl e) s1
          | Inr pid \<Rightarrow>
              set_attached True
                (s1\<lparr>pgid := Some (sint pid),
                    metadata_slot :=
                      (case metadata_slot s1 of
                         None \<Rightarrow> Some \<lparr>pty_path = tty_name s1, shell_pid = pid, created_at = sys_now sys,
                                        attached = False, last_heartbeat = 0\<rparr>
                       | Some m \<Rightarrow> Some m),
                    phase := Relay c\<rparr>)))"

text \<open>The branch \<open>frame = framed.next()\<close> of the relay.\<close>

fun on_socket_frame :: "syscalls \<Rightarrow> conn \<Rightarrow> (io_error + frame) option \<Rightarrow> session \<Rightarrow> session" where
  "on_socket_frame sys c (Some (Inr (Data d))) s =
     (case sys_writable sys of
        Some e \<Rightarrow> finish (Inl e) s
      | None \<Rightarrow>
          (case sys_write sys of
             Inr n \<Rightarrow> emit [PtyWrite (take n d)] s
           | Inl e \<Rightarrow> if error_kind e = WouldBlock then s else finish (Inl e) s))"
| "on_socket_frame sys c (Some (Inr (Resize cols rows))) s =
     (case clamp_winsize cols rows of (cols', rows') \<Rightarrow>
        emit (SetWinsize cols' rows' #
          (case sys_foreground sys of Some g \<Rightarrow> [SignalGroup g SIGWINCH] | None \<Rightarrow> [])) s)"
| "on_socket_frame sys c (Some (Inr Ping)) s =
     emit [SendFrame c Pong] (set_heartbeat (sys_now sys) s)"
| "on_socket_frame sys c (Some (Inr (Exit code))) s = client_gone c s"
| "on_socket_frame sys c None s = client_gone c s"
| "on_socket_frame sys c (Some (Inr other)) s = s"
| "on_socket_frame sys c (Some (Inl e)) s = finish (Inl e) s"

text \<open>The branch \<open>ready = async_master.readable()\<close>.\<close>

definition on_pty_readable :: "syscalls \<Rightarrow> conn \<Rightarrow> io_error option \<Rightarrow> io_error + bytes \<Rightarrow> session \<Rightarrow> session" where
  "on_pty_readable sys c ready r s =
     (case ready of
        Some e \<Rightarrow> finish (Inl e) s
      | None \<Rightarrow>
          (case r of
             Inr buf \<Rightarrow>
               if buf = [] then shell_exited sys c 0 s
               else
                 (let s1 = emit [SendFrame c (Data buf)] s
                  in (case sys_send sys of None \<Rightarrow> s1 | Some e \<Rightarrow> finish (Inl e) s1))
           | Inl e \<Rightarrow>
               if error_kind e = WouldBlock then s
               else if raw_os_error e = Some EIO then shell_exited sys c 0 s
               else finish (Inl e) s))"

text \<open>The branch \<open>client_rx.recv()\<close>, in each of the three places it is awaited.\<close>

definition on_client :: "conn option \<Rightarrow> session \<Rightarrow> session" where
  "on_client r s =
     (case phase s of
        AwaitFirst \<Rightarrow>
          (case r of
             Some c \<Rightarrow> s\<lparr>phase := ReadEnv c\<rparr>
           | None \<Rightarrow> finish (Inr ()) s)
      | Relay c \<Rightarrow>
          (case r of
             Some c' \<Rightarrow> (emit [SendFrame c Detached, Close c] s)\<lparr>phase := Relay c'\<rparr>
           | None \<Rightarrow> s)
      | AwaitClient c \<Rightarrow>
          (case r of
             Some c' \<Rightarrow> set_attached True ((emit [Close c] s)\<lparr>phase := Relay c'\<rparr>)
           | None \<Rightarrow> finish (Inr ()) s)
      | _ \<Rightarrow> s)"

text \<open>The branch \<open>child.wait()\<close>.\<close>

definition on_child_exit :: "syscalls \<Rightarrow> io_error + i32 option \<Rightarrow> session \<Rightarrow> session" where
  "on_child_exit sys status s =
     (case phase s of
        Relay c \<Rightarrow>
          (case status of
             Inl e \<Rightarrow> finish (Inl e) s
           | Inr code \<Rightarrow> shell_exited sys c (case code of Some k \<Rightarrow> k | None \<Rightarrow> 1) s)
      | AwaitClient c \<Rightarrow>
          (case status of Inl e \<Rightarrow> finish (Inl e) s | Inr code \<Rightarrow> finish (Inr ()) s)
      | _ \<Rightarrow> s)"

fun ended :: "phase \<Rightarrow> bool" where
  "ended (Returned r) = True"
| "ended Aborted = True"
| "ended _ = False"

text \<open>
  What the daemon does to a task: \<open>client_tx.send\<close> (to a task that has ended, the connection is
  dropped), dropping the last sender, and \<open>handle.abort()\<close>.
\<close>

definition hand_over :: "conn \<Rightarrow> session \<Rightarrow> session" where [simp]:
  "hand_over c s =
     (if ended (phase s) then emit [Close c] s else s\<lparr>client_rx := client_rx s @ [c]\<rparr>)"

definition drop_senders :: "session \<Rightarrow> session" where [simp]:
  "drop_senders s = s\<lparr>senders_gone := True\<rparr>"

definition abort_task :: "session \<Rightarrow> session" where [simp]:
  "abort_task s = (if ended (phase s) then s else leave Aborted s)"

text \<open>One step.  A branch that the current \<open>select!\<close> does not wait for does nothing.\<close>

fun session_step :: "session \<Rightarrow> syscalls \<times> event \<Rightarrow> session" where
  "session_step s (sys, ClientRecv) =
     (case client_rx s of
        c # cs \<Rightarrow>
          (case phase s of
             ReadEnv _ \<Rightarrow> s
           | Returned _ \<Rightarrow> s
           | Aborted \<Rightarrow> s
           | _ \<Rightarrow> on_client (Some c) (s\<lparr>client_rx := cs\<rparr>))
      | [] \<Rightarrow> if senders_gone s then on_client None s else s)"
| "session_step s (sys, EnvWait r) =
     (case phase s of ReadEnv c \<Rightarrow> spawn_shell sys c r s | _ \<Rightarrow> s)"
| "session_step s (sys, SocketFrame r) =
     (case phase s of Relay c \<Rightarrow> on_socket_frame sys c r s | _ \<Rightarrow> s)"
| "session_step s (sys, PtyReadable ready r) =
     (case phase s of Relay c \<Rightarrow> on_pty_readable sys c ready r s | _ \<Rightarrow> s)"
| "session_step s (sys, ChildExit status) = on_child_exit sys status s"
| "session_step s (sys, Handoff c) = hand_over c s"
| "session_step s (sys, DropSenders) = drop_senders s"
| "session_step s (sys, AbortTask) = abort_task s"
| "session_step s (sys, JoinReady) = (if ended (phase s) then s\<lparr>finished := True\<rparr> else s)"

abbreviation run_session :: "session \<Rightarrow> (syscalls \<times> event) list \<Rightarrow> session" where
  "run_session \<equiv> run_steps session_step"

section \<open>Frames of the operations\<close>

text \<open>
  What each operation does to the fields; with these the proofs never unfold a record update.
\<close>

lemma emit_fields [simp]:
  "phase (emit es s) = phase s" "client_rx (emit es s) = client_rx s"
  "metadata_slot (emit es s) = metadata_slot s" "pgid (emit es s) = pgid s"
  "tty_name (emit es s) = tty_name s" "senders_gone (emit es s) = senders_gone s"
  "finished (emit es s) = finished s" "effects (emit es s) = effects s @ es"
  by (simp_all add: emit_def)

lemma leave_fields [simp]:
  "phase (leave ph s) = ph" "client_rx (leave ph s) = []"
  "metadata_slot (leave ph s) = metadata_slot s" "pgid (leave ph s) = pgid s"
  "tty_name (leave ph s) = tty_name s" "finished (leave ph s) = finished s"
  "effects (leave ph s) = effects s @
     (case pgid s of None \<Rightarrow> [] | Some g \<Rightarrow> [SignalGroup g SIGHUP])
     @ map Close (holds_conn (phase s) @ client_rx s)"
  by (simp_all add: leave_def)

lemma set_fields [simp]:
  "phase (set_attached b s) = phase s" "client_rx (set_attached b s) = client_rx s"
  "pgid (set_attached b s) = pgid s" "effects (set_attached b s) = effects s"
  "metadata_slot (set_attached b s) = map_option (\<lambda>m. m\<lparr>attached := b\<rparr>) (metadata_slot s)"
  "phase (set_heartbeat t s) = phase s" "client_rx (set_heartbeat t s) = client_rx s"
  "pgid (set_heartbeat t s) = pgid s" "effects (set_heartbeat t s) = effects s"
  "metadata_slot (set_heartbeat t s) = map_option (\<lambda>m. m\<lparr>last_heartbeat := t\<rparr>) (metadata_slot s)"
  by (simp_all add: set_attached_def set_heartbeat_def)

lemma sessionevent_cases:
  obtains sys where "e = (sys, ClientRecv)"
  | sys r where "e = (sys, EnvWait r)"
  | sys d where "e = (sys, SocketFrame (Some (Inr (Data d))))"
  | sys cols rows where "e = (sys, SocketFrame (Some (Inr (Resize cols rows))))"
  | sys where "e = (sys, SocketFrame (Some (Inr Ping)))"
  | sys r where "e = (sys, SocketFrame r)" "r = None \<or> (\<exists>k. r = Some (Inr (Exit k)))"
  | sys x where "e = (sys, SocketFrame (Some (Inl x)))"
  | sys f where "e = (sys, SocketFrame (Some (Inr f)))" "\<And>sys c s. on_socket_frame sys c (Some (Inr f)) s = s"
  | sys ready r where "e = (sys, PtyReadable ready r)"
  | sys st where "e = (sys, ChildExit st)"
  | sys c where "e = (sys, Handoff c)"
  | sys where "e = (sys, DropSenders)"
  | sys where "e = (sys, AbortTask)"
  | sys where "e = (sys, JoinReady)"
proof -
  obtain sys ev where e: "e = (sys, ev)" by (cases e)
  show thesis
  proof (cases ev)
    case (SocketFrame r)
    show thesis
    proof (cases r)
      case None
      with SocketFrame e that show thesis by blast
    next
      case (Some x)
      show thesis
      proof (cases x)
        case (Inl a)
        with Some SocketFrame e that show thesis by blast
      next
        case (Inr f)
        show thesis
          using Some SocketFrame e Inr that by (cases f) auto
      qed
    qed
  qed (use e that in auto)
qed

section \<open>Invariants of the session task\<close>

definition session_inv :: "session \<Rightarrow> bool" where
  "session_inv s \<longleftrightarrow>
     (case phase s of
        AwaitFirst \<Rightarrow> metadata_slot s = None \<and> pgid s = None
      | ReadEnv c \<Rightarrow> metadata_slot s = None \<and> pgid s = None
      | Relay c \<Rightarrow> pgid s \<noteq> None \<and> (\<exists>m. metadata_slot s = Some m \<and> attached m)
      | AwaitClient c \<Rightarrow> pgid s \<noteq> None \<and> (\<exists>m. metadata_slot s = Some m \<and> \<not> attached m)
      | _ \<Rightarrow> client_rx s = [])"

lemma session_inv_start: "session_inv (start_session c)"
  by (simp add: session_inv_def start_session_def blank_session_def split: sum.splits)

lemma session_inv_ended [simp]: "ended (phase s) \<Longrightarrow> session_inv s \<longleftrightarrow> client_rx s = []"
  by (cases "phase s") (auto simp: session_inv_def)

lemma session_inv_finish [simp]: "session_inv (finish r s)" "session_inv (leave Aborted s)"
  by (simp_all add: session_inv_def finish_def)

lemma session_step_inv: "session_inv s \<Longrightarrow> session_inv (session_step s e)"
proof (cases e rule: sessionevent_cases)
  case (1 sys)
  assume "session_inv s"
  with 1 show ?thesis
    by (cases "phase s") (auto simp: session_inv_def on_client_def finish_def split: list.splits option.splits)
next
  case (2 sys r)
  assume "session_inv s"
  with 2 show ?thesis
    by (cases "phase s") (auto simp: session_inv_def spawn_shell_def Let_def finish_def split: sum.splits)
next
  case (9 sys ready r)
  assume "session_inv s"
  with 9 show ?thesis
    by (cases "phase s") (auto simp: session_inv_def on_pty_readable_def shell_exited_def finish_def Let_def
        split: sum.splits option.splits)
qed (cases "phase s"; auto simp: session_inv_def client_gone_def finish_def shell_exited_def
    on_child_exit_def split: sum.splits option.splits prod.splits)+

lemma session_step_log: "\<exists>new. effects (session_step s e) = effects s @ new"
proof (cases e rule: sessionevent_cases)
  case (1 sys)
  then show ?thesis
    by (cases "phase s") (auto simp: on_client_def finish_def split: list.splits option.splits)
next
  case (2 sys r)
  then show ?thesis
    by (cases "phase s") (auto simp: spawn_shell_def Let_def finish_def split: sum.splits)
next
  case (9 sys ready r)
  then show ?thesis
    by (cases "phase s") (auto simp: on_pty_readable_def shell_exited_def finish_def Let_def
        split: sum.splits option.splits)
qed (cases "phase s"; auto simp: client_gone_def finish_def shell_exited_def
    on_child_exit_def split: sum.splits option.splits prod.splits)+

text \<open>The session task is a machine with an effect log.\<close>

interpretation session_task: logging_machine session_step session_inv effects
  by unfold_locales (auto intro: session_step_inv session_step_log)

section \<open>One client at a time: the trace of frames\<close>

text \<open>
  A trace is in order if no frame is sent on a connection that was closed or that has got its
  final frame (\<open>Detached\<close> or \<open>Exit\<close>), and no connection is closed twice.
\<close>

fun final_frame :: "frame \<Rightarrow> bool" where
  "final_frame Detached = True"
| "final_frame (Exit k) = True"
| "final_frame _ = False"

fun trace_ok :: "conn set \<Rightarrow> conn set \<Rightarrow> effect list \<Rightarrow> bool" where
  "trace_ok F C [] = True"
| "trace_ok F C (SendFrame c f # es) =
     (c \<notin> F \<and> c \<notin> C \<and> trace_ok (if final_frame f then insert c F else F) C es)"
| "trace_ok F C (Close c # es) = (c \<notin> C \<and> trace_ok F (insert c C) es)"
| "trace_ok F C (_ # es) = trace_ok F C es"

definition finals :: "effect list \<Rightarrow> conn set" where
  "finals es = {c. \<exists>f. final_frame f \<and> SendFrame c f \<in> set es}"

definition closeds :: "effect list \<Rightarrow> conn set" where
  "closeds es = {c. Close c \<in> set es}"

lemma finals_closeds_simps [simp]:
  "finals [] = {}" "closeds [] = {}"
  "finals (es @ fs) = finals es \<union> finals fs" "closeds (es @ fs) = closeds es \<union> closeds fs"
  "finals (SendFrame c f # es) = (if final_frame f then insert c (finals es) else finals es)"
  "closeds (SendFrame c f # es) = closeds es"
  "finals (Close c # es) = finals es" "closeds (Close c # es) = insert c (closeds es)"
  "finals (PtyWrite d # es) = finals es" "closeds (PtyWrite d # es) = closeds es"
  "finals (SetWinsize x y # es) = finals es" "closeds (SetWinsize x y # es) = closeds es"
  "finals (SignalGroup g sg # es) = finals es" "closeds (SignalGroup g sg # es) = closeds es"
  "finals (SpawnShell cmd # es) = finals es" "closeds (SpawnShell cmd # es) = closeds es"
  "finals (map Close cs) = {}" "closeds (map Close cs) = set cs"
  by (auto simp: finals_def closeds_def)

lemma trace_ok_append:
  "trace_ok F C (es @ fs) \<longleftrightarrow> trace_ok F C es \<and> trace_ok (F \<union> finals es) (C \<union> closeds es) fs"
  by (induction F C es rule: trace_ok.induct) (auto simp: insert_commute)

lemma trace_ok_Closes [simp]: "trace_ok F C (map Close cs) \<longleftrightarrow> distinct cs \<and> set cs \<inter> C = {}"
  by (induction cs arbitrary: C) auto

text \<open>The connections the task still owns, and all it has been given.\<close>

definition owned :: "session \<Rightarrow> conn list" where
  "owned s = holds_conn (phase s) @ client_rx s"

definition seen :: "session \<Rightarrow> conn set" where
  "seen s = set (owned s) \<union> closeds (effects s)"

definition conns_inv :: "session \<Rightarrow> bool" where
  "conns_inv s \<longleftrightarrow>
     trace_ok {} {} (effects s) \<and> distinct (owned s)
     \<and> set (owned s) \<inter> closeds (effects s) = {} \<and> finals (effects s) \<subseteq> closeds (effects s)
     \<and> (ended (phase s) \<longrightarrow> client_rx s = [])"

lemma conns_inv_leave:
  "\<not> ended (phase s) \<Longrightarrow> conns_inv s \<Longrightarrow> ended ph \<Longrightarrow> conns_inv (leave ph s) \<and> seen (leave ph s) = seen s"
  by (cases ph)
    (auto simp: conns_inv_def seen_def owned_def trace_ok_append split: option.splits)

lemma conns_inv_exit:
  assumes "phase s = Relay c" and "conns_inv s" and "ended ph"
  shows "conns_inv (leave ph (emit [SendFrame c (Exit k)] s))"
    "seen (leave ph (emit [SendFrame c (Exit k)] s)) = seen s"
  using assms
  by (cases ph; auto simp: conns_inv_def seen_def owned_def trace_ok_append split: option.splits)+

lemma conns_inv_send:
  assumes "phase s = Relay c" and "conns_inv s" and "\<not> final_frame f"
  shows "conns_inv (emit [SendFrame c f] s)" "seen (emit [SendFrame c f] s) = seen s"
  using assms by (auto simp: conns_inv_def seen_def owned_def trace_ok_append)

lemma conns_inv_emit_other:
  assumes "conns_inv s" and "\<forall>e \<in> set es. (\<forall>c f. e \<noteq> SendFrame c f) \<and> (\<forall>c. e \<noteq> Close c)"
  shows "conns_inv (emit es s)" "seen (emit es s) = seen s"
proof -
  have f: "finals es = {}" "closeds es = {}" using assms(2) by (auto simp: finals_def closeds_def)
  have "trace_ok F C es" for F C
    using assms(2) by (induction F C es rule: trace_ok.induct) auto
  with assms(1) f show "conns_inv (emit es s)" "seen (emit es s) = seen s"
    by (auto simp: conns_inv_def seen_def owned_def trace_ok_append)
qed

lemma conns_inv_cong:
  "effects s' = effects s \<Longrightarrow> holds_conn (phase s') = holds_conn (phase s) \<Longrightarrow>
   client_rx s' = client_rx s \<Longrightarrow> ended (phase s') = ended (phase s) \<Longrightarrow>
   conns_inv s' = conns_inv s \<and> seen s' = seen s"
  by (simp add: conns_inv_def seen_def owned_def)

fun handed_over :: "syscalls \<times> event \<Rightarrow> conn list" where
  "handed_over (sys, Handoff c) = [c]"
| "handed_over _ = []"

lemma conns_inv_Handoff:
  assumes "conns_inv s" and "c \<notin> seen s"
  shows "conns_inv (session_step s (sys, Handoff c)) \<and>
    seen (session_step s (sys, Handoff c)) = insert c (seen s)"
proof (cases "ended (phase s)")
  case True
  then have "holds_conn (phase s) = []" by (cases "phase s") auto
  with assms True show ?thesis
    by (simp add: conns_inv_def seen_def owned_def trace_ok_append subset_iff)
next
  case False
  with assms show ?thesis
    by (auto simp add: conns_inv_def seen_def owned_def)
qed

lemma conns_inv_ClientRecv:
  assumes "conns_inv s"
  shows "conns_inv (session_step s (sys, ClientRecv)) \<and> seen (session_step s (sys, ClientRecv)) = seen s"
proof (cases "client_rx s")
  case Nil
  with assms show ?thesis
    using conns_inv_leave [of s "Returned (Inr ())"]
    by (cases "phase s") (simp_all add: on_client_def finish_def)
next
  case (Cons c cs)
  with assms show ?thesis
    by (cases "phase s")
      (simp_all add: on_client_def conns_inv_def seen_def owned_def trace_ok_append subset_iff,
       auto)
qed

lemma conns_inv_spawn:
  assumes "conns_inv s" and "phase s = ReadEnv c"
  shows "conns_inv (spawn_shell sys c r s) \<and> seen (spawn_shell sys c r s) = seen s"
proof -
  let ?s = "emit [SpawnShell (shell_command_of sys (env_of_first_frame r))] s"
  have s1: "conns_inv ?s" "seen ?s = seen s"
    using conns_inv_emit_other [OF assms(1), of "[SpawnShell (shell_command_of sys (env_of_first_frame r))]"]
    by simp_all
  with assms(2) show ?thesis
    using conns_inv_leave [of ?s] conns_inv_cong [of "spawn_shell sys c r s" ?s]
    by (cases "sys_spawn sys") (simp_all add: spawn_shell_def Let_def finish_def)
qed

lemma conns_inv_readable:
  assumes "conns_inv s" and "phase s = Relay c"
  shows "conns_inv (on_pty_readable sys c ready r s) \<and> seen (on_pty_readable sys c ready r s) = seen s"
proof (cases ready)
  case None
  have l: "conns_inv (leave (Returned x) s) \<and> seen (leave (Returned x) s) = seen s" for x
    using assms conns_inv_leave [of s] by simp
  have d: "conns_inv (emit [SendFrame c (Data b)] s)" "seen (emit [SendFrame c (Data b)] s) = seen s" for b
    using conns_inv_send [OF assms(2,1)] by simp_all
  have dl: "conns_inv (leave (Returned x) (emit [SendFrame c (Data b)] s)) \<and>
      seen (leave (Returned x) (emit [SendFrame c (Data b)] s)) = seen s" for x b
    using conns_inv_leave [OF _ d(1) [of b], of "Returned x"] d(2) assms(2) by simp
  have x: "conns_inv (leave (Returned x) (emit [SendFrame c (Exit k)] s))"
    "seen (leave (Returned x) (emit [SendFrame c (Exit k)] s)) = seen s" for x k
    using conns_inv_exit [OF assms(2,1)] by simp_all
  show ?thesis
    using None l d dl x assms(1)
    by (cases r) (simp_all add: on_pty_readable_def shell_exited_def finish_def Let_def split: option.split)
next
  case (Some e)
  with assms conns_inv_leave [of s] show ?thesis by (simp add: on_pty_readable_def finish_def)
qed

lemma conns_inv_child_exit:
  assumes "conns_inv s"
  shows "conns_inv (on_child_exit sys st s) \<and> seen (on_child_exit sys st s) = seen s"
  using assms conns_inv_leave [of s] conns_inv_exit [of s]
  by (cases "phase s"; cases st) (simp_all add: on_child_exit_def shell_exited_def finish_def)

lemma conns_inv_socket:
  assumes "conns_inv s" and "phase s = Relay c"
  shows "conns_inv (on_socket_frame sys c r s) \<and> seen (on_socket_frame sys c r s) = seen s"
proof -
  have l: "conns_inv (leave (Returned x) s) \<and> seen (leave (Returned x) s) = seen s" for x
    using assms conns_inv_leave [of s] by simp
  have g: "conns_inv (client_gone c s) \<and> seen (client_gone c s) = seen s"
    using assms conns_inv_cong [of "client_gone c s" s] by (simp add: client_gone_def)
  have o1: "conns_inv (emit [PtyWrite b] s)" "seen (emit [PtyWrite b] s) = seen s" for b
    using conns_inv_emit_other [OF assms(1), of "[PtyWrite b]"] by simp_all
  have o2: "conns_inv (emit [SetWinsize a b] s)" "seen (emit [SetWinsize a b] s) = seen s" for a b
    using conns_inv_emit_other [OF assms(1), of "[SetWinsize a b]"] by simp_all
  have o3: "conns_inv (emit [SetWinsize a b, SignalGroup k SIGWINCH] s)"
     "seen (emit [SetWinsize a b, SignalGroup k SIGWINCH] s) = seen s" for a b k
    using conns_inv_emit_other [OF assms(1), of "[SetWinsize a b, SignalGroup k SIGWINCH]"] by simp_all
  have p: "conns_inv (emit [SendFrame c Pong] (set_heartbeat t s))"
     "seen (emit [SendFrame c Pong] (set_heartbeat t s)) = seen s" for t
    using conns_inv_send [of "set_heartbeat t s" c Pong] conns_inv_cong [of "set_heartbeat t s" s] assms
    by simp_all
  show ?thesis
    using assms l g o1 o2 o3 p
    by (cases "(sys, c, r, s)" rule: on_socket_frame.cases)
      (simp_all add: finish_def split: option.split sum.split prod.split)
qed

lemma conns_inv_step:
  assumes "conns_inv s" and "set (handed_over e) \<inter> seen s = {}"
  shows "conns_inv (session_step s e) \<and> seen (session_step s e) = seen s \<union> set (handed_over e)"
proof -
  obtain sys ev where e: "e = (sys, ev)" by (cases e)
  show ?thesis
  proof (cases ev)
    case ClientRecv
    with e conns_inv_ClientRecv [OF assms(1)] show ?thesis by simp
  next
    case (EnvWait r)
    with e assms(1) conns_inv_spawn [OF assms(1)] show ?thesis by (cases "phase s") simp_all
  next
    case (SocketFrame r)
    with e assms(1) conns_inv_socket [OF assms(1)] show ?thesis by (cases "phase s") simp_all
  next
    case (PtyReadable ready r)
    with e assms(1) conns_inv_readable [OF assms(1)] show ?thesis by (cases "phase s") simp_all
  next
    case (ChildExit st)
    with e conns_inv_child_exit [OF assms(1)] show ?thesis by simp
  next
    case (Handoff c)
    with e assms conns_inv_Handoff [OF assms(1)] show ?thesis by simp
  next
    case AbortTask
    with e assms(1) conns_inv_leave [of s Aborted] show ?thesis by simp
  qed (use e assms(1) in \<open>auto simp: conns_inv_def seen_def owned_def\<close>)
qed

lemma conns_inv_run:
  "conns_inv s \<Longrightarrow> distinct (concat (map handed_over es)) \<Longrightarrow>
   set (concat (map handed_over es)) \<inter> seen s = {} \<Longrightarrow> conns_inv (run_session s es)"
proof (induction es arbitrary: s)
  case (Cons e es)
  have "set (handed_over e) \<inter> seen s = {}" using Cons.prems(3) by auto
  with Cons.prems(1) conns_inv_step have st: "conns_inv (session_step s e)"
      "seen (session_step s e) = seen s \<union> set (handed_over e)" by blast+
  have "set (concat (map handed_over es)) \<inter> seen (session_step s e) = {}"
    using Cons.prems(2,3) st(2) by auto
  with Cons.IH [OF st(1)] Cons.prems(2) show ?case by simp
qed simp

lemma conns_inv_start: "conns_inv (start_session c)" "seen (start_session c) = {}"
  by (simp_all add: conns_inv_def seen_def owned_def start_session_def blank_session_def split: sum.splits)

section \<open>The shell's process group\<close>

definition hups :: "effect list \<Rightarrow> effect list" where
  "hups es = filter (\<lambda>e. case e of SignalGroup g sg \<Rightarrow> sg = SIGHUP | _ \<Rightarrow> False) es"

lemma hups_simps [simp]:
  "hups [] = []" "hups (es @ fs) = hups es @ hups fs"
  "hups (SendFrame c f # es) = hups es" "hups (Close c # es) = hups es"
  "hups (PtyWrite d # es) = hups es" "hups (SetWinsize x y # es) = hups es"
  "hups (SpawnShell cmd # es) = hups es"
  "hups (SignalGroup g sg # es) = (if sg = SIGHUP then [SignalGroup g sg] else []) @ hups es"
  "hups (map Close cs) = []"
  by (auto simp: hups_def)

definition hup_inv :: "session \<Rightarrow> bool" where
  "hup_inv s \<longleftrightarrow>
     hups (effects s) =
       (if ended (phase s) then (case pgid s of None \<Rightarrow> [] | Some g \<Rightarrow> [SignalGroup g SIGHUP]) else [])"

lemma hup_inv_step: "hup_inv s \<Longrightarrow> hup_inv (session_step s e)"
proof (cases e rule: sessionevent_cases)
  case (1 sys)
  assume "hup_inv s"
  with 1 show ?thesis
    by (cases "phase s") (auto simp: hup_inv_def on_client_def finish_def split: list.splits option.splits)
next
  case (2 sys r)
  assume "hup_inv s"
  with 2 show ?thesis
    by (cases "phase s") (auto simp: hup_inv_def spawn_shell_def Let_def finish_def split: sum.splits option.splits)
next
  case (9 sys ready r)
  assume "hup_inv s"
  with 9 show ?thesis
    by (cases "phase s") (auto simp: hup_inv_def on_pty_readable_def shell_exited_def finish_def Let_def
        split: sum.splits option.splits)
qed (cases "phase s"; auto simp: hup_inv_def client_gone_def finish_def shell_exited_def
    on_child_exit_def split: sum.splits option.splits prod.splits)+

interpretation shell_group: step_machine session_step hup_inv
  by unfold_locales (rule hup_inv_step)

section \<open>Window sizes\<close>

definition winsizes_inv :: "session \<Rightarrow> bool" where
  "winsizes_inv s \<longleftrightarrow>
     (\<forall>c r. SetWinsize c r \<in> set (effects s) \<longrightarrow> 1 \<le> c \<and> c \<le> 10000 \<and> 1 \<le> r \<and> r \<le> 10000)"

lemma winsizes_inv_step: "winsizes_inv s \<Longrightarrow> winsizes_inv (session_step s e)"
proof (cases e rule: sessionevent_cases)
  case (1 sys)
  assume "winsizes_inv s"
  with 1 show ?thesis
    by (cases "phase s") (auto simp: winsizes_inv_def on_client_def finish_def split: list.splits option.splits)
next
  case (2 sys r)
  assume "winsizes_inv s"
  with 2 show ?thesis
    by (cases "phase s") (auto simp: winsizes_inv_def spawn_shell_def Let_def finish_def split: sum.splits option.splits)
next
  case (4 sys cols rows)
  obtain c' r' where "clamp_winsize cols rows = (c', r')" by (cases "clamp_winsize cols rows")
  moreover assume "winsizes_inv s"
  ultimately show ?thesis
    using 4 clamp_winsize_bounds [of cols rows c' r']
    by (cases "phase s") (auto simp: winsizes_inv_def MAX_WINSIZE_def split: option.splits)
next
  case (9 sys ready r)
  assume "winsizes_inv s"
  with 9 show ?thesis
    by (cases "phase s") (auto simp: winsizes_inv_def on_pty_readable_def shell_exited_def finish_def Let_def
        split: sum.splits option.splits)
qed (cases "phase s"; auto simp: winsizes_inv_def client_gone_def finish_def shell_exited_def
    on_child_exit_def split: sum.splits option.splits prod.splits)+

interpretation window: step_machine session_step winsizes_inv
  by unfold_locales (rule winsizes_inv_step)

section \<open>Properties of the session task\<close>

definition quiet_calls :: syscalls where
  "quiet_calls =
     \<lparr>sys_writable = None, sys_write = Inr 3, sys_send = None, sys_foreground = Some 77, sys_now = 1000,
      sys_spawn = Inr 42, sys_try_wait = None, sys_shell = Some ''/bin/bash'', sys_home = Some ''/root''\<rparr>"

definition pty_ready :: pty_calls where
  "pty_ready =
     \<lparr>call_openpty = Inr (7, 8), call_ttyname = Some ''/dev/pts/3'', call_dups = (9, 10, 11),
      call_dup_errno = 0, call_getfl = Inr 2, call_setfl = (\<lambda>_. None), call_asyncfd = None,
      oflag_bits = 2\<rparr>"

text \<open>The events that bring a fresh task to its first relay, with connection 1.\<close>

definition boot :: "(syscalls \<times> event) list" where
  "boot = [(quiet_calls, Handoff 1), (quiet_calls, ClientRecv), (quiet_calls, EnvWait None)]"

lemma boot_run:
  "run_session (start_session pty_ready) boot =
     \<lparr>phase = Relay 1, client_rx = [], senders_gone = False,
      metadata_slot = Some \<lparr>pty_path = ''/dev/pts/3'', shell_pid = 42, created_at = 1000,
                             attached = True, last_heartbeat = 0\<rparr>,
      pgid = Some 42, tty_name = ''/dev/pts/3'', finished = False,
      effects = [SpawnShell \<lparr>program = ''/bin/bash'', args = [''-l''], current_dir = Some ''/root'', env_vars = []\<rparr>]\<rparr>"
  by (simp add: boot_def start_session_def open_session_pty_def pty_ready_def checked_dup_def none_or_def
      blank_session_def on_client_def spawn_shell_def quiet_calls_def emit_def set_attached_def
      env_of_first_frame_def shell_command_of_def)

text \<open>
  In every run of a session task that has not ended, the metadata the daemon lists says
  \<open>attached\<close> exactly while a client is being relayed: there is no metadata before the shell is
  spawned, \<open>attached\<close> is true in the relay loop and false while the task waits for a client.
\<close>

theorem attached_flag_tracks_relay:
  assumes "s = run_session (start_session calls) es" and "\<not> ended (phase s)"
  shows "map_option attached (metadata_slot s) =
    (case phase s of Relay c \<Rightarrow> Some True | AwaitClient c \<Rightarrow> Some False | _ \<Rightarrow> None)"
  using session_task.run_inv [OF session_inv_start, of calls es] assms
  by (cases "phase s") (auto simp: session_inv_def)

theorem attached_flag_tracks_relay_witness:
  "map_option attached (metadata_slot (run_session (start_session pty_ready) boot)) = Some True"
  using attached_flag_tracks_relay [of "run_session (start_session pty_ready) boot" pty_ready boot]
  by (simp add: boot_run)

text \<open>
  C20. Whatever the clients, the shell and the system calls do, the frames leave in order: once a
  connection has got its final frame (\<open>Detached\<close> on a takeover, \<open>Exit\<close> when the shell ends) or
  was closed, nothing more is sent on it, and it is closed at most once.
\<close>

theorem one_client_at_a_time:
  assumes "distinct (concat (map handed_over es))"
  shows "trace_ok {} {} (effects (run_session (start_session calls) es))"
  using conns_inv_run [OF conns_inv_start(1) assms] by (simp add: conns_inv_start conns_inv_def)

theorem one_client_at_a_time_witness:
  "trace_ok {} {} (effects (run_session (start_session pty_ready)
     (boot @ [(quiet_calls, Handoff 2), (quiet_calls, ClientRecv), (quiet_calls, ChildExit (Inr (Some 3)))])))"
  by (rule one_client_at_a_time) (simp add: boot_def)

text \<open>
  C22. The shell's process group gets exactly one \<open>SIGHUP\<close> when the task ends, however it ends (the
  shell exits, an I/O error, the daemon aborts it), and none before; a task that never spawned a
  shell signals nobody.
\<close>

theorem shell_group_is_hung_up_once:
  "let s = run_session (start_session calls) es in
   hups (effects s) =
     (if ended (phase s) then (case pgid s of None \<Rightarrow> [] | Some g \<Rightarrow> [SignalGroup g SIGHUP]) else [])"
proof -
  have "hup_inv (start_session calls)"
    by (simp add: hup_inv_def start_session_def blank_session_def split: sum.splits)
  from shell_group.run_inv [OF this, of es] show ?thesis
    unfolding hup_inv_def Let_def .
qed

text \<open>
  No run sets a window size outside 1 to 10000 in either direction, whatever sizes clients ask for.
\<close>

theorem pty_sizes_in_bounds:
  assumes "SetWinsize cols rows \<in> set (effects (run_session (start_session calls) es))"
  shows "1 \<le> cols \<and> cols \<le> 10000 \<and> 1 \<le> rows \<and> rows \<le> 10000"
proof -
  have "winsizes_inv (start_session calls)"
    by (simp add: winsizes_inv_def start_session_def blank_session_def split: sum.splits)
  from window.run_inv [OF this, of es] assms show ?thesis
    unfolding winsizes_inv_def by blast
qed

theorem pty_sizes_in_bounds_witness:
  "\<exists>cols rows. 1 \<le> cols \<and> cols \<le> (10000 :: u16) \<and> 1 \<le> rows \<and> rows \<le> (10000 :: u16) \<and>
     SetWinsize cols rows \<in> set (effects (run_session (start_session pty_ready)
       (boot @ [(quiet_calls, SocketFrame (Some (Inr (Resize 0 60000))))])))"
proof -
  have "SetWinsize 1 10000 \<in> set (effects (run_session (start_session pty_ready)
       (boot @ [(quiet_calls, SocketFrame (Some (Inr (Resize 0 60000))))])))"
    by (simp add: run_steps_append boot_run clamp_winsize_def clamp_u16_def MAX_WINSIZE_def emit_def split: option.split)
  with pty_sizes_in_bounds [OF this] show ?thesis by blast
qed

text \<open>One disconnection and one reattachment by \<open>c\<close>, noticed when the socket is closed or by an \<open>Exit\<close> frame.\<close>

definition reattach :: "syscalls \<Rightarrow> (io_error + frame) option \<times> conn \<Rightarrow> (syscalls \<times> event) list" where
  "reattach sys = (\<lambda>(gone, c). [(sys, SocketFrame gone), (sys, Handoff c), (sys, ClientRecv)])"

definition says_goodbye :: "(io_error + frame) option \<Rightarrow> bool" where
  "says_goodbye r \<longleftrightarrow> (case r of None \<Rightarrow> True | Some (Inr (Exit k)) \<Rightarrow> True | _ \<Rightarrow> False)"

lemma says_goodbye_cases: "says_goodbye r \<Longrightarrow> r = None \<or> (\<exists>k. r = Some (Inr (Exit k)))"
  by (auto simp: says_goodbye_def split: option.splits sum.splits frame.splits)

lemma reattach_once:
  assumes "phase s = Relay c" and "client_rx s = []" and "session_inv s" and "says_goodbye r"
  shows "run_session s (reattach sys (r, c')) = s\<lparr>phase := Relay c', effects := effects s @ [Close c]\<rparr>"
proof -
  obtain m where m: "metadata_slot s = Some m" "attached m"
    using assms(1,3) by (auto simp: session_inv_def)
  have "on_socket_frame sys c r s = client_gone c s"
    using says_goodbye_cases [OF assms(4)] by auto
  with assms m show ?thesis
    by (simp add: reattach_def client_gone_def set_attached_def emit_def on_client_def)
qed



text \<open>
  A client that takes over makes the old one see \<open>Detached\<close> as its last frame; the shell, the
  terminal and the \<open>attached\<close> flag are untouched, and the frames of the new client go on from there.
\<close>

theorem takeover_detaches_old_client:
  assumes "phase s = Relay c" and "client_rx s = []"
  shows "run_session s [(sys, Handoff c'), (sys', ClientRecv)] =
    s\<lparr>phase := Relay c', effects := effects s @ [SendFrame c Detached, Close c]\<rparr>"
  using assms by (cases s) (simp add: on_client_def emit_def)

theorem takeover_detaches_old_client_witness:
  "phase (run_session (run_session (start_session pty_ready) boot)
     [(quiet_calls, Handoff 2), (quiet_calls, ClientRecv)]) = Relay 2"
  using takeover_detaches_old_client [of "run_session (start_session pty_ready) boot" 1 quiet_calls 2 quiet_calls]
  by (simp add: boot_run)

text \<open>A relay event without a fault: a full write of client input, or shell output that is sent.\<close>

fun smooth :: "syscalls \<times> event \<Rightarrow> bool" where
  "smooth (sys, SocketFrame (Some (Inr (Data d)))) \<longleftrightarrow> sys_writable sys = None \<and> sys_write sys = Inr (length d)"
| "smooth (sys, PtyReadable ready r) \<longleftrightarrow> ready = None \<and> sys_send sys = None \<and> (\<exists>b. r = Inr b \<and> b \<noteq> [])"
| "smooth _ \<longleftrightarrow> False"

fun relayed :: "conn \<Rightarrow> syscalls \<times> event \<Rightarrow> effect" where
  "relayed c (sys, SocketFrame (Some (Inr (Data d)))) = PtyWrite d"
| "relayed c (sys, PtyReadable ready (Inr b)) = SendFrame c (Data b)"
| "relayed c _ = Close c"

lemma smooth_step: "phase s = Relay c \<Longrightarrow> smooth e \<Longrightarrow> session_step s e = emit [relayed c e] s"
  by (cases e rule: smooth.cases) (auto simp: on_pty_readable_def Let_def)

text \<open>
  While no system call fails or falls short, the relay is transparent: any interleaving of
  client input and shell output is passed on byte for byte, frame for frame and in order, and
  nothing else about the session changes.
\<close>

theorem relay_is_transparent:
  assumes "phase s = Relay c" and "\<forall>e \<in> set es. smooth e"
  shows "run_session s es = s\<lparr>effects := effects s @ map (relayed c) es\<rparr>"
  using assms
proof (induction es arbitrary: s)
  case (Cons e es)
  then have "session_step s e = emit [relayed c e] s" by (simp add: smooth_step)
  with Cons show ?case by (simp add: emit_def)
qed simp

theorem relay_is_transparent_witness:
  "effects (run_session (run_session (start_session pty_ready) boot)
     [(quiet_calls, SocketFrame (Some (Inr (Data [108, 115, 10])))), (quiet_calls, PtyReadable None (Inr [111, 107]))]) =
   SpawnShell \<lparr>program = ''/bin/bash'', args = [''-l''], current_dir = Some ''/root'', env_vars = []\<rparr> #
   [PtyWrite [108, 115, 10], SendFrame 1 (Data [111, 107])]"
  using relay_is_transparent [of "run_session (start_session pty_ready) boot" 1
      "[(quiet_calls, SocketFrame (Some (Inr (Data [108, 115, 10])))), (quiet_calls, PtyReadable None (Inr [111, 107]))]"]
  by (simp add: boot_run quiet_calls_def)

text \<open>The bytes of client input that reached the terminal.\<close>

definition pty_input :: "effect list \<Rightarrow> bytes" where
  "pty_input es = concat (map (\<lambda>e. case e of PtyWrite d \<Rightarrow> d | _ \<Rightarrow> []) es)"

text \<open>How much of \<open>length d\<close> bytes the terminal takes; a full buffer takes none (\<open>WouldBlock\<close>).\<close>

definition accepted :: "io_error + nat \<Rightarrow> nat" where
  "accepted r = (case r of Inr n \<Rightarrow> n | Inl e \<Rightarrow> 0)"

text \<open>
  C40. Client input is lost when the terminal does not take it at once.  For any sequence of \<open>Data\<close>
  frames whose writes are short or would block (no other error), the terminal gets the accepted
  prefix of each frame and never the rest: the relay neither retries nor keeps the remainder.
\<close>

theorem short_writes_lose_input:
  assumes "phase s = Relay c"
    and "\<forall>(sys, d) \<in> set ins. sys_writable sys = None
           \<and> (\<forall>e. sys_write sys = Inl e \<longrightarrow> error_kind e = WouldBlock)"
  shows "pty_input (effects (run_session s (map (\<lambda>(sys, d). (sys, SocketFrame (Some (Inr (Data d))))) ins))) =
    pty_input (effects s) @ concat (map (\<lambda>(sys, d). take (accepted (sys_write sys)) d) ins)"
  using assms
proof (induction ins arbitrary: s)
  case (Cons p ins)
  obtain sys d where p: "p = (sys, d)" by (cases p)
  let ?s = "session_step s (sys, SocketFrame (Some (Inr (Data d))))"
  have "phase ?s = Relay c"
    and "pty_input (effects ?s) = pty_input (effects s) @ take (accepted (sys_write sys)) d"
    using Cons.prems p by (auto simp: accepted_def pty_input_def split: sum.splits)
  with Cons p show ?case by simp
qed simp

theorem short_writes_lose_input_witness:
  "pty_input (effects (run_session (run_session (start_session pty_ready) boot)
     [(quiet_calls, SocketFrame (Some (Inr (Data [1, 2, 3, 4, 5])))),
      (quiet_calls\<lparr>sys_write := Inl (OsError EAGAIN)\<rparr>, SocketFrame (Some (Inr (Data [6])))),
      (quiet_calls, SocketFrame (Some (Inr (Data [7, 8]))))])) = [1, 2, 3, 7, 8]"
  using short_writes_lose_input [of "run_session (start_session pty_ready) boot" 1
      "[(quiet_calls, [1, 2, 3, 4, 5]), (quiet_calls\<lparr>sys_write := Inl (OsError EAGAIN)\<rparr>, [6]), (quiet_calls, [7, 8])]"]
  by (simp add: boot_run quiet_calls_def accepted_def pty_input_def EAGAIN_def)

text \<open>
  Not every way of losing a client keeps the shell.  If the client's socket breaks while shell
  output is being sent to it, or the client sends bytes that are not a frame, the session ends with
  the error and hangs up the shell's process group.
\<close>

theorem broken_client_ends_session:
  assumes "phase s = Relay c" and "client_rx s = []" and "pgid s = Some g"
    and "b \<noteq> []" and "sys_send sys = Some e"
  shows "session_step s (sys, PtyReadable None (Inr b)) =
       s\<lparr>phase := Returned (Inl e),
         effects := effects s @ [SendFrame c (Data b), SignalGroup g SIGHUP, Close c]\<rparr>
    \<and> session_step s (sys, SocketFrame (Some (Inl e'))) =
       s\<lparr>phase := Returned (Inl e'), effects := effects s @ [SignalGroup g SIGHUP, Close c]\<rparr>"
  using assms by (simp_all add: on_pty_readable_def finish_def leave_def emit_def)

theorem broken_client_ends_session_witness:
  "phase (session_step (run_session (start_session pty_ready) boot)
     (quiet_calls\<lparr>sys_send := Some (OsError 32)\<rparr>, PtyReadable None (Inr [36]))) = Returned (Inl (OsError 32))"
  using broken_client_ends_session [of "run_session (start_session pty_ready) boot" 1 42 "[36]"
      "quiet_calls\<lparr>sys_send := Some (OsError 32)\<rparr>" "OsError 32"]
  by (simp add: boot_run quiet_calls_def)

text \<open>The events by which the task learns that the shell is gone, with the code each suggests.\<close>

fun shell_end_code :: "event \<Rightarrow> i32 option" where
  "shell_end_code (PtyReadable None (Inr [])) = Some 0"
| "shell_end_code (PtyReadable None (Inl e)) =
     (if raw_os_error e = Some EIO \<and> error_kind e \<noteq> WouldBlock then Some 0 else None)"
| "shell_end_code (ChildExit (Inr code)) = Some (case code of Some k \<Rightarrow> k | None \<Rightarrow> 1)"
| "shell_end_code _ = None"

text \<open>
  When the shell ends, the client's last frame is \<open>Exit\<close> with the code of the reaped child,
  whichever of the three events (end of file, \<open>EIO\<close>, child exit) came first; if the child cannot be
  reaped yet, or was killed by a signal, it is the code the event suggests (0, 0, or 1).
\<close>

theorem client_learns_exit_code:
  assumes "phase s = Relay c" and "client_rx s = []" and "pgid s = Some g" and "shell_end_code ev = Some k"
  shows "session_step s (sys, ev) =
    s\<lparr>phase := Returned (Inr ()),
      effects := effects s @
        [SendFrame c (Exit (case sys_try_wait sys of Some (Some k') \<Rightarrow> k' | _ \<Rightarrow> k)), SignalGroup g SIGHUP, Close c]\<rparr>"
proof -
  have "session_step s (sys, ev) = shell_exited sys c k s"
    using assms(1,4)
    by (cases ev rule: shell_end_code.cases) (auto simp: on_pty_readable_def on_child_exit_def split: if_splits)
  with assms show ?thesis
    by (simp add: shell_exited_def exit_code_def finish_def leave_def emit_def split: option.split)
qed

theorem client_learns_exit_code_witness:
  "last (effects (session_step (run_session (start_session pty_ready) boot)
     (quiet_calls\<lparr>sys_try_wait := Some (Some 7)\<rparr>, PtyReadable None (Inr [])))) = Close 1 \<and>
   SendFrame 1 (Exit 7) \<in> set (effects (session_step (run_session (start_session pty_ready) boot)
     (quiet_calls\<lparr>sys_try_wait := Some (Some 7)\<rparr>, PtyReadable None (Inr []))))"
  using client_learns_exit_code [of "run_session (start_session pty_ready) boot" 1 42 "PtyReadable None (Inr [])" 0
      "quiet_calls\<lparr>sys_try_wait := Some (Some 7)\<rparr>"]
  by (simp add: boot_run)

end
