(* ===== verification/Daemon_Props.thy ===== *)
theory Daemon_Props
  imports Daemon
begin

text \<open>
  What the daemon of theory \<open>Daemon\<close> promises its clients: a specification of the session registry
  and the refinement of every request to it, the listing, the ids, the life of the files, and the
  corners where a client gets less than it may expect.
\<close>

section \<open>Starting the daemon\<close>

lemma start_daemon_ok:
  assumes "path_parent p = Some q" and "secure_create_dir_all (w\<lparr>umask := 63\<rparr>) q = (Inr (), w1)"
    and "bind_unix_listener w1 p = (Inr (), w2)" and "write_file w2 (pid_file_path p) = Inr w3"
  shows "start_daemon w p fd None = (blank_daemon w3 p, fd)"
  using assms by (simp add: start_daemon_def Let_def next_round_def reap_def blank_daemon_def reap_sessions_def)

definition sample_ctl :: path where
  "sample_ctl = abs_path [''tmp'', ''ctl.sock'']"

definition sample_disk :: world where
  "sample_disk = sample_world\<lparr>umask := 63, nodes := (nodes sample_world)
     (sample_ctl \<mapsto> Sock 1000 384 True, abs_path [''tmp'', ''daemon.pid''] \<mapsto> RegFile 1000 384)\<rparr>"

lemma sample_start: "start_daemon sample_world sample_ctl fd None = (blank_daemon sample_disk sample_ctl, fd)"
proof (rule start_daemon_ok)
  show "path_parent sample_ctl = Some (abs_path [''tmp''])"
    by (simp add: sample_ctl_def path_parent_def abs_path_def)
  show "secure_create_dir_all (sample_world\<lparr>umask := 63\<rparr>) (abs_path [''tmp'']) = (Inr (), sample_world\<lparr>umask := 63\<rparr>)"
    by (subst secure_create_existing) (simp_all add: sample_world_simps)
  show "bind_unix_listener (sample_world\<lparr>umask := 63\<rparr>) sample_ctl =
      (Inr (), sample_world\<lparr>umask := 63, nodes := (nodes sample_world)(sample_ctl \<mapsto> Sock 1000 384 True)\<rparr>)"
    by (subst bind_unix_listener_free) (simp_all add: sample_ctl_def sample_world_simps)
  show "write_file (sample_world\<lparr>umask := 63, nodes := (nodes sample_world)(sample_ctl \<mapsto> Sock 1000 384 True)\<rparr>)
      (pid_file_path sample_ctl) = Inr sample_disk"
    by (simp add: write_file_def sample_disk_def sample_ctl_def sample_world_simps pid_file_path_def with_file_name_def)
qed

text \<open>A client that has connected, and its request.\<close>

definition request :: "conn \<Rightarrow> frame \<Rightarrow> daemon_event list" where
  "request c f = [AcceptConn (Inr c) (Inr 1000), ControlFrame (Some (Inr f)) pty_ready []]"

lemma pty_ready_start: "start_session pty_ready = blank_session ''/dev/pts/3''"
  by (simp add: start_session_def open_session_pty_def pty_ready_def checked_dup_def none_or_def)

lemma disk_fields [simp]:
  "disk (dlog es d) = disk d" "disk (answer c f d) = disk d" "disk (next_round d) = disk d"
  "disk (reap d) = disk d" "disk (stop d) = disk d" "disk (forget i g d) = disk d"
  "disk (insert_session i st d) = disk d" "disk (run_tasks es' d) = disk d" "disk (hand_off i c d) = disk d"
  "ctl_path (dlog es d) = ctl_path d" "ctl_path (answer c f d) = ctl_path d" "ctl_path (next_round d) = ctl_path d"
  "ctl_path (reap d) = ctl_path d" "ctl_path (stop d) = ctl_path d" "ctl_path (forget i g d) = ctl_path d"
  "ctl_path (insert_session i st d) = ctl_path d" "ctl_path (run_tasks es' d) = ctl_path d"
  "ctl_path (hand_off i c d) = ctl_path d" "ctl_path (shutdown d) = ctl_path d"
  by (simp_all add: dlog_def answer_def next_round_def reap_def stop_def forget_def insert_session_def
      run_tasks_def hand_off_def shutdown_def)

lemma request_run:
  "dphase d = Accepting \<Longrightarrow> uid (disk d) = 1000 \<Longrightarrow>
   run_daemon d (request c f) = handle_request c f pty_ready [] (d\<lparr>dphase := Reading c\<rparr>)"
  by (simp add: request_def verify_peer_uid_def)

lemma new_session_fields:
  assumes "\<not> name_taken (sessions d) (if name = [] then None else Some name)"
  shows "dphase (handle_new_session c name calls during d) = Accepting"
    "next_id (handle_new_session c name calls during d) = next_id d + 1"
    "disk (handle_new_session c name calls during d) = disk d"
    "daemon_log (handle_new_session c name calls during d) =
       daemon_log d @ [Reply c (SessionCreated (show_u32 (next_id d)))]"
  using assms by (simp_all add: handle_new_session_def Let_def)

lemma kill_session_fields:
  "dphase (handle_kill_session c t d) = Accepting" "next_id (handle_kill_session c t d) = next_id d"
  "disk (handle_kill_session c t d) = disk d"
  "\<exists>f. (\<forall>i. f \<noteq> SessionCreated i) \<and> daemon_log (handle_kill_session c t d) = daemon_log d @ [Reply c f, DropConn c]"
  by (auto simp: handle_kill_session_def Let_def no_such_session_def split: option.split)

lemma name_taken_None [simp]: "\<not> name_taken ss None"
  by (simp add: name_taken_def)

lemma sample_disk_uid [simp]: "uid sample_disk = 1000"
  by (simp add: sample_disk_def sample_world_def)

section \<open>The registry a client sees\<close>

text \<open>
  The abstract state is the table of live sessions and the next id.  A target means the session
  of that name, and only where there is none the session of that number.  Sessions may expire at
  any moment, which the specification leaves to its user (\<open>\<subseteq>\<^sub>m\<close> below).
\<close>

type_synonym reg = "(u32 \<Rightarrow> string option option) \<times> u32"

definition spec_target :: "(u32 \<Rightarrow> string option option) \<Rightarrow> string \<Rightarrow> u32 \<Rightarrow> bool" where
  "spec_target m t i \<longleftrightarrow>
     m i = Some (Some t) \<or> ((\<forall>j. m j \<noteq> Some (Some t)) \<and> parse_u32 t = Some i \<and> m i \<noteq> None)"

definition control_request :: "frame \<Rightarrow> bool" where
  "control_request f \<longleftrightarrow>
     (case f of NewSession n \<Rightarrow> True | Attach t \<Rightarrow> True | ListSessions \<Rightarrow> True
      | KillSession t \<Rightarrow> True | KillServer \<Rightarrow> True | _ \<Rightarrow> False)"

inductive registry_spec :: "reg \<Rightarrow> frame \<Rightarrow> frame \<Rightarrow> reg \<Rightarrow> bool" where
  spec_create: "n = [] \<or> (\<forall>i. m i \<noteq> Some (Some n)) \<Longrightarrow>
     registry_spec (m, k) (NewSession n) (SessionCreated (show_u32 k))
       (m(k \<mapsto> (if n = [] then None else Some n)), k + 1)"
| spec_duplicate: "n \<noteq> [] \<Longrightarrow> m i = Some (Some n) \<Longrightarrow>
     registry_spec (m, k) (NewSession n) (Error (''session name already exists: '' @ n)) (m, k)"
| spec_attach: "spec_target m t i \<Longrightarrow> registry_spec (m, k) (Attach t) Ok (m, k)"
| spec_attach_dead: "spec_target m t i \<Longrightarrow>
     registry_spec (m, k) (Attach t) (no_such_session t) (m(i := None), k)"
| spec_attach_none: "\<forall>i. \<not> spec_target m t i \<Longrightarrow> registry_spec (m, k) (Attach t) (no_such_session t) (m, k)"
| spec_list: "(\<forall>i. m i \<noteq> None \<longleftrightarrow> show_u32 i \<in> entry_id ` set es) \<Longrightarrow>
     registry_spec (m, k) ListSessions (SessionInfo es) (m, k)"
| spec_kill: "spec_target m t i \<Longrightarrow> registry_spec (m, k) (KillSession t) Ok (m(i := None), k)"
| spec_kill_none: "\<forall>i. \<not> spec_target m t i \<Longrightarrow> registry_spec (m, k) (KillSession t) (no_such_session t) (m, k)"
| spec_kill_server: "registry_spec (m, k) KillServer Ok (Map.empty, k)"
| spec_other: "\<not> control_request f \<Longrightarrow> registry_spec (m, k) f (Error ''unexpected frame type'') (m, k)"

inductive_simps registry_spec_simps:
  "registry_spec (m, k) (NewSession n) r s'"
  "registry_spec (m, k) (Attach t) r s'"
  "registry_spec (m, k) ListSessions r s'"
  "registry_spec (m, k) (KillSession t) r s'"
  "registry_spec (m, k) KillServer r s'"

lemma spec_target_resolve:
  assumes "table_inv ss"
  shows "spec_target (registry ss) t i \<longleftrightarrow> resolve_session ss t = Some i"
proof (cases "\<exists>j. registry ss j = Some (Some t)")
  case True
  then obtain j where j: "registry ss j = Some (Some t)" by blast
  moreover from j assms have "resolve_session ss t = Some j" by (rule resolve_name [rotated])
  moreover have "registry ss i = Some (Some t) \<Longrightarrow> i = j"
    using j assms unfolding table_inv_def by blast
  ultimately show ?thesis by (auto simp: spec_target_def)
next
  case False
  then have "resolve_session ss t =
      (case parse_u32 t of Some i \<Rightarrow> if registry ss i \<noteq> None then Some i else None | None \<Rightarrow> None)"
    using assms by (intro resolve_number) auto
  with False show ?thesis by (auto simp: spec_target_def split: option.splits)
qed

lemma registry_reap: "table_inv ss \<Longrightarrow> registry (reap_sessions ss) \<subseteq>\<^sub>m registry ss"
  by (auto simp: map_le_def registry_def table_inv_def map_of_reap dom_def split: option.splits if_splits)

lemma registry_dom: "registry ss i \<noteq> None \<longleftrightarrow> i \<in> fst ` set ss"
  by (simp add: registry_def map_of_eq_None_iff)

lemma entry_id_of_session [simp]: "entry_id (entry_of_session p) = show_u32 (fst p)"
  by (cases p) (simp add: entry_of_session_def split: option.split)

lemma entries_ids:
  "show_u32 i \<in> entry_id ` set (build_session_entries ss) \<longleftrightarrow> registry ss i \<noteq> None"
  unfolding registry_dom by (auto simp: build_session_entries_def image_image image_iff)

definition replies :: "daemon_effect list \<Rightarrow> (conn \<times> frame) list" where
  "replies es = List.map_filter (\<lambda>e. case e of Reply c f \<Rightarrow> Some (c, f) | DropConn c \<Rightarrow> None) es"

lemma replies_simps [simp]:
  "replies [] = []" "replies (es @ fs) = replies es @ replies fs"
  "replies (Reply c f # es) = (c, f) # replies es" "replies (DropConn c # es) = replies es"
  by (simp_all add: replies_def List.map_filter_def)

text \<open>One request of the concrete daemon is one step of the registry, up to sessions that expire.\<close>

definition simulates :: "conn \<Rightarrow> frame \<Rightarrow> daemon \<Rightarrow> daemon \<Rightarrow> bool" where
  "simulates c f d d' \<longleftrightarrow>
     (\<exists>m r m'. m \<subseteq>\<^sub>m registry (sessions d) \<and> registry_spec (m, next_id d) f r (m', next_id d')
        \<and> registry (sessions d') \<subseteq>\<^sub>m m' \<and> replies (daemon_log d') = replies (daemon_log d) @ [(c, r)])"

lemma simulates_new_session:
  assumes d: "daemon_inv d"
  shows "simulates c (NewSession name) d (handle_new_session c name calls during d)"
proof -
  let ?m = "registry (sessions d)" and ?nm = "if name = [] then None else Some name"
  have t: "table_inv (sessions d)" using d by (simp add: daemon_inv_def)
  show ?thesis
  proof (cases "name_taken (sessions d) ?nm")
    case True
    then obtain i where "name \<noteq> []" "?m i = Some (Some name)"
      using t by (auto simp: name_taken_iff table_inv_def split: if_splits)
    with True t show ?thesis
      unfolding simulates_def
      by (intro exI [of _ ?m] exI conjI, simp, simp add: handle_new_session_def Let_def registry_spec_simps, blast)
        (simp_all add: handle_new_session_def Let_def registry_reap)
  next
    case False
    then have free: "name = [] \<or> (\<forall>i. ?m i \<noteq> Some (Some name))"
      using t by (auto simp: name_taken_iff table_inv_def split: if_splits)
    let ?ss = "update_task (next_id d) (hand_over c) (fold run_task during
        (AList.update (next_id d) \<lparr>task = start_session calls, sname = ?nm\<rparr> (sessions d)))"
    have "table_inv ?ss"
      using daemon_inv_insert [OF d False, of "next_id d"] by (simp add: daemon_inv_def)
    from registry_reap [OF this] have "registry (reap_sessions ?ss) \<subseteq>\<^sub>m ?m(next_id d \<mapsto> ?nm)"
      by simp
    with False free show ?thesis
      unfolding simulates_def
      by (intro exI [of _ ?m] exI [of _ "SessionCreated (show_u32 (next_id d))"] exI [of _ "?m(next_id d \<mapsto> ?nm)"])
        (simp add: handle_new_session_def Let_def registry_spec_simps)
  qed
qed

lemma entry_key_of_session [simp]: "entry_key (entry_of_session p) = fst p"
  by (simp add: entry_key_def)

lemma sorted_entries_unique:
  assumes "distinct (map fst ss)" and "distinct (map fst ss')" and "set ss = set ss'"
  shows "sort_key entry_key (map entry_of_session ss) = sort_key entry_key (map entry_of_session ss')"
proof (rule map_sorted_distinct_set_unique [of entry_key])
  show "inj_on entry_key
      (set (sort_key entry_key (map entry_of_session ss)) \<union> set (sort_key entry_key (map entry_of_session ss')))"
    using assms(1,3) by (auto simp: inj_on_def distinct_map)
  have "distinct (map entry_key (sort_key entry_key (map entry_of_session xs)))"
    if "distinct (map fst xs)" for xs
  proof -
    have "mset (map entry_key (sort_key entry_key (map entry_of_session xs))) = mset (map fst xs)"
      by (simp add: comp_def image_mset.compositionality)
    with that show ?thesis using mset_eq_imp_distinct_iff by blast
  qed
  with assms(1,2) show "distinct (map entry_key (sort_key entry_key (map entry_of_session ss)))"
    "distinct (map entry_key (sort_key entry_key (map entry_of_session ss')))" by blast+
qed (use assms in simp_all)

lemma simulates_missing:
  assumes "daemon_inv d" and "resolve_session (reap_sessions (sessions d)) t = None"
    and "f = Attach t \<or> f = KillSession t"
  shows "simulates c f d (next_round (answer c (no_such_session t) (reap d)))"
proof -
  let ?m = "registry (reap_sessions (sessions d))"
  have ti: "table_inv (sessions d)" using assms(1) by (simp add: daemon_inv_def)
  then have "\<forall>i. \<not> spec_target ?m t i" using assms(2) spec_target_resolve [of "reap_sessions (sessions d)" t] by simp
  then have "registry_spec (?m, k) f (no_such_session t) (?m, k)" for k
    using assms(3) by (auto intro: registry_spec.intros)
  with ti show ?thesis
    unfolding simulates_def by (intro exI conjI) (auto intro: registry_reap)
qed

lemma simulates_attach:
  assumes d: "daemon_inv d"
  shows "simulates c (Attach t) d (handle_attach c t during d)"
proof (cases "resolve_session (reap_sessions (sessions d)) t")
  case None
  with simulates_missing [OF d None] show ?thesis by (simp add: handle_attach_def Let_def)
next
  case (Some i)
  let ?ss = "reap_sessions (sessions d)" and ?m = "registry (reap_sessions (sessions d))"
  have ti: "table_inv ?ss" and le: "?m \<subseteq>\<^sub>m registry (sessions d)"
    using d by (simp_all add: daemon_inv_def registry_reap)
  have target: "spec_target ?m t i" using Some spec_target_resolve [OF ti] by simp
  then obtain st where st: "map_of ?ss i = Some st" by (auto simp: spec_target_def registry_def)
  show ?thesis
  proof (cases "ended (phase (task st))")
    case True
    have "registry (reap_sessions (AList.delete i ?ss)) \<subseteq>\<^sub>m ?m(i := None)"
      using registry_reap [OF table_inv_delete [OF ti]] by simp
    with True Some st le target show ?thesis
      unfolding simulates_def
      by (intro exI [of _ ?m] exI [of _ "no_such_session t"] exI [of _ "?m(i := None)"])
        (auto simp: handle_attach_def Let_def intro: spec_attach_dead)
  next
    case False
    have "registry (reap_sessions (update_task i (hand_over c) (fold run_task during ?ss))) \<subseteq>\<^sub>m ?m"
      using registry_reap [of "update_task i (hand_over c) (fold run_task during ?ss)"] ti by simp
    with False Some st le target show ?thesis
      unfolding simulates_def
      by (intro exI [of _ ?m] exI [of _ Ok] exI [of _ ?m])
        (auto simp: handle_attach_def Let_def intro: spec_attach)
  qed
qed

lemma simulates_kill:
  assumes d: "daemon_inv d"
  shows "simulates c (KillSession t) d (handle_kill_session c t d)"
proof (cases "resolve_session (reap_sessions (sessions d)) t")
  case None
  with simulates_missing [OF d None] show ?thesis by (simp add: handle_kill_session_def Let_def)
next
  case (Some i)
  let ?ss = "reap_sessions (sessions d)" and ?m = "registry (reap_sessions (sessions d))"
  have ti: "table_inv ?ss" and le: "?m \<subseteq>\<^sub>m registry (sessions d)"
    using d by (simp_all add: daemon_inv_def registry_reap)
  have "spec_target ?m t i" using Some spec_target_resolve [OF ti] by simp
  moreover have "registry (reap_sessions (AList.delete i ?ss)) \<subseteq>\<^sub>m ?m(i := None)"
    using registry_reap [OF table_inv_delete [OF ti]] by simp
  ultimately show ?thesis
    using Some le unfolding simulates_def
    by (intro exI [of _ ?m] exI [of _ Ok] exI [of _ "?m(i := None)"])
      (auto simp: handle_kill_session_def Let_def intro: spec_kill)
qed

lemma simulates_list:
  assumes "daemon_inv d"
  shows "simulates c ListSessions d (handle_list c d)"
proof -
  let ?ss = "reap_sessions (sessions d)"
  have "registry_spec (registry ?ss, k) ListSessions (SessionInfo (build_session_entries ?ss)) (registry ?ss, k)" for k
    by (rule spec_list) (simp only: entries_ids, simp)
  then show ?thesis
    using assms unfolding simulates_def
    by (intro exI conjI) (auto simp: handle_list_def Let_def daemon_inv_def intro: registry_reap)
qed

lemma simulates_kill_server: "simulates c KillServer d (stop (answer c Ok (shutdown d)))"
  unfolding simulates_def
  by (intro exI [of _ "registry (sessions d)"] exI [of _ Ok] exI [of _ Map.empty])
    (auto simp: registry_def map_le_def intro: spec_kill_server)

lemma simulates_other:
  "daemon_inv d \<Longrightarrow> \<not> control_request f \<Longrightarrow>
   simulates c f d (next_round (answer c (Error ''unexpected frame type'') d))"
  unfolding simulates_def
  by (intro exI [of _ "registry (sessions d)"] exI [of _ "Error ''unexpected frame type''"]
      exI [of _ "registry (sessions d)"])
    (auto simp: daemon_inv_def intro: spec_other registry_reap)

lemma handle_request_other:
  "\<not> control_request f \<Longrightarrow>
   handle_request c f calls during d = next_round (answer c (Error ''unexpected frame type'') d)"
  by (cases f) (simp_all add: control_request_def)

section \<open>Properties of the daemon\<close>

definition fresh_daemon :: daemon where
  "fresh_daemon = blank_daemon sample_disk sample_ctl"

lemma fresh_daemon_inv: "daemon_inv fresh_daemon"
  by (simp add: fresh_daemon_def)

lemma step_simulates:
  assumes "daemon_inv d" and "dphase d = Reading c"
  shows "simulates c f d (daemon_step d (ControlFrame (Some (Inr f)) calls during))"
proof (cases "control_request f")
  case True
  then show ?thesis
    using assms simulates_new_session simulates_attach simulates_kill simulates_list simulates_kill_server
    by (cases f) (simp_all add: control_request_def)
next
  case False
  with assms simulates_other show ?thesis by (simp add: handle_request_other)
qed



text \<open>
  C23. In every state the daemon reaches from its start, whatever requests, signals and task steps
  occur, no two sessions share an id or a name, and every session is a task of theory \<open>Server\<close> in
  a reachable state.
\<close>

theorem sessions_stay_distinct:
  "let ss = sessions (run_daemon (fst (start_daemon w p fd sg)) es) in
   distinct (map fst ss) \<and> (\<forall>i j n. registry ss i = Some (Some n) \<longrightarrow> registry ss j = Some (Some n) \<longrightarrow> i = j)
   \<and> tasks_ok ss"
  using control_loop.run_inv [OF daemon_inv_start, of w p fd sg es]
  unfolding daemon_inv_def table_inv_def Let_def by blast

theorem sessions_stay_distinct_witness:
  "distinct (map fst (sessions (run_daemon (fst (start_daemon sample_world sample_ctl True None))
     (request 1 (NewSession ''a'') @ request 2 (NewSession ''a'')))))"
  using sessions_stay_distinct [of sample_world sample_ctl True None
      "request 1 (NewSession ''a'') @ request 2 (NewSession ''a'')"]
  unfolding Let_def by (elim conjE)

text \<open>
  C24. What a request finds does not depend on the iteration order of the hash map: two tables with
  the same sessions resolve every target to the same session, agree on which names are taken, and
  give the same list of entries.
\<close>

theorem hash_order_is_invisible:
  assumes "table_inv ss" and "mset ss' = mset ss"
  shows "resolve_session ss' t = resolve_session ss t \<and> name_taken ss' nm = name_taken ss nm
    \<and> build_session_entries ss' = build_session_entries ss"
proof -
  have d: "distinct (map fst ss)" "distinct (map fst ss')" and s: "set ss' = set ss"
    using assms mset_eq_imp_distinct_iff [of "map fst ss'" "map fst ss"] mset_eq_setD
    by (simp_all add: table_inv_def)
  then have "map_of ss' = map_of ss" using map_of_inject_set [OF d(2,1)] by simp
  then have m: "registry ss' = registry ss" by (simp add: registry_def fun_eq_iff)
  have ti: "table_inv ss'" using assms(1) d m by (simp add: table_inv_def)
  have "resolve_session ss' t = Some i \<longleftrightarrow> resolve_session ss t = Some i" for i
    using spec_target_resolve [OF assms(1)] spec_target_resolve [OF ti] m by metis
  then have "resolve_session ss' t = resolve_session ss t" by (metis not_None_eq)
  moreover have "name_taken ss' nm = name_taken ss nm" using d m by (simp add: name_taken_iff)
  moreover have "build_session_entries ss' = build_session_entries ss"
    unfolding build_session_entries_def using d s by (intro sorted_entries_unique)
  ultimately show ?thesis by blast
qed

theorem hash_order_is_invisible_witness:
  "resolve_session [(1, \<lparr>task = start_session pty_ready, sname = None\<rparr>),
                    (0, \<lparr>task = start_session pty_ready, sname = Some ''w''\<rparr>)] ''w'' = Some 0"
proof -
  let ?a = "(0, \<lparr>task = start_session pty_ready, sname = Some ''w''\<rparr>)"
  let ?b = "(1, \<lparr>task = start_session pty_ready, sname = None\<rparr>)"
  have "table_inv [?a, ?b]" by (auto simp: table_inv_def registry_def split: if_splits)
  moreover have "mset [?b, ?a] = mset [?a, ?b]" by simp
  ultimately have "resolve_session [?b, ?a] ''w'' = resolve_session [?a, ?b] ''w''"
    using hash_order_is_invisible by blast
  then show ?thesis by (simp add: resolve_session_def)
qed

text \<open>
  C25. \<open>list-sessions\<close> answers with exactly one entry per session whose task has not finished, in
  strictly increasing order of the numeric id, each the entry of that session.
\<close>

theorem listing_is_sorted_and_complete:
  assumes "daemon_inv d" and "dphase d = Reading c"
    and "d' = daemon_step d (ControlFrame (Some (Inr ListSessions)) calls during)"
  shows "\<exists>es. replies (daemon_log d') = replies (daemon_log d) @ [(c, SessionInfo es)]
    \<and> sorted_wrt (<) (map entry_key es)
    \<and> set es = {entry_of_session (i, st) | i st. map_of (sessions d) i = Some st \<and> \<not> finished (task st)}"
proof -
  let ?ss = "reap_sessions (sessions d)"
  let ?es = "build_session_entries ?ss"
  have ti: "table_inv (sessions d)" "distinct (map fst ?ss)" "distinct (map fst (sessions d))"
    using assms(1) table_inv_reap by (simp_all add: daemon_inv_def table_inv_def)
  have "mset (map entry_key ?es) = mset (map fst ?ss)"
    by (simp add: build_session_entries_def comp_def image_mset.compositionality)
  then have "distinct (map entry_key ?es)" using ti(2) mset_eq_imp_distinct_iff by blast
  moreover have "sorted (map entry_key ?es)" by (simp add: build_session_entries_def)
  ultimately have "sorted_wrt (<) (map entry_key ?es)" by (simp add: strict_sorted_iff)
  moreover have "set ?es = {entry_of_session (i, st) | i st. map_of (sessions d) i = Some st \<and> \<not> finished (task st)}"
    using ti(3) by (force simp: build_session_entries_def reap_sessions_def)
  ultimately show ?thesis using assms(2,3) by (simp add: handle_list_def Let_def)
qed

theorem listing_is_sorted_and_complete_witness:
  "\<exists>es. replies (daemon_log (daemon_step (fresh_daemon\<lparr>dphase := Reading 4\<rparr>)
      (ControlFrame (Some (Inr ListSessions)) pty_ready []))) = [(4, SessionInfo es)] \<and> set es = {}"
  using listing_is_sorted_and_complete [of "fresh_daemon\<lparr>dphase := Reading 4\<rparr>" 4 _ pty_ready "[]", OF _ _ refl]
  by (simp add: fresh_daemon_inv) (simp add: fresh_daemon_def blank_daemon_def)

text \<open>The ids handed out, in order.\<close>

definition created_ids :: "daemon_effect list \<Rightarrow> string list" where
  "created_ids es = List.map_filter (\<lambda>p. case snd p of SessionCreated i \<Rightarrow> Some i | _ \<Rightarrow> None) (replies es)"

lemma created_ids_append [simp]: "created_ids (es @ fs) = created_ids es @ created_ids fs"
  by (simp add: created_ids_def List.map_filter_def)

lemma created_ids_simps [simp]:
  "created_ids [] = []" "created_ids (DropConn c # es) = created_ids es"
  "created_ids (Reply c (SessionCreated i) # es) = i # created_ids es"
  "(\<And>i. f \<noteq> SessionCreated i) \<Longrightarrow> created_ids (Reply c f # es) = created_ids es"
  by (auto simp: created_ids_def List.map_filter_def split: frame.split)

definition ids_inv :: "daemon \<Rightarrow> bool" where
  "ids_inv d \<longleftrightarrow>
     (let n = length (created_ids (daemon_log d))
      in created_ids (daemon_log d) = map (\<lambda>k. show_u32 (of_nat k)) [0..<n] \<and> next_id d = of_nat n)"

lemma ids_inv_cong:
  "created_ids (daemon_log d') = created_ids (daemon_log d) \<Longrightarrow> next_id d' = next_id d \<Longrightarrow> ids_inv d' = ids_inv d"
  by (simp add: ids_inv_def)

lemma ids_inv_request: "ids_inv d \<Longrightarrow> ids_inv (handle_request c f calls during d)"
proof (cases f)
  case (NewSession name)
  assume "ids_inv d"
  with NewSession show ?thesis by (simp add: handle_new_session_def Let_def ids_inv_def)
qed (simp_all add: ids_inv_def handle_attach_def handle_list_def handle_kill_session_def no_such_session_def
    Let_def split: option.split)

lemma ids_inv_step: "ids_inv d \<Longrightarrow> ids_inv (daemon_step d e)"
proof (cases e)
  case (ControlFrame r calls during)
  assume i: "ids_inv d"
  have "ids_inv (next_round (dlog [DropConn c] d))" for c
    using i by (subst ids_inv_cong [of _ d]) simp_all
  with ControlFrame i show ?thesis
    by (auto simp: ids_inv_request split: daemon_phase.split option.split sum.split)
next
  case (AcceptConn r cred)
  assume i: "ids_inv d"
  with AcceptConn show ?thesis by (subst ids_inv_cong [of _ d]) (simp_all split: sum.split)
next
  case StopSignal
  assume i: "ids_inv d"
  with StopSignal show ?thesis by (subst ids_inv_cong [of _ d]) simp_all
next
  case (TaskEvent i ev)
  assume "ids_inv d"
  with TaskEvent show ?thesis by (subst ids_inv_cong [of _ d]) (simp_all split: daemon_phase.split)
qed

interpretation id_counter: step_machine daemon_step ids_inv
  by unfold_locales (rule ids_inv_step)

text \<open>
  C26. Ids are handed out in sequence from 0 and wrap only after \<open>2 ^ 32\<close> sessions: in a run that
  creates at most that many, no two sessions ever get the same id, even after one is killed.
\<close>

theorem ids_are_sequential:
  assumes "created_ids (daemon_log (run_daemon (fst (start_daemon w p fd sg)) es)) = ids" and "length ids \<le> 2 ^ 32"
  shows "ids = map show_nat [0..<length ids] \<and> distinct ids"
proof -
  let ?d0 = "fst (start_daemon w p fd sg)"
  have "daemon_log ?d0 = []" "next_id ?d0 = 0"
    by (auto simp: start_daemon_def blank_daemon_def Let_def split: prod.split sum.split option.split)
  then have "ids_inv ?d0" by (simp add: ids_inv_def)
  from id_counter.run_inv [OF this, of es] assms(1)
  have "ids = map (\<lambda>k. show_u32 (of_nat k)) [0..<length ids]" by (simp add: ids_inv_def Let_def)
  also have "\<dots> = map show_nat [0..<length ids]"
    using assms(2) by (auto simp: show_u32_def unat_of_nat)
  finally have "ids = map show_nat [0..<length ids]" .
  moreover from this have "distinct ids" by (metis distinct_map distinct_upt inj_on_def show_nat_inject)
  ultimately show ?thesis ..
qed

lemma created_ids_kill [simp]:
  "created_ids (daemon_log (handle_kill_session c t d)) = created_ids (daemon_log d)"
  using kill_session_fields(4) [of c t d] by auto

theorem ids_are_sequential_witness:
  "created_ids (daemon_log (run_daemon (fst (start_daemon sample_world sample_ctl True None))
     (request 1 (NewSession []) @ request 2 (KillSession (show_nat 0)) @ request 3 (NewSession [])))) =
   [show_nat 0, show_nat 1]"
proof -
  let ?ids = "created_ids (daemon_log (run_daemon (fst (start_daemon sample_world sample_ctl True None))
     (request 1 (NewSession []) @ request 2 (KillSession (show_nat 0)) @ request 3 (NewSession []))))"
  have len: "length ?ids = 2"
    by (simp add: sample_start request_run new_session_fields kill_session_fields blank_daemon_def)
  have "length ?ids \<le> 2 ^ 32" unfolding len by simp
  from ids_are_sequential [OF refl this] have "?ids = map show_nat [0..<length ?ids]" ..
  also have "\<dots> = [show_nat 0, show_nat 1]" unfolding len by (simp add: upt_rec)
  finally show ?thesis .
qed



text \<open>
  Killing a session aborts its task, which hangs up the shell's process group, and removes it
  from the table; no other live session changes.
\<close>

theorem kill_session_hangs_up:
  assumes "daemon_inv d" and "dphase d = Reading c"
    and "resolve_session (reap_sessions (sessions d)) t = Some i"
    and "map_of (sessions d) i = Some st" and "\<not> ended (phase (task st))" and "pgid (task st) = Some g"
    and "d' = daemon_step d (ControlFrame (Some (Inr (KillSession t))) calls during)"
  shows "map_of (sessions d') = (map_of (reap_sessions (sessions d)))(i := None)
    \<and> (\<exists>s. retired d' = retired d @ reaped (sessions d) @ [s]
          \<and> phase s = Aborted \<and> SignalGroup g SIGHUP \<in> set (effects s))
    \<and> replies (daemon_log d') = replies (daemon_log d) @ [(c, Ok)]"
proof -
  have ti: "table_inv (sessions d)" and ti': "table_inv (reap_sessions (sessions d))"
    using assms(1) by (simp_all add: daemon_inv_def)
  have "registry (reap_sessions (sessions d)) i \<noteq> None"
    using table.lookup_live [OF ti' assms(3)] .
  then have live: "map_of (reap_sessions (sessions d)) i = Some st"
    using assms(4) ti by (auto simp: registry_def map_of_reap table_inv_def split: if_splits)
  have d': "d' = next_round (answer c Ok (forget i abort_task (reap d)))"
    using assms(2,3,7) by (simp add: handle_kill_session_def Let_def)
  have "map_of (reap_sessions (AList.delete i (reap_sessions (sessions d)))) = map_of (AList.delete i (reap_sessions (sessions d)))"
    using ti' by (intro ext) (auto simp: map_of_reap distinct_delete table_inv_def delete_conv'
        ti [unfolded table_inv_def, THEN conjunct1] split: option.split)
  then have "map_of (sessions d') = (map_of (reap_sessions (sessions d)))(i := None)"
    by (simp add: d' delete_conv')
  moreover have "phase (drop_senders (abort_task (task st))) = Aborted"
    "SignalGroup g SIGHUP \<in> set (effects (drop_senders (abort_task (task st))))"
    using assms(5,6) by (simp_all add: abort_task_def drop_senders_def)
  ultimately show ?thesis using live by (simp add: d')
qed

lemma session_reachable_runs: "session_reachable s \<Longrightarrow> session_reachable (run_session s es)"
  by (induction es arbitrary: s) (auto intro: stepped)

text \<open>A daemon with one session, whose task is in its relay loop.\<close>

definition busy_daemon :: "string option \<Rightarrow> daemon" where
  "busy_daemon nm = fresh_daemon\<lparr>dphase := Reading 5, next_id := 1,
     sessions := [(0, \<lparr>task = run_session (start_session pty_ready) boot, sname = nm\<rparr>)]\<rparr>"

lemma busy_daemon_inv: "daemon_inv (busy_daemon nm)"
  using session_reachable_runs [OF started, of pty_ready boot]
  by (auto simp: busy_daemon_def fresh_daemon_def blank_daemon_def daemon_inv_def table_inv_def registry_def
      tasks_ok_def tasks_of_def split: if_splits)

theorem kill_session_hangs_up_witness:
  "\<exists>s. retired (daemon_step (busy_daemon (Some ''w'')) (ControlFrame (Some (Inr (KillSession ''w''))) pty_ready [])) = [s]
     \<and> phase s = Aborted \<and> SignalGroup 42 SIGHUP \<in> set (effects s)"
proof -
  let ?d = "busy_daemon (Some ''w'')"
  have s: "sessions ?d = [(0, \<lparr>task = run_session (start_session pty_ready) boot, sname = Some ''w''\<rparr>)]"
    "dphase ?d = Reading 5" "retired ?d = []"
    by (simp_all add: busy_daemon_def fresh_daemon_def blank_daemon_def)
  have "resolve_session (reap_sessions (sessions ?d)) ''w'' = Some 0"
    by (simp add: s reap_sessions_def resolve_session_def boot_run)
  from kill_session_hangs_up [OF busy_daemon_inv s(2) this, of _ 42, OF _ _ _ refl]
  show ?thesis by (simp add: s reaped_def boot_run)
qed

text \<open>
  A name may look like a number, and names win: if some session is named like the id of
  another one, that id means the named session, so the other one cannot be attached or killed by
  the id the daemon printed for it.
\<close>

theorem numeric_name_shadows_id:
  assumes "daemon_inv d" and "registry (sessions d) i = Some (Some (show_u32 j))" and "j \<noteq> i"
  shows "resolve_session (sessions d) (show_u32 j) = Some i"
  using assms resolve_name by (simp add: daemon_inv_def)

theorem numeric_name_shadows_id_witness:
  "let ss = [(0, \<lparr>task = start_session pty_ready, sname = None\<rparr>),
             (1, \<lparr>task = start_session pty_ready, sname = Some (show_u32 0)\<rparr>)]
   in resolve_session ss (show_u32 0) = Some 1"
proof -
  let ?ss = "[(0 :: u32, \<lparr>task = start_session pty_ready, sname = None\<rparr>),
             (1, \<lparr>task = start_session pty_ready, sname = Some (show_u32 0)\<rparr>)]"
  have "daemon_inv (fresh_daemon\<lparr>sessions := ?ss\<rparr>)"
    by (auto simp: fresh_daemon_def blank_daemon_def daemon_inv_def table_inv_def registry_def
        tasks_ok_def tasks_of_def started split: if_splits)
  from numeric_name_shadows_id [OF this, of 1 0] show ?thesis by (simp add: registry_def)
qed

text \<open>
  A dead session can block its name.  \<open>new-session\<close> is the one request that does not reap
  first: if the session of that name has finished since the loop last came round, the name is
  refused, although after reaping (as every other request does) it would be free.
\<close>

theorem dead_session_blocks_name:
  assumes "daemon_inv d" and "dphase d = Reading c" and "n \<noteq> []"
    and "map_of (sessions d) i = Some st" and "sname st = Some n" and "finished (task st)"
  shows "replies (daemon_log (daemon_step d (ControlFrame (Some (Inr (NewSession n))) calls during))) =
      replies (daemon_log d) @ [(c, Error (''session name already exists: '' @ n))]
    \<and> \<not> name_taken (reap_sessions (sessions d)) (Some n)"
proof -
  have ti: "table_inv (sessions d)" "table_inv (reap_sessions (sessions d))"
    using assms(1) by (simp_all add: daemon_inv_def)
  have r: "registry (sessions d) i = Some (Some n)" using assms(4,5) by (simp add: registry_def)
  then have taken: "name_taken (sessions d) (Some n)"
    using ti(1) by (auto simp: name_taken_iff table_inv_def)
  have "registry (reap_sessions (sessions d)) j \<noteq> Some (Some n)" for j
  proof
    assume j: "registry (reap_sessions (sessions d)) j = Some (Some n)"
    then have "registry (sessions d) j = Some (Some n)"
      using registry_reap [OF ti(1)] by (auto simp: map_le_def dom_def)
    then have "j = i" using r ti(1) unfolding table_inv_def by blast
    with j assms(4,6) ti(1) show False by (simp add: registry_def map_of_reap table_inv_def)
  qed
  then have "\<not> name_taken (reap_sessions (sessions d)) (Some n)"
    using ti(2) by (simp add: name_taken_iff table_inv_def)
  with taken assms(2,3) show ?thesis by (simp add: handle_new_session_def Let_def)
qed

theorem dead_session_blocks_name_witness:
  "let d = run_daemon (busy_daemon (Some ''w''))
       [TaskEvent 0 (quiet_calls, ChildExit (Inr (Some 0))), TaskEvent 0 (quiet_calls, JoinReady)]
   in replies (daemon_log (daemon_step d (ControlFrame (Some (Inr (NewSession ''w''))) pty_ready []))) =
        [(5, Error ''session name already exists: w'')]"
proof -
  let ?d = "run_daemon (busy_daemon (Some ''w''))
       [TaskEvent 0 (quiet_calls, ChildExit (Inr (Some 0))), TaskEvent 0 (quiet_calls, JoinReady)]"
  have s: "dphase ?d = Reading 5" "daemon_log ?d = []"
    by (simp_all add: busy_daemon_def fresh_daemon_def blank_daemon_def)
  have "\<exists>st. map_of (sessions ?d) 0 = Some st \<and> sname st = Some ''w'' \<and> finished (task st)"
    by (simp add: busy_daemon_def fresh_daemon_def blank_daemon_def run_task_def update_task_def boot_run
        on_child_exit_def shell_exited_def finish_def)
  then obtain st where st: "map_of (sessions ?d) 0 = Some st" "sname st = Some ''w''" "finished (task st)" by blast
  from dead_session_blocks_name [OF control_loop.run_inv [OF busy_daemon_inv] s(1) _ st] s(2)
  show ?thesis unfolding Let_def by simp
qed

text \<open>
  A client that connects and stays silent stops the daemon: until its first frame (or the end
  of its connection) arrives, no other client is accepted, no request is answered and \<open>SIGTERM\<close> and
  \<open>SIGINT\<close> have no effect; only the session tasks go on.
\<close>

theorem silent_client_blocks_daemon:
  assumes "dphase d = Reading c" and "\<forall>e \<in> set es. \<forall>r calls during. e \<noteq> ControlFrame r calls during"
  shows "\<exists>ss. run_daemon d es = d\<lparr>sessions := ss\<rparr> \<and> registry ss = registry (sessions d)"
  using assms
proof (induction es arbitrary: d)
  case Nil
  have "run_daemon d [] = d\<lparr>sessions := sessions d\<rparr>" by simp
  then show ?case by blast
next
  case (Cons e es)
  then have "\<exists>ss. daemon_step d e = d\<lparr>sessions := ss\<rparr> \<and> registry ss = registry (sessions d)"
  proof (cases e)
    case (TaskEvent i ev)
    with Cons.prems show ?thesis by (auto intro: exI [of _ "run_task (i, ev) (sessions d)"])
  qed (auto intro: exI [of _ "sessions d"])
  then obtain ss where ss: "daemon_step d e = d\<lparr>sessions := ss\<rparr>" "registry ss = registry (sessions d)" by blast
  with Cons.IH [of "d\<lparr>sessions := ss\<rparr>"] Cons.prems obtain ss' where
    "run_daemon (d\<lparr>sessions := ss\<rparr>) es = d\<lparr>sessions := ss, sessions := ss'\<rparr>" "registry ss' = registry ss" by auto
  with ss show ?case by auto
qed

theorem silent_client_blocks_daemon_witness:
  "dphase (run_daemon fresh_daemon [AcceptConn (Inr 1) (Inr 1000), StopSignal, AcceptConn (Inr 2) (Inr 1000), StopSignal])
     = Reading 1"
  using silent_client_blocks_daemon [of "fresh_daemon\<lparr>dphase := Reading 1\<rparr>" 1
      "[StopSignal, AcceptConn (Inr 2) (Inr 1000), StopSignal]"]
  by (auto simp: verify_peer_uid_def fresh_daemon_def blank_daemon_def)

lemma start_daemon_accepting:
  assumes "start_daemon w p fd sg = (d, ready)" and "dphase d = Accepting"
  obtains w1 w2 w3 where "bind_unix_listener w1 p = (Inr (), w2)" "write_file w2 (pid_file_path p) = Inr w3"
    "d = blank_daemon w3 p" "ready = fd"
  using assms
  by (auto simp: start_daemon_def Let_def next_round_def reap_def blank_daemon_def reap_sessions_def
      split: prod.splits sum.splits option.splits)

lemma remove_quietly_gone:
  assumes "nodes w p = Some n" and "\<not> is_dir n" and "may_create w p"
  shows "nodes (remove_quietly w p) p = None"
  using assms by (simp add: remove_quietly_def remove_file_def)

lemma remove_quietly_frame: "only_changes {p} w (remove_quietly w p)"
  using remove_file_call.call_frame by (auto simp: remove_quietly_def split: sum.split)

lemma write_file_Inr: "write_file w p = Inr w' \<Longrightarrow> \<exists>n. nodes w' p = Some n \<and> \<not> is_dir n"
  by (auto simp: write_file_def split: option.splits node.splits if_splits)



text \<open>
  A control socket named by one relative component has the parent \<open>''\<close>, which does not exist and
  cannot be created: the daemon cannot start there.
\<close>

lemma relative_socket_cannot_start:
  assumes "nodes w (rel_path []) = None"
  shows "start_daemon w (rel_path [f]) fd sg =
    ((blank_daemon (w\<lparr>umask := 63\<rparr>) (rel_path [f]))\<lparr>dphase := Stopped (Inl (OsError ENOENT))\<rparr>, False)"
proof -
  let ?w = "w\<lparr>umask := 63\<rparr>"
  have q: "path_parent (rel_path [f]) = Some (rel_path [])" "path_parent (rel_path []) = None"
    by (simp_all add: rel_path_def path_parent_def)
  have n: "\<not> path_exists ?w (rel_path [])" using assms by (simp add: path_exists_def)
  have "secure_create_dir_all ?w (rel_path []) = (Inl (OsError ENOENT), ?w)"
    unfolding secure_create_step [OF n] q option.case
    using assms q by (simp add: create_dir_def parent_ready_def)
  then show ?thesis by (simp add: start_daemon_def Let_def q)
qed

text \<open>
  If writing the PID file fails, the parent has already been told that the daemon is ready, and
  the socket stays behind; so does everything when \<open>accept\<close> fails.
\<close>

lemma pid_file_failure_after_ready:
  assumes "path_parent p = Some q" and "secure_create_dir_all (w\<lparr>umask := 63\<rparr>) q = (Inr (), w1)"
    and "bind_unix_listener w1 p = (Inr (), w2)" and "write_file w2 (pid_file_path p) = Inl e"
  shows "snd (start_daemon w p True sg) \<and> dphase (fst (start_daemon w p True sg)) = Stopped (Inl e)
    \<and> nodes (disk (fst (start_daemon w p True sg))) p = Some (Sock (uid w1) mode_0600 True)"
  using assms bind_unix_listener_spec(2) [of w1 p]
  by (simp add: start_daemon_def Let_def blank_daemon_def)

lemma accept_error_leaves_files:
  "dphase d = Accepting \<Longrightarrow> daemon_step d (AcceptConn (Inl e) cred) = d\<lparr>dphase := Stopped (Inl e)\<rparr>"
  by simp

end
