(* ===== verification/Ownership.thy ===== *)
theory Ownership
  imports Daemon_Props
begin

text \<open>
  The daemon and all its session tasks together: how connections move from the accept loop through
  the handlers into the tasks, and that each ends up with at most one owner.
\<close>

section \<open>Who owns a connection\<close>

text \<open>How many of the tasks have been given connection \<open>x\<close>.\<close>

definition owners :: "conn \<Rightarrow> session list \<Rightarrow> nat" where
  "owners x ts = length (filter (\<lambda>s. x \<in> seen s) ts)"

abbreviation tasks :: "sessions \<Rightarrow> session list" where
  "tasks ss \<equiv> map (\<lambda>p. task (snd p)) ss"

lemma owners_simps [simp]:
  "owners x [] = 0" "owners x (ts @ us) = owners x ts + owners x us"
  "owners x (s # ts) = (if x \<in> seen s then 1 else 0) + owners x ts"
  by (simp_all add: owners_def)

lemma owners_zero: "owners x ts = 0 \<longleftrightarrow> (\<forall>s \<in> set ts. x \<notin> seen s)"
  by (auto simp: owners_def filter_empty_conv)

lemma seen_drop_senders [simp]: "seen (drop_senders s) = seen s"
  by (simp add: drop_senders_def seen_def owned_def)

lemma owners_reap: "owners x (tasks (reap_sessions ss)) + owners x (reaped ss) = owners x (tasks ss)"
  unfolding reap_sessions_def reaped_def by (induction ss) auto

lemma owners_delete:
  assumes "distinct (map fst ss)"
  shows "owners x (tasks (AList.delete i ss))
      + (case map_of ss i of None \<Rightarrow> 0 | Some st \<Rightarrow> if x \<in> seen (task st) then 1 else 0) = owners x (tasks ss)"
  using assms
proof (induction ss)
  case (Cons p ss)
  obtain k st where p: "p = (k, st)" by (cases p)
  show ?case
  proof (cases "k = i")
    case True
    then have "i \<notin> fst ` set ss" using Cons.prems p by simp
    then have "AList.delete i ss = ss" by (simp add: delete_id)
    with True p show ?thesis by simp
  qed (use Cons p in auto)
qed simp

lemma owners_update:
  assumes "distinct (map fst ss)" and "x \<notin> seen (task st)"
  shows "owners x (tasks (AList.update i st ss)) = owners x (tasks (AList.delete i ss))"
  using assms(1)
proof (induction ss)
  case (Cons p ss)
  obtain k st' where p: "p = (k, st')" by (cases p)
  show ?case
  proof (cases "k = i")
    case True
    then have "i \<notin> fst ` set ss" using Cons.prems p by simp
    then have "AList.delete i ss = ss" by (simp add: delete_id)
    with True p assms(2) show ?thesis by simp
  qed (use Cons p in auto)
qed (use assms(2) in simp)

lemma update_task_simps [simp]:
  "update_task i f [] = []"
  "update_task i f ((k, st) # ss) = (k, if k = i then st\<lparr>task := f (task st)\<rparr> else st) # update_task i f ss"
  by (simp_all add: update_task_def)

lemma owners_update_task:
  assumes "\<And>s. s \<in> set (tasks ss) \<Longrightarrow> seen (f s) = seen s"
  shows "owners x (tasks (update_task i f ss)) = owners x (tasks ss)"
  using assms
proof (induction ss)
  case (Cons p ss)
  obtain k st where p: "p = (k, st)" by (cases p)
  have "owners x (tasks (update_task i f ss)) = owners x (tasks ss)"
    using Cons.prems by (intro Cons.IH) simp
  with p Cons.prems [of "task st"] show ?case by simp
qed simp

lemma update_task_absent: "i \<notin> fst ` set ss \<Longrightarrow> update_task i f ss = ss"
  by (induction ss) auto

lemma owners_hand_over:
  assumes "distinct (map fst ss)" and "\<forall>s \<in> set (tasks ss). conns_inv s \<and> c \<notin> seen s"
  shows "owners x (tasks (update_task i (hand_over c) ss)) \<le> owners x (tasks ss) + (if x = c then 1 else 0)"
  using assms
proof (induction ss)
  case (Cons p ss)
  obtain k st where p: "p = (k, st)" by (cases p)
  have t: "seen (hand_over c (task st)) = insert c (seen (task st))"
    using conns_inv_Handoff [of "task st" c quiet_calls] Cons.prems(2) p by simp
  show ?case
  proof (cases "k = i")
    case True
    then have "update_task i (hand_over c) ss = ss" using Cons.prems(1) p by (intro update_task_absent) simp
    then show ?thesis using True p t by simp
  next
    case False
    with Cons p show ?thesis by simp
  qed
qed simp

lemma conns_inv_actions [simp]:
  assumes "conns_inv s"
  shows "conns_inv (abort_task s)" "seen (abort_task s) = seen s"
    "conns_inv (drop_senders s)" "seen (drop_senders s) = seen s"
  using conns_inv_step [OF assms, of "(quiet_calls, AbortTask)"] conns_inv_step [OF assms, of "(quiet_calls, DropSenders)"]
  by simp_all

lemma conns_inv_own_event:
  assumes "conns_inv s" and "own_event ev"
  shows "conns_inv (session_step s (sys, ev)) \<and> seen (session_step s (sys, ev)) = seen s"
proof -
  have "handed_over (sys, ev) = []" using assms(2) by (cases ev) auto
  with conns_inv_step [OF assms(1), of "(sys, ev)"] show ?thesis by simp
qed

text \<open>\<open>all_ok ss\<close>: each task's own trace is in order.\<close>

definition all_ok :: "session list \<Rightarrow> bool" where
  "all_ok ts \<longleftrightarrow> (\<forall>s \<in> set ts. conns_inv s)"

lemma all_ok_subset: "all_ok ts \<Longrightarrow> set us \<subseteq> set ts \<Longrightarrow> all_ok us"
  by (auto simp: all_ok_def)

lemma all_ok_reap [simp]:
  assumes "all_ok (tasks ss)"
  shows "all_ok (tasks (reap_sessions ss))" "all_ok (reaped ss)"
  using assms by (auto simp: all_ok_def reap_sessions_def reaped_def conns_inv_actions(3))

lemma all_ok_delete [simp]: "all_ok (tasks ss) \<Longrightarrow> all_ok (tasks (AList.delete i ss))"
  by (erule all_ok_subset) (auto simp: AList.delete_eq)

lemma all_ok_update: "all_ok (tasks ss) \<Longrightarrow> conns_inv (task st) \<Longrightarrow> all_ok (tasks (AList.update i st ss))"
  by (induction ss) (auto simp: all_ok_def)

lemma all_ok_update_task:
  "all_ok (tasks ss) \<Longrightarrow> (\<And>s. s \<in> set (tasks ss) \<Longrightarrow> conns_inv s \<Longrightarrow> conns_inv (f s)) \<Longrightarrow> all_ok (tasks (update_task i f ss))"
  by (force simp: all_ok_def update_task_def)

lemma run_task_ok:
  assumes "all_ok (tasks ss)"
  shows "all_ok (tasks (run_task e ss))" "owners x (tasks (run_task e ss)) = owners x (tasks ss)"
proof -
  obtain i sys ev where e: "e = (i, sys, ev)" by (cases e)
  show "all_ok (tasks (run_task e ss))"
    using assms conns_inv_own_event by (auto simp: e run_task_def intro!: all_ok_update_task)
  show "owners x (tasks (run_task e ss)) = owners x (tasks ss)"
  proof (cases "own_event ev")
    case True
    then have "owners x (tasks (update_task i (\<lambda>s. session_step s (sys, ev)) ss)) = owners x (tasks ss)"
      using assms conns_inv_own_event [OF _ True] unfolding all_ok_def by (intro owners_update_task) blast
    with True show ?thesis by (simp add: e run_task_def)
  qed (simp add: e run_task_def)
qed

lemma run_tasks_ok:
  assumes "all_ok (tasks ss)"
  shows "all_ok (tasks (fold run_task es ss)) \<and> owners x (tasks (fold run_task es ss)) = owners x (tasks ss)"
  using assms by (induction es arbitrary: ss) (simp_all add: run_task_ok)

definition all_tasks :: "daemon \<Rightarrow> session list" where
  "all_tasks d = tasks (sessions d) @ retired d"

text \<open>A request on connection \<open>c\<close> gives \<open>c\<close> to at most one task and no other connection to any.\<close>

definition gives_at_most :: "conn \<Rightarrow> daemon \<Rightarrow> daemon \<Rightarrow> bool" where
  "gives_at_most c d d' \<longleftrightarrow>
     all_ok (all_tasks d') \<and> (\<forall>x. owners x (all_tasks d') \<le> owners x (all_tasks d) + (if x = c then 1 else 0))"

lemma gives_next_round: "gives_at_most c d d' \<Longrightarrow> gives_at_most c d (next_round d')"
proof -
  assume g: "gives_at_most c d d'"
  then have a: "all_ok (tasks (sessions d'))" "all_ok (retired d')"
    by (auto simp: gives_at_most_def all_tasks_def all_ok_def)
  have "owners x (all_tasks (next_round d')) = owners x (all_tasks d')" for x
    using owners_reap [of x "sessions d'"] by (simp add: all_tasks_def)
  moreover have "all_ok (all_tasks (next_round d'))"
    using a all_ok_reap [OF a(1)] by (auto simp: all_tasks_def all_ok_def)
  ultimately show ?thesis using g unfolding gives_at_most_def by metis
qed

lemma gives_forget:
  assumes "all_ok (all_tasks d)" and "distinct (map fst (sessions d))"
    and "\<And>s. conns_inv s \<Longrightarrow> conns_inv (f s) \<and> seen (f s) = seen s"
  shows "all_ok (all_tasks (forget i f d)) \<and> owners x (all_tasks (forget i f d)) = owners x (all_tasks d)"
proof -
  have a: "all_ok (tasks (sessions d))" "all_ok (retired d)"
    using assms(1) by (auto simp: all_tasks_def all_ok_def)
  show ?thesis
  proof (cases "map_of (sessions d) i")
    case None
    with a all_ok_delete [OF a(1), of i] owners_delete [OF assms(2), of x i] show ?thesis
      by (auto simp: all_tasks_def all_ok_def)
  next
    case (Some st)
    then have "conns_inv (task st)" using a(1) map_of_SomeD [OF Some] by (force simp: all_ok_def)
    with assms(3) [of "task st"] Some a all_ok_delete [OF a(1), of i] owners_delete [OF assms(2), of x i]
    show ?thesis by (auto simp: all_tasks_def all_ok_def)
  qed
qed

lemma gives_hand_off:
  assumes "all_ok (all_tasks d)" and "distinct (map fst (sessions d))" and "owners c (all_tasks d) = 0"
  shows "gives_at_most c d (hand_off i c d)"
proof -
  have a: "all_ok (tasks (sessions d))" "all_ok (retired d)" and z: "\<forall>s \<in> set (tasks (sessions d)). c \<notin> seen s"
    using assms(1,3) by (auto simp: all_tasks_def all_ok_def owners_zero)
  have "all_ok (tasks (update_task i (hand_over c) (sessions d)))"
  proof (rule all_ok_update_task [OF a(1)])
    fix s assume "s \<in> set (tasks (sessions d))" "conns_inv s"
    moreover from this z have "c \<notin> seen s" by blast
    ultimately show "conns_inv (hand_over c s)" using conns_inv_Handoff [of s c quiet_calls] by simp
  qed
  moreover have "owners x (tasks (update_task i (hand_over c) (sessions d))) \<le>
      owners x (tasks (sessions d)) + (if x = c then 1 else 0)" for x
    using a(1) z by (intro owners_hand_over [OF assms(2)]) (auto simp: all_ok_def)
  ultimately show ?thesis
    using a(2) by (auto simp: gives_at_most_def all_tasks_def all_ok_def add.commute add.left_commute)
qed

text \<open>A step that gives no connection to any task.\<close>

definition keeps_owners :: "daemon \<Rightarrow> daemon \<Rightarrow> bool" where
  "keeps_owners d d' \<longleftrightarrow> all_ok (all_tasks d') \<and> (\<forall>x. owners x (all_tasks d') \<le> owners x (all_tasks d))"

lemma keeps_trans [trans]: "keeps_owners d d1 \<Longrightarrow> keeps_owners d1 d' \<Longrightarrow> keeps_owners d d'"
  unfolding keeps_owners_def by (meson le_trans)

lemma keeps_gives [trans]: "keeps_owners d d1 \<Longrightarrow> gives_at_most c d1 d' \<Longrightarrow> gives_at_most c d d'"
  unfolding keeps_owners_def gives_at_most_def by (meson add_le_mono le_refl le_trans)

lemma keeps_imp_gives: "keeps_owners d d' \<Longrightarrow> gives_at_most c d d'"
  unfolding keeps_owners_def gives_at_most_def by (meson trans_le_add1)

lemma keeps_same: "all_ok (all_tasks d) \<Longrightarrow> sessions d' = sessions d \<Longrightarrow> retired d' = retired d \<Longrightarrow> keeps_owners d d'"
  by (simp add: keeps_owners_def all_tasks_def)

lemma keeps_next_round: "all_ok (all_tasks d) \<Longrightarrow> keeps_owners d (next_round d)"
  and keeps_reap: "all_ok (all_tasks d) \<Longrightarrow> keeps_owners d (reap d)"
proof -
  assume a: "all_ok (all_tasks d)"
  then have "all_ok (tasks (sessions d))" by (auto simp: all_tasks_def all_ok_def)
  from all_ok_reap [OF this] a have "all_ok (tasks (reap_sessions (sessions d)) @ retired d @ reaped (sessions d))"
    by (auto simp: all_tasks_def all_ok_def)
  then show "keeps_owners d (next_round d)" "keeps_owners d (reap d)"
    using owners_reap [of _ "sessions d"] by (simp_all add: keeps_owners_def all_tasks_def add.assoc [symmetric])
qed

lemma keeps_ok: "keeps_owners d d' \<Longrightarrow> all_ok (all_tasks d')"
  by (simp add: keeps_owners_def)

lemma keeps_fresh: "keeps_owners d d' \<Longrightarrow> owners c (all_tasks d) = 0 \<Longrightarrow> owners c (all_tasks d') = 0"
  unfolding keeps_owners_def by (metis le_zero_eq)

lemma keeps_run_tasks: "all_ok (all_tasks d) \<Longrightarrow> keeps_owners d (run_tasks during d)"
  using run_tasks_ok [of "sessions d" during]
  by (auto simp: keeps_owners_def all_tasks_def all_ok_def)

lemma keeps_forget:
  assumes "all_ok (all_tasks d)" and "daemon_inv d"
    and "\<And>s. conns_inv s \<Longrightarrow> conns_inv (f s) \<and> seen (f s) = seen s"
  shows "keeps_owners d (forget i f d)"
  using gives_forget [OF assms(1) _ assms(3)] assms(2)
  by (auto simp: keeps_owners_def daemon_inv_def table_inv_def)

lemma keeps_insert:
  assumes "all_ok (all_tasks d)" and "daemon_inv d"
  shows "keeps_owners d (insert_session i \<lparr>task = start_session calls, sname = nm\<rparr> (d\<lparr>next_id := k\<rparr>))"
proof -
  let ?st = "\<lparr>task = start_session calls, sname = nm\<rparr>"
  let ?f = "forget i (\<lambda>s. s) d"
  have di: "distinct (map fst (sessions d))" using assms(2) by (simp add: daemon_inv_def table_inv_def)
  have f: "keeps_owners d ?f" by (rule keeps_forget [OF assms]) simp
  have "owners x (tasks (AList.update i ?st (sessions d))) = owners x (tasks (AList.delete i (sessions d)))" for x
    by (rule owners_update [OF di]) (simp add: conns_inv_start)
  moreover have "all_ok (tasks (AList.update i ?st (sessions d)))"
    using assms(1) by (intro all_ok_update) (auto simp: all_tasks_def all_ok_def conns_inv_start)
  ultimately show ?thesis
    using f by (auto simp: keeps_owners_def all_tasks_def all_ok_def)
qed

lemma gives_new_session:
  assumes "all_ok (all_tasks d)" and "daemon_inv d" and "owners c (all_tasks d) = 0"
  shows "gives_at_most c d (handle_new_session c name calls during d)"
proof (cases "name_taken (sessions d) (if name = [] then None else Some name)")
  case True
  have "keeps_owners d (answer c (Error (''session name already exists: '' @ name)) d)"
    using assms(1) by (rule keeps_same) simp_all
  with True show ?thesis
    by (simp add: handle_new_session_def Let_def gives_next_round keeps_imp_gives)
next
  case False
  let ?d1 = "insert_session (next_id d) \<lparr>task = start_session calls, sname = if name = [] then None else Some name\<rparr>
      (d\<lparr>next_id := next_id d + 1\<rparr>)"
  let ?l = "dlog [Reply c (SessionCreated (show_u32 (next_id d)))] ?d1"
  let ?d2 = "run_tasks during ?l"
  have i1: "daemon_inv ?d1" by (rule daemon_inv_insert [OF assms(2) False])
  have k1: "keeps_owners d ?d1" by (rule keeps_insert [OF assms(1,2)])
  also have "keeps_owners ?d1 ?l" using keeps_ok [OF k1] by (rule keeps_same) simp_all
  finally have kl: "keeps_owners d ?l" .
  also have "keeps_owners ?l ?d2" using keeps_ok [OF kl] by (rule keeps_run_tasks)
  finally have k2: "keeps_owners d ?d2" .
  also have "gives_at_most c ?d2 (hand_off (next_id d) c ?d2)"
  proof (rule gives_hand_off)
    have "daemon_inv ?d2" using i1 by simp
    then show "distinct (map fst (sessions ?d2))" by (simp only: daemon_inv_def table_inv_def)
    show "all_ok (all_tasks ?d2)" by (rule keeps_ok [OF k2])
    show "owners c (all_tasks ?d2) = 0" by (rule keeps_fresh [OF k2 assms(3)])
  qed
  finally have "gives_at_most c d (hand_off (next_id d) c ?d2)" .
  from gives_next_round [OF this] False show ?thesis
    by (cases "name = []") (simp_all add: handle_new_session_def Let_def)
qed

lemma gives_attach:
  assumes "all_ok (all_tasks d)" and "daemon_inv d" and "owners c (all_tasks d) = 0"
  shows "gives_at_most c d (handle_attach c target during d)"
proof -
  let ?d0 = "reap d" and ?no = "answer c (no_such_session target)"
  have k0: "keeps_owners d ?d0" by (rule keeps_reap [OF assms(1)])
  have i0: "daemon_inv ?d0" using assms(2) by simp
  have "keeps_owners ?d0 (?no ?d0)" using keeps_ok [OF k0] by (rule keeps_same) simp_all
  then have none: "gives_at_most c d (next_round (?no ?d0))"
    by (rule gives_next_round [OF keeps_imp_gives [OF keeps_trans [OF k0]]])
  have dead: "gives_at_most c d (next_round (?no (forget i (\<lambda>s. s) ?d0)))" for i
  proof -
    have f: "keeps_owners ?d0 (forget i (\<lambda>s. s) ?d0)" by (rule keeps_forget [OF keeps_ok [OF k0] i0]) simp
    have n: "keeps_owners (forget i (\<lambda>s. s) ?d0) (?no (forget i (\<lambda>s. s) ?d0))"
      using keeps_ok [OF f] by (rule keeps_same) (simp_all del: forget_fields)
    show ?thesis by (rule gives_next_round [OF keeps_imp_gives [OF keeps_trans [OF keeps_trans [OF k0 f] n]]])
  qed
  have ok: "gives_at_most c d (next_round (hand_off i c (run_tasks during (dlog [Reply c Ok] ?d0))))" for i
  proof -
    let ?l = "dlog [Reply c Ok] ?d0"
    have "keeps_owners ?d0 ?l" using keeps_ok [OF k0] by (rule keeps_same) simp_all
    with k0 have kl: "keeps_owners d ?l" by (rule keeps_trans)
    have k2: "keeps_owners d (run_tasks during ?l)"
      by (rule keeps_trans [OF kl keeps_run_tasks [OF keeps_ok [OF kl]]])
    have "daemon_inv (run_tasks during ?l)" using i0 by simp
    then have "distinct (map fst (sessions (run_tasks during ?l)))" by (simp only: daemon_inv_def table_inv_def)
    from gives_hand_off [OF keeps_ok [OF k2] this keeps_fresh [OF k2 assms(3)], of i] show ?thesis
      by (rule gives_next_round [OF keeps_gives [OF k2]])
  qed
  have other: "gives_at_most c d ?d0" using k0 by (rule keeps_imp_gives)
  show ?thesis
    using none dead ok other by (simp add: handle_attach_def Let_def split: option.split)
qed

lemma keeps_shutdown:
  assumes "all_ok (all_tasks d)"
  shows "keeps_owners d (shutdown d)"
proof -
  let ?fin = "map (\<lambda>p. drop_senders (abort_task (task (snd p)))) (sessions d)"
  have a: "all_ok (tasks (sessions d))" "all_ok (retired d)"
    using assms by (auto simp: all_tasks_def all_ok_def)
  have "owners x (map (\<lambda>p. drop_senders (abort_task (task (snd p)))) ss) = owners x (tasks ss)"
    if "all_ok (tasks ss)" for x ss using that by (induction ss) (auto simp: all_ok_def)
  then have o: "owners x ?fin = owners x (tasks (sessions d))" for x using a(1) by simp
  have e: "all_ok ?fin" using a(1) by (auto simp: all_ok_def)
  have "retired (shutdown d) = retired d @ ?fin" by (simp add: case_prod_beta')
  with o e a(2) show ?thesis by (auto simp: keeps_owners_def all_tasks_def all_ok_def simp del: shutdown_fields(5))
qed

lemma gives_request:
  assumes "all_ok (all_tasks d)" and "daemon_inv d" and "owners c (all_tasks d) = 0"
  shows "gives_at_most c d (handle_request c f calls during d)"
proof -
  have k0: "keeps_owners d (reap d)" by (rule keeps_reap [OF assms(1)])
  have an: "gives_at_most c d (next_round (answer c g d'))" if "keeps_owners d d'" for g d'
  proof -
    have "keeps_owners d' (answer c g d')" using keeps_ok [OF that] by (rule keeps_same) simp_all
    then show ?thesis by (rule gives_next_round [OF keeps_imp_gives [OF keeps_trans [OF that]]])
  qed
  have here: "keeps_owners d d" using assms(1) by (simp add: keeps_owners_def)
  have kill: "gives_at_most c d (handle_kill_session c t d)" for t
  proof -
    have "keeps_owners (reap d) (forget i abort_task (reap d))" for i
      using assms(2) by (intro keeps_forget keeps_ok [OF k0]) simp_all
    then have "keeps_owners d (forget i abort_task (reap d))" for i by (rule keeps_trans [OF k0])
    with an k0 show ?thesis by (simp add: handle_kill_session_def Let_def split: option.split)
  qed
  have "keeps_owners d (shutdown d)" by (rule keeps_shutdown [OF assms(1)])
  then have "gives_at_most c d (stop (answer c Ok (shutdown d)))"
    by (simp add: keeps_owners_def gives_at_most_def all_tasks_def trans_le_add1)
  then show ?thesis
    using gives_new_session [OF assms] gives_attach [OF assms] kill an [OF here] an [OF k0]
    by (cases f) (simp_all add: handle_list_def Let_def)
qed

lemma request_leaves_reading:
  assumes "daemon_inv d"
  shows "dphase (handle_request c f calls during d) \<noteq> Reading c'"
proof (cases f)
  case (Attach t)
  have ti: "table_inv (reap_sessions (sessions d))" using assms by (simp add: daemon_inv_def)
  have "map_of (reap_sessions (sessions d)) i \<noteq> None" if "resolve_session (reap_sessions (sessions d)) t = Some i" for i
    using table.lookup_live [OF ti that] by (simp add: registry_def)
  then show ?thesis
    by (auto simp: Attach handle_attach_def Let_def split: option.splits)
qed (auto simp: handle_new_session_def handle_kill_session_def handle_list_def Let_def split: option.split)

fun accepted_conns :: "daemon_event \<Rightarrow> conn list" where
  "accepted_conns (AcceptConn (Inr c) cred) = [c]"
| "accepted_conns _ = []"

text \<open>\<open>given U d\<close>: connections are given out at most once, and only those of \<open>U\<close>.\<close>

definition given :: "conn set \<Rightarrow> daemon \<Rightarrow> bool" where
  "given U d \<longleftrightarrow> daemon_inv d \<and> all_ok (all_tasks d)
     \<and> (\<forall>x. owners x (all_tasks d) \<le> (if x \<in> U then 1 else 0))
     \<and> (\<forall>c. dphase d = Reading c \<longrightarrow> c \<in> U \<and> owners c (all_tasks d) = 0)"

lemma given_keeps:
  assumes "given U d" and "keeps_owners d d'" and "daemon_inv d'" and "\<forall>c. dphase d' \<noteq> Reading c"
  shows "given U d'"
proof -
  have "owners x (all_tasks d') \<le> (if x \<in> U then 1 else 0)" for x
    using assms(1,2) unfolding given_def keeps_owners_def by (meson le_trans)
  with assms show ?thesis by (simp add: given_def keeps_owners_def)
qed

lemma given_mono:
  assumes "given U d" and "U \<subseteq> V"
  shows "given V d"
proof -
  have "owners x (all_tasks d) \<le> (if x \<in> V then 1 else 0)" for x
  proof -
    have "owners x (all_tasks d) \<le> (if x \<in> U then 1 else 0)" using assms(1) by (simp add: given_def)
    also have "\<dots> \<le> (if x \<in> V then 1 else 0 :: nat)" using assms(2) by auto
    finally show ?thesis .
  qed
  with assms show ?thesis by (auto simp: given_def)
qed

lemma given_request:
  assumes "given U d" and "dphase d = Reading c"
  shows "given U (handle_request c f calls during d)"
proof -
  let ?d = "handle_request c f calls during d"
  have g: "all_ok (all_tasks d)" "daemon_inv d" "owners c (all_tasks d) = 0" "c \<in> U"
    and o: "\<And>x. owners x (all_tasks d) \<le> (if x \<in> U then 1 else 0)"
    using assms by (simp_all add: given_def)
  from gives_request [OF g(1-3)] have r: "all_ok (all_tasks ?d)"
    "\<And>x. owners x (all_tasks ?d) \<le> owners x (all_tasks d) + (if x = c then 1 else 0)"
    by (auto simp: gives_at_most_def)
  have "owners x (all_tasks ?d) \<le> (if x \<in> U then 1 else 0)" for x
  proof (cases "x = c")
    case True
    with r(2) [of x] g(3,4) show ?thesis by simp
  next
    case False
    with r(2) [of x] o [of x] show ?thesis by simp
  qed
  then show ?thesis
    using r(1) daemon_inv_request [OF g(2)] request_leaves_reading [OF g(2)] by (simp add: given_def)
qed

lemma given_drop:
  assumes "given U d"
  shows "given U (next_round (dlog es d))"
proof (rule given_keeps [OF assms])
  have a: "all_ok (all_tasks d)" and i: "daemon_inv d" using assms by (simp_all add: given_def)
  have k: "keeps_owners d (dlog es d)" using a by (rule keeps_same) simp_all
  show "keeps_owners d (next_round (dlog es d))"
    by (rule keeps_trans [OF k keeps_next_round [OF keeps_ok [OF k]]])
  show "daemon_inv (next_round (dlog es d))" using i by simp
qed simp

lemma given_step:
  assumes "given U d" and "set (accepted_conns e) \<inter> U = {}"
  shows "given (U \<union> set (accepted_conns e)) (daemon_step d e)"
proof (cases e)
  case (AcceptConn r cred)
  show ?thesis
  proof (cases "dphase d = Accepting")
    case True
    show ?thesis
    proof (cases r)
      case (Inl err)
      with True AcceptConn assms(1) show ?thesis by (simp add: given_def all_tasks_def)
    next
      case (Inr c)
      have g: "given (U \<union> {c}) d" using assms(1) by (rule given_mono) blast
      have "c \<notin> U" using assms(2) AcceptConn Inr by simp
      with assms(1) have "owners c (all_tasks d) = 0" unfolding given_def by (metis le_zero_eq)
      with g have "given (U \<union> {c}) (d\<lparr>dphase := Reading c\<rparr>)" by (simp add: given_def all_tasks_def)
      with g given_drop [OF g] show ?thesis
        using True AcceptConn Inr by (simp split: sum.split)
    qed
  next
    case False
    with AcceptConn given_mono [OF assms(1), of "U \<union> set (accepted_conns e)"] show ?thesis by simp
  qed
next
  case StopSignal
  have a: "all_ok (all_tasks d)" "daemon_inv d" using assms(1) by (simp_all add: given_def)
  have "keeps_owners (shutdown d) (stop (shutdown d))"
    using keeps_ok [OF keeps_shutdown [OF a(1)]] by (rule keeps_same) simp_all
  then have "given U (stop (shutdown d))"
    using a(2) daemon_inv_shutdown by (intro given_keeps [OF assms(1) keeps_trans [OF keeps_shutdown [OF a(1)]]]) auto
  with StopSignal assms(1) show ?thesis by simp
next
  case (ControlFrame r calls during)
  show ?thesis
  proof (cases "dphase d")
    case (Reading c)
    then show ?thesis
      using ControlFrame given_request [OF assms(1)] given_drop [OF assms(1)]
      by (simp split: option.split sum.split)
  qed (use assms ControlFrame in simp_all)
next
  case (TaskEvent i ev)
  have a: "all_ok (tasks (sessions d))" "all_ok (retired d)"
    using assms(1) by (auto simp: given_def all_tasks_def all_ok_def)
  have "all_ok (all_tasks (d\<lparr>sessions := run_task (i, ev) (sessions d)\<rparr>))"
    using run_task_ok(1) [OF a(1), of "(i, ev)"] a(2) by (auto simp: all_tasks_def all_ok_def)
  moreover have "owners x (all_tasks (d\<lparr>sessions := run_task (i, ev) (sessions d)\<rparr>)) = owners x (all_tasks d)" for x
    using run_task_ok(2) [OF a(1)] by (simp add: all_tasks_def)
  moreover have "daemon_inv (d\<lparr>sessions := run_task (i, ev) (sessions d)\<rparr>)"
    using assms(1) by (simp add: given_def daemon_inv_def)
  ultimately have "given U (d\<lparr>sessions := run_task (i, ev) (sessions d)\<rparr>)"
    using assms(1) by (simp add: given_def)
  with TaskEvent assms(1) show ?thesis by (simp split: daemon_phase.split)
qed

lemma given_run:
  assumes "given U d" and "distinct (concat (map accepted_conns es))" and "set (concat (map accepted_conns es)) \<inter> U = {}"
  shows "given (U \<union> set (concat (map accepted_conns es))) (run_daemon d es)"
  using assms
proof (induction es arbitrary: U d)
  case (Cons e es)
  let ?V = "U \<union> set (accepted_conns e)"
  have "given ?V (daemon_step d e)" using Cons.prems by (intro given_step) auto
  moreover have "set (concat (map accepted_conns es)) \<inter> ?V = {}" using Cons.prems(2,3) by auto
  ultimately have "given (?V \<union> set (concat (map accepted_conns es))) (run_daemon (daemon_step d e) es)"
    using Cons.prems(2) by (intro Cons.IH) auto
  then show ?case by (simp add: Un_assoc)
qed simp

text \<open>
  C9. One owner per connection, in the whole system: in every run of the daemon with all its session
  tasks, in which the kernel never hands out a connection twice, each connection is given to at most
  one task ever, and each task's own trace is in order (nothing is sent on a connection after its
  final frame or its close), for live, killed and replaced sessions alike.
\<close>

theorem one_owner_per_connection:
  assumes "distinct (concat (map accepted_conns es))"
    and "d = run_daemon (fst (start_daemon w p fd sg)) es"
  shows "owners x (all_tasks d) \<le> 1 \<and> (\<forall>s \<in> set (all_tasks d). trace_ok {} {} (effects s))"
proof -
  let ?d0 = "fst (start_daemon w p fd sg)"
  have s: "sessions ?d0 = []" "retired ?d0 = []" "\<forall>c. dphase ?d0 \<noteq> Reading c"
    by (auto simp: start_daemon_def Let_def blank_daemon_def next_round_def reap_def reap_sessions_def
        split: prod.split sum.split option.split)
  then have "given {} ?d0" using daemon_inv_start by (simp add: given_def all_tasks_def all_ok_def)
  from given_run [OF this assms(1)] assms(2) have "given (set (concat (map accepted_conns es))) d" by simp
  then have "owners x (all_tasks d) \<le> (if x \<in> set (concat (map accepted_conns es)) then 1 else 0)"
    "all_ok (all_tasks d)" by (simp_all only: given_def)
  then show ?thesis by (auto simp: all_ok_def conns_inv_def split: if_splits)
qed

theorem one_owner_per_connection_witness:
  "owners 1 (all_tasks (run_daemon (fst (start_daemon sample_world sample_ctl True None))
     (request 1 (NewSession []) @ request 2 (Attach (show_nat 0)) @ request 3 (KillSession (show_nat 0))))) \<le> 1"
  using one_owner_per_connection [of "request 1 (NewSession []) @ request 2 (Attach (show_nat 0)) @ request 3 (KillSession (show_nat 0))"
      _ sample_world sample_ctl True None 1, OF _ refl]
  by (simp add: request_def)

end
