(* ===== verification/Escape.thy ===== *)
theory Escape
  imports TTY_Prelude "HOL-Library.Sublist"
begin

text \<open>
  The escape sequences of \<open>src/client.rs\<close> (\<open>EscapeState\<close>, \<open>EscapeAction\<close>,
  \<open>EscapeProcessor\<close>): after a newline, \<open>~.\<close> detaches, \<open>~^Z\<close> suspends, \<open>~?\<close> prints help and
  \<open>~~\<close> sends one tilde.  \<open>esc_loop\<close> is the source's loop with its two buffers; \<open>esc_spec\<close> is
  the abstract contract, a transducer that emits one event at a time and has no buffers, which
  the loop is shown to implement.
\<close>

section \<open>The processor\<close>

datatype escape_state = Normal | AfterNewline | AfterTilde

datatype escape_action = ActData bytes | Detach | Suspend | Help

record escape_processor =
  esc_state :: escape_state

definition new_processor :: escape_processor where
  "new_processor = \<lparr>esc_state = AfterNewline\<rparr>"

definition b_nl :: u8 where [simp]: "b_nl = 0x0A"
definition b_cr :: u8 where [simp]: "b_cr = 0x0D"
definition b_tilde :: u8 where [simp]: "b_tilde = 0x7E"
definition b_dot :: u8 where [simp]: "b_dot = 0x2E"
definition b_quest :: u8 where [simp]: "b_quest = 0x3F"
definition b_ctrl_z :: u8 where [simp]: "b_ctrl_z = 0x1A"

text \<open>\<open>if !data_buf.is_empty() { actions.push(Data(take(&mut data_buf))) }\<close>\<close>

definition flush_data :: "escape_action list \<Rightarrow> bytes \<Rightarrow> escape_action list" where
  "flush_data actions data_buf = (if data_buf \<noteq> [] then actions @ [ActData data_buf] else actions)"

fun esc_loop :: "escape_state \<Rightarrow> escape_action list \<Rightarrow> bytes \<Rightarrow> bytes
    \<Rightarrow> escape_state \<times> escape_action list" where
  "esc_loop st actions data_buf [] = (st, flush_data actions data_buf)"
| "esc_loop st actions data_buf (b # input) =
     (case st of
        Normal \<Rightarrow>
          esc_loop (if b = b_nl \<or> b = b_cr then AfterNewline else Normal) actions
            (data_buf @ [b]) input
      | AfterNewline \<Rightarrow>
          if b = b_tilde then esc_loop AfterTilde (flush_data actions data_buf) [] input
          else if b = b_nl \<or> b = b_cr then esc_loop AfterNewline actions (data_buf @ [b]) input
          else esc_loop Normal actions (data_buf @ [b]) input
      | AfterTilde \<Rightarrow>
          if b = b_dot then (AfterTilde, flush_data actions data_buf @ [Detach])
          else if b = b_ctrl_z then
            esc_loop Normal (flush_data actions data_buf @ [Suspend]) [] input
          else if b = b_quest then
            esc_loop Normal (flush_data actions data_buf @ [Help]) [] input
          else if b = b_tilde then esc_loop Normal actions (data_buf @ [b_tilde]) input
          else if b = b_nl \<or> b = b_cr then
            esc_loop AfterNewline actions (data_buf @ [b_tilde, b]) input
          else esc_loop Normal actions (data_buf @ [b_tilde, b]) input)"

definition esc_process :: "escape_processor \<Rightarrow> bytes \<Rightarrow> escape_action list \<times> escape_processor" where
  "esc_process p input =
     (case esc_loop (esc_state p) [] [] input of (st, actions) \<Rightarrow> (actions, p\<lparr>esc_state := st\<rparr>))"

section \<open>The contract: a transducer\<close>

datatype esc_event = Byte u8 | EvDetach | EvSuspend | EvHelp

fun esc_byte :: "escape_state \<Rightarrow> u8 \<Rightarrow> escape_state \<times> esc_event list" where
  "esc_byte Normal b = (if b = b_nl \<or> b = b_cr then AfterNewline else Normal, [Byte b])"
| "esc_byte AfterNewline b =
     (if b = b_tilde then (AfterTilde, [])
      else (if b = b_nl \<or> b = b_cr then AfterNewline else Normal, [Byte b]))"
| "esc_byte AfterTilde b =
     (if b = b_dot then (AfterTilde, [EvDetach])
      else if b = b_ctrl_z then (Normal, [EvSuspend])
      else if b = b_quest then (Normal, [EvHelp])
      else if b = b_tilde then (Normal, [Byte b_tilde])
      else (if b = b_nl \<or> b = b_cr then AfterNewline else Normal, [Byte b_tilde, Byte b]))"

text \<open>Nothing is read after a detach.\<close>

fun esc_spec :: "escape_state \<Rightarrow> bytes \<Rightarrow> escape_state \<times> esc_event list" where
  "esc_spec st [] = (st, [])"
| "esc_spec st (b # bs) =
     (case esc_byte st b of (st', evs) \<Rightarrow>
        if EvDetach \<in> set evs then (st', evs)
        else (case esc_spec st' bs of (st'', evs') \<Rightarrow> (st'', evs @ evs')))"

fun events_of :: "escape_action \<Rightarrow> esc_event list" where
  "events_of (ActData d) = map Byte d"
| "events_of Detach = [EvDetach]"
| "events_of Suspend = [EvSuspend]"
| "events_of Help = [EvHelp]"

definition flatten :: "escape_action list \<Rightarrow> esc_event list" where
  "flatten actions = concat (map events_of actions)"

fun sent_bytes :: "esc_event list \<Rightarrow> bytes" where
  "sent_bytes [] = []"
| "sent_bytes (Byte b # evs) = b # sent_bytes evs"
| "sent_bytes (_ # evs) = sent_bytes evs"

section \<open>Lemmas\<close>

lemma flatten_simps [simp]:
  "flatten [] = []" "flatten (a # as) = events_of a @ flatten as"
  "flatten (as @ bs) = flatten as @ flatten bs"
  by (simp_all add: flatten_def)

lemma flatten_flush [simp]: "flatten (flush_data actions d) = flatten actions @ map Byte d"
  by (simp add: flush_data_def)

lemma EvDetach_map_Byte [simp]: "EvDetach \<notin> set (map Byte d)"
  by auto

lemma sent_bytes_append [simp]: "sent_bytes (a @ b) = sent_bytes a @ sent_bytes b"
  by (induction a rule: sent_bytes.induct) auto

text \<open>
  The loop with its buffers implements the transducer: what was flushed, then what is buffered,
  then what the transducer emits from here.
\<close>

lemma esc_loop_spec:
  "flatten (snd (esc_loop st actions d input)) =
     flatten actions @ map Byte d @ snd (esc_spec st input)"
proof (induction input arbitrary: st actions d)
  case Nil
  then show ?case by simp
next
  case (Cons b bs)
  then show ?case by (cases st) (simp_all add: case_prod_beta)
qed

lemma esc_loop_state: "fst (esc_loop st actions d input) = fst (esc_spec st input)"
proof (induction input arbitrary: st actions d)
  case Nil
  then show ?case by simp
next
  case (Cons b bs)
  then show ?case by (cases st) (simp_all add: case_prod_beta)
qed

lemma esc_process_flatten:
  "flatten (fst (esc_process p input)) = snd (esc_spec (esc_state p) input)"
  using esc_loop_spec [of "esc_state p" "[]" "[]" input]
  by (simp add: esc_process_def case_prod_beta)

lemma esc_process_state:
  "esc_state (snd (esc_process p input)) = fst (esc_spec (esc_state p) input)"
  using esc_loop_state [of "esc_state p" "[]" "[]" input]
  by (simp add: esc_process_def case_prod_beta)

lemma esc_spec_append:
  "esc_spec st (a @ b) =
     (case esc_spec st a of (st1, e1) \<Rightarrow>
        if EvDetach \<in> set e1 then (st1, e1)
        else (case esc_spec st1 b of (st2, e2) \<Rightarrow> (st2, e1 @ e2)))"
  by (induction a arbitrary: st) (auto split: prod.splits if_splits)

definition newline :: "u8 \<Rightarrow> bool" where
  "newline b \<longleftrightarrow> b = b_nl \<or> b = b_cr"

text \<open>Where the processor is about to read an escape character: \<open>opens st pre\<close>.\<close>

definition opens :: "escape_state \<Rightarrow> bytes \<Rightarrow> bool" where
  "opens st pre \<longleftrightarrow> (if pre = [] then st = AfterNewline else newline (last pre))"

definition detach_at :: "escape_state \<Rightarrow> bytes \<Rightarrow> bool" where
  "detach_at st input \<longleftrightarrow>
     (\<exists>pre post. input = pre @ [b_tilde, b_dot] @ post \<and> opens st pre)
     \<or> (st = AfterTilde \<and> (\<exists>post. input = b_dot # post))"

lemma esc_byte_AfterNewline_iff:
  "EvDetach \<notin> set (snd (esc_byte st b)) \<Longrightarrow> fst (esc_byte st b) = AfterNewline \<longleftrightarrow> newline b"
  by (cases st) (auto simp: newline_def)

lemma esc_byte_AfterTilde_iff:
  "EvDetach \<notin> set (snd (esc_byte st b)) \<Longrightarrow>
   fst (esc_byte st b) = AfterTilde \<longleftrightarrow> st = AfterNewline \<and> b = b_tilde"
  by (cases st) auto

lemma EvDetach_esc_byte: "EvDetach \<in> set (snd (esc_byte st b)) \<longleftrightarrow> st = AfterTilde \<and> b = b_dot"
  by (cases st) auto

lemma detach_at_Cons:
  assumes "EvDetach \<notin> set (snd (esc_byte st b))"
  shows "detach_at st (b # bs) \<longleftrightarrow> detach_at (fst (esc_byte st b)) bs"
proof
  assume "detach_at st (b # bs)"
  moreover have "\<not> (st = AfterTilde \<and> b = b_dot)" using assms by (simp add: EvDetach_esc_byte)
  ultimately obtain pre post where p: "b # bs = pre @ [b_tilde, b_dot] @ post" "opens st pre"
    by (auto simp: detach_at_def)
  show "detach_at (fst (esc_byte st b)) bs"
  proof (cases pre)
    case Nil
    with p have "st = AfterNewline" "b = b_tilde" "bs = b_dot # post" by (auto simp: opens_def)
    then show ?thesis by (auto simp: detach_at_def)
  next
    case (Cons c pre')
    with p have "bs = pre' @ [b_tilde, b_dot] @ post" "c = b" "newline (last (b # pre'))"
      by (auto simp: opens_def)
    moreover have "opens (fst (esc_byte st b)) pre'"
      using calculation assms esc_byte_AfterNewline_iff by (auto simp: opens_def split: if_splits)
    ultimately show ?thesis by (auto simp: detach_at_def)
  qed
next
  assume "detach_at (fst (esc_byte st b)) bs"
  then consider pre post where "bs = pre @ [b_tilde, b_dot] @ post" "opens (fst (esc_byte st b)) pre"
    | post where "fst (esc_byte st b) = AfterTilde" "bs = b_dot # post"
    by (auto simp: detach_at_def)
  then show "detach_at st (b # bs)"
  proof cases
    case (1 pre post)
    then have "opens st (b # pre)"
      using assms esc_byte_AfterNewline_iff by (auto simp: opens_def split: if_splits)
    with 1 show ?thesis unfolding detach_at_def by (metis append_Cons)
  next
    case (2 post)
    then have "st = AfterNewline" "b = b_tilde" using assms esc_byte_AfterTilde_iff by blast+
    with 2 have "b # bs = [] @ [b_tilde, b_dot] @ post" "opens st []" by (simp_all add: opens_def)
    then show ?thesis unfolding detach_at_def by blast
  qed
qed

lemma EvDetach_esc_spec: "EvDetach \<in> set (snd (esc_spec st input)) \<longleftrightarrow> detach_at st input"
proof (induction input arbitrary: st)
  case Nil
  then show ?case by (simp add: detach_at_def)
next
  case (Cons b bs)
  show ?case
  proof (cases "EvDetach \<in> set (snd (esc_byte st b))")
    case True
    then have "st = AfterTilde \<and> b = b_dot" by (simp add: EvDetach_esc_byte)
    then show ?thesis by (auto simp: detach_at_def)
  next
    case False
    then show ?thesis
      using Cons.IH [of "fst (esc_byte st b)"] detach_at_Cons [OF False]
      by (auto split: prod.splits)
  qed
qed

lemma Detach_in_flatten: "Detach \<in> set actions \<longleftrightarrow> EvDetach \<in> set (flatten actions)"
proof (induction actions)
  case (Cons a as)
  then show ?case by (cases a) auto
qed simp

text \<open>No action carries an empty buffer.\<close>

lemma esc_loop_nonempty:
  "ActData [] \<notin> set actions \<Longrightarrow> ActData [] \<notin> set (snd (esc_loop st actions d input))"
proof (induction input arbitrary: st actions d)
  case Nil
  then show ?case by (simp add: flush_data_def)
next
  case (Cons b bs)
  then show ?case by (cases st) (simp_all add: flush_data_def)
qed

text \<open>The forwarded bytes are a subsequence of the typed ones (with the tilde held back before).\<close>

fun pending :: "escape_state \<Rightarrow> bytes" where
  "pending AfterTilde = [b_tilde]"
| "pending _ = []"

lemma subseq_esc_spec:
  "subseq (sent_bytes (snd (esc_spec st input))) (pending st @ input)"
proof (induction input arbitrary: st)
  case Nil
  then show ?case by (cases st) auto
next
  case (Cons b bs)
  have IH: "subseq (sent_bytes (snd (esc_spec s bs))) (pending s @ bs)" for s by (rule Cons.IH)
  show ?case
    using IH [of Normal] IH [of AfterNewline] IH [of AfterTilde]
    by (cases st) (auto split: prod.splits intro: subseq_Cons' subseq_Cons' [OF subseq_Cons'])
qed

text \<open>Input without a tilde passes unchanged, in one piece.\<close>

lemma esc_loop_no_tilde:
  "st \<noteq> AfterTilde \<Longrightarrow> b_tilde \<notin> set input \<Longrightarrow>
   snd (esc_loop st actions d input) = flush_data actions (d @ input)"
proof (induction input arbitrary: st d)
  case Nil
  then show ?case by simp
next
  case (Cons b bs)
  then show ?case by (cases st) (auto simp: Cons.IH)
qed

section \<open>Properties\<close>

text \<open>
  C19. The processor implements its contract: whatever the state and the input, the actions it
  returns, read as single events, are what the transducer emits, the state it keeps is the
  transducer's, and no action carries an empty buffer.
\<close>

theorem escape_process_refines_transducer:
  "flatten (fst (esc_process p input)) = snd (esc_spec (esc_state p) input) \<and>
   esc_state (snd (esc_process p input)) = fst (esc_spec (esc_state p) input) \<and>
   ActData [] \<notin> set (fst (esc_process p input))"
  using esc_loop_nonempty [of "[]" "esc_state p" "[]" input]
  by (simp add: esc_process_flatten esc_process_state) (simp add: esc_process_def case_prod_beta)

text \<open>
  Escape sequences are recognised across reads: as long as the first read does not detach,
  processing two reads one after the other has the same events and ends in the same state as
  processing their concatenation.
\<close>

theorem escape_split_across_reads:
  assumes "Detach \<notin> set (fst (esc_process p a))"
  shows "flatten (fst (esc_process p (a @ b))) =
       flatten (fst (esc_process p a)) @ flatten (fst (esc_process (snd (esc_process p a)) b)) \<and>
     snd (esc_process p (a @ b)) = snd (esc_process (snd (esc_process p a)) b)"
proof -
  have "EvDetach \<notin> set (snd (esc_spec (esc_state p) a))"
    using assms by (simp add: Detach_in_flatten esc_process_flatten)
  then show ?thesis
    by (auto simp: esc_process_flatten esc_process_state esc_spec_append case_prod_beta
        intro!: escape_processor.equality)
qed

theorem escape_split_across_reads_witness:
  "flatten (fst (esc_process new_processor ([0x7E] @ [0x2E]))) = [EvDetach]"
proof -
  have "Detach \<notin> set (fst (esc_process new_processor [0x7E]))"
    by (simp add: esc_process_def new_processor_def flush_data_def)
  from escape_split_across_reads [OF this, of "[0x2E]"] show ?thesis
    by (simp add: esc_process_def new_processor_def flush_data_def)
qed

text \<open>
  C35. Exactly when the client detaches: the input has \<open>~.\<close> right after a newline or carriage
  return (or at its start, if the processor was waiting after a newline), or starts with \<open>.\<close>
  after a tilde held back from the read before.  So no other typed text can detach the client,
  and the sequence is never missed, also when an earlier \<open>~\<close> was flushed before the newline.
\<close>

theorem escape_detach_iff:
  "Detach \<in> set (fst (esc_process p input)) \<longleftrightarrow>
     (\<exists>pre post. input = pre @ [b_tilde, b_dot] @ post \<and>
        (if pre = [] then esc_state p = AfterNewline else last pre = b_nl \<or> last pre = b_cr))
     \<or> (esc_state p = AfterTilde \<and> (\<exists>post. input = b_dot # post))"
  by (simp add: Detach_in_flatten esc_process_flatten EvDetach_esc_spec detach_at_def opens_def
      newline_def)

text \<open>
  Nothing is invented and nothing ordinary is lost: the bytes forwarded to the session are a
  subsequence of the bytes typed (with the tilde held back before), and a read without a tilde,
  when none is held back, is forwarded unchanged as one piece.
\<close>

theorem escape_forwards_typed_bytes:
  "subseq (sent_bytes (flatten (fst (esc_process p input)))) (pending (esc_state p) @ input) \<and>
   (esc_state p \<noteq> AfterTilde \<and> b_tilde \<notin> set input \<and> input \<noteq> [] \<longrightarrow>
      fst (esc_process p input) = [ActData input])"
  by (simp add: esc_process_flatten subseq_esc_spec)
    (simp add: esc_process_def case_prod_beta esc_loop_no_tilde flush_data_def)

theorem escape_forwards_typed_bytes_witness:
  "fst (esc_process new_processor [0x68, 0x0A]) = [ActData [0x68, 0x0A]]"
  using escape_forwards_typed_bytes [of new_processor "[0x68, 0x0A]"]
  by (simp add: new_processor_def)

end
