(* ===== verification/Client.thy ===== *)
theory Client
  imports Protocol Escape
begin

text \<open>
  The rest of \<open>src/client.rs\<close>: \<open>write_stdout\<close>, \<open>timed_send\<close>, the relay between the terminal and the
  session, and the reconnect loop of \<open>run\<close>.  The client is a state machine with one event per branch
  of its \<open>select!\<close> and one per turn of the reconnect loop.  An event carries the results of the calls
  the step makes (\<open>client_io\<close>): whether each \<open>timed_send\<close> in turn succeeds within 5 seconds, whether
  each \<open>write_stdout\<close> in turn fails, the window size, the clock (milliseconds) and \<open>kill\<close>.
\<close>

section \<open>Writing to the terminal\<close>

text \<open>
  The loop over \<open>&data[written..]\<close>; the second argument is what each \<open>write\<close> in turn returns.
  \<open>None\<close>: still waiting when the results are used up.
\<close>

fun write_loop :: "bytes \<Rightarrow> (io_error + nat) list \<Rightarrow> bytes \<times> (io_error + unit) option" where
  "write_loop [] rs = ([], Some (Inr ()))"
| "write_loop (b # bs) [] = ([], None)"
| "write_loop (b # bs) (Inr n # rs) =
     (case write_loop (drop n (b # bs)) rs of (out, r) \<Rightarrow> (take n (b # bs) @ out, r))"
| "write_loop (b # bs) (Inl e # rs) =
     (if error_kind e = WouldBlock then write_loop (b # bs) rs
      else if error_kind e = Interrupted then write_loop (b # bs) rs
      else ([], Some (Inl e)))"

fun flush_loop :: "io_error option list \<Rightarrow> (io_error + unit) option" where
  "flush_loop [] = None"
| "flush_loop (None # rs) = Some (Inr ())"
| "flush_loop (Some e # rs) =
     (if error_kind e = WouldBlock then flush_loop rs
      else if error_kind e = Interrupted then flush_loop rs
      else Some (Inl e))"

definition write_stdout ::
  "bytes \<Rightarrow> (io_error + nat) list \<Rightarrow> io_error option list \<Rightarrow> bytes \<times> (io_error + unit) option" where
  "write_stdout data writes flushes =
     (case write_loop data writes of
        (out, Some (Inr _)) \<Rightarrow> (out, flush_loop flushes)
      | (out, r) \<Rightarrow> (out, r))"

section \<open>Data\<close>

definition SEND_TIMEOUT :: nat where "SEND_TIMEOUT = 5000"
definition HEARTBEAT_INTERVAL :: nat where "HEARTBEAT_INTERVAL = 5000"
definition HEARTBEAT_TIMEOUT :: nat where "HEARTBEAT_TIMEOUT = 15000"

datatype client_effect =
    Sent frame
  | SendFailed frame           \<comment> \<open>an error, or 5 seconds without completing\<close>
  | Printed bytes
  | PrintFailed bytes
  | SuspendSelf                \<comment> \<open>\<open>kill(0, SIGTSTP)\<close>\<close>

datatype client_phase =
    Relaying
  | Lost                       \<comment> \<open>the reconnect loop\<close>
  | Finished "io_error + i32"

record client =
  cphase :: client_phase
  session_name :: string
  current_env :: "(string \<times> string) list"
  current_redraw :: bool
  escape :: "escape_processor option"
  last_pong :: nat
  send_results :: "bool list"
  print_results :: "io_error option list"
  clog :: "client_effect list"

record client_io =
  io_sends :: "bool list"
  io_prints :: "io_error option list"
  io_winsize :: "u16 \<times> u16"
  io_now :: nat
  io_suspend :: "io_error option"

record attempt =
  peeked :: "io_error + bytes"               \<comment> \<open>the one-byte read of stdin\<close>
  connected :: bool                          \<comment> \<open>\<open>UnixStream::connect\<close>\<close>
  attach_sent :: bool
  answered :: "(io_error + frame) option"

datatype client_event =
    StdinReady "io_error option" "io_error + bytes"
  | ServerFrame "(io_error + frame) option"
  | Winch
  | Tick
  | Attempt attempt                          \<comment> \<open>one turn of the reconnect loop, after its second of sleep\<close>

definition text_bytes :: "string \<Rightarrow> bytes" where
  "text_bytes s = as_bytes s @ [0x0D, 0x0A]"

definition ESCAPE_HELP :: bytes where
  "ESCAPE_HELP = text_bytes [] @ text_bytes ''Supported escape sequences:''
     @ text_bytes ''~.  - detach from session''
     @ text_bytes ''~^Z - suspend client''
     @ text_bytes ''~?  - this message''
     @ text_bytes ''~~  - send the escape character by typing it twice''
     @ text_bytes ''(Note that escapes are only recognized immediately after newline.)''"

section \<open>Operations\<close>

definition clog_add :: "client_effect \<Rightarrow> client \<Rightarrow> client" where
  "clog_add e s = s\<lparr>clog := clog s @ [e]\<rparr>"

text \<open>\<open>write_stdout(data)?\<close>\<close>

definition print :: "bytes \<Rightarrow> client \<Rightarrow> client" where
  "print data s =
     (case print_results s of
        Some e # rs \<Rightarrow>
          (clog_add (PrintFailed data) s)\<lparr>cphase := Finished (Inl e), print_results := rs\<rparr>
      | rs \<Rightarrow> (clog_add (Printed data) s)\<lparr>print_results := drop 1 rs\<rparr>)"

text \<open>\<open>relay\<close> returned \<open>Ok(None)\<close>: the first lines of the reconnect branch of \<open>run\<close>.\<close>

definition lost :: "client \<Rightarrow> client" where
  "lost s = print (text_bytes ''[reconnecting...]'') (s\<lparr>cphase := Lost, current_env := []\<rparr>)"

definition return_code :: "i32 \<Rightarrow> client \<Rightarrow> client" where
  "return_code code s =
     (case cphase s of Finished r \<Rightarrow> s | _ \<Rightarrow> s\<lparr>cphase := Finished (Inr code)\<rparr>)"

text \<open>\<open>if !timed_send(framed, f).await { return Ok(None) }\<close>\<close>

definition send_or_lose :: "frame \<Rightarrow> client \<Rightarrow> client" where
  "send_or_lose f s =
     (if cphase s \<noteq> Relaying then s
      else case send_results s of
             False # bs \<Rightarrow> lost ((clog_add (SendFailed f) s)\<lparr>send_results := bs\<rparr>)
           | bs \<Rightarrow> (clog_add (Sent f) s)\<lparr>send_results := drop 1 bs\<rparr>)"

definition send_size :: "client_io \<Rightarrow> client \<Rightarrow> client" where
  "send_size io s = (case io_winsize io of (cols, rows) \<Rightarrow> send_or_lose (Resize cols rows) s)"

text \<open>\<open>relay\<close> before its loop.\<close>

definition relay_start :: "client_io \<Rightarrow> client \<Rightarrow> client" where
  "relay_start io s =
     (let s1 = (if current_env s \<noteq> [] then send_or_lose (Env (current_env s)) s else s);
          s2 = send_size io s1;
          s3 = (if current_redraw s2 then send_or_lose (Data [0x0C]) s2 else s2)
      in if cphase s3 = Relaying then s3\<lparr>last_pong := io_now io\<rparr> else s3)"

definition apply_action :: "client_io \<Rightarrow> escape_action \<Rightarrow> client \<Rightarrow> client" where
  "apply_action io a s =
     (if cphase s \<noteq> Relaying then s
      else case a of
             ActData d \<Rightarrow> send_or_lose (Data d) s
           | Detach \<Rightarrow> return_code 0 (print (text_bytes [] @ text_bytes ''[detached]'') s)
           | Suspend \<Rightarrow>
               (case io_suspend io of
                  Some e \<Rightarrow> s\<lparr>cphase := Finished (Inl e)\<rparr>
                | None \<Rightarrow> send_size io (clog_add SuspendSelf s))
           | Help \<Rightarrow> print ESCAPE_HELP s)"

definition on_stdin :: "client_io \<Rightarrow> io_error option \<Rightarrow> io_error + bytes \<Rightarrow> client \<Rightarrow> client" where
  "on_stdin io ready r s =
     (case ready of
        Some e \<Rightarrow> s\<lparr>cphase := Finished (Inl e)\<rparr>
      | None \<Rightarrow>
          (case r of
             Inr buf \<Rightarrow>
               if buf = [] then return_code 0 s
               else (case escape s of
                       Some p \<Rightarrow>
                         (case esc_process p buf of (actions, p') \<Rightarrow>
                            fold (apply_action io) actions (s\<lparr>escape := Some p'\<rparr>))
                     | None \<Rightarrow> send_or_lose (Data buf) s)
           | Inl e \<Rightarrow> if error_kind e = WouldBlock then s else s\<lparr>cphase := Finished (Inl e)\<rparr>))"

fun on_server :: "client_io \<Rightarrow> (io_error + frame) option \<Rightarrow> client \<Rightarrow> client" where
  "on_server io (Some (Inr (Data d))) s = print d s"
| "on_server io (Some (Inr Pong)) s = s\<lparr>last_pong := io_now io\<rparr>"
| "on_server io (Some (Inr (Exit code))) s = return_code code s"
| "on_server io (Some (Inr Detached)) s = return_code 0 (print (text_bytes ''[detached]'') s)"
| "on_server io (Some (Inr other)) s = s"
| "on_server io (Some (Inl e)) s = lost s"
| "on_server io None s = lost s"

definition on_tick :: "client_io \<Rightarrow> client \<Rightarrow> client" where
  "on_tick io s =
     (if io_now io - last_pong s > HEARTBEAT_TIMEOUT then lost s else send_or_lose Ping s)"

text \<open>One turn of the reconnect loop.\<close>

definition on_attempt :: "client_io \<Rightarrow> attempt \<Rightarrow> client \<Rightarrow> client" where
  "on_attempt io a s =
     (if peeked a = Inr [0x03] then return_code 1 (print (text_bytes []) s)
      else if \<not> connected a then s
      else if \<not> attach_sent a then clog_add (SendFailed (Attach (session_name s))) s
      else
        (let s1 = clog_add (Sent (Attach (session_name s))) s
         in case answered a of
              Some (Inr Ok) \<Rightarrow>
                (let s2 = print (text_bytes ''[reconnected]'') s1
                 in case cphase s2 of
                      Finished r \<Rightarrow> s2
                    | _ \<Rightarrow> relay_start io (s2\<lparr>cphase := Relaying, current_redraw := True\<rparr>))
            | Some (Inr (Error message)) \<Rightarrow>
                return_code 1 (print (text_bytes (''[session gone: '' @ message @ '']'')) s1)
            | _ \<Rightarrow> s1))"

definition new_client :: "string \<Rightarrow> bool \<Rightarrow> (string \<times> string) list \<Rightarrow> bool \<Rightarrow> client" where
  "new_client name redraw env no_escape =
     \<lparr>cphase = Relaying, session_name = name, current_env = env, current_redraw = redraw,
      escape = (if no_escape then None else Some new_processor), last_pong = 0,
      send_results = [], print_results = [], clog = []\<rparr>"

definition with_io :: "client_io \<Rightarrow> client \<Rightarrow> client" where
  "with_io io s = s\<lparr>send_results := io_sends io, print_results := io_prints io\<rparr>"

text \<open>\<open>run\<close> up to the loop of \<open>relay\<close>, with the terminal set up.\<close>

definition client_start :: "client_io \<Rightarrow> string \<Rightarrow> bool \<Rightarrow> (string \<times> string) list \<Rightarrow> bool \<Rightarrow> client" where
  "client_start io name redraw env no_escape =
     relay_start io (with_io io (new_client name redraw env no_escape))"

fun client_step :: "client \<Rightarrow> client_io \<times> client_event \<Rightarrow> client" where
  "client_step s (io, Attempt a) = (if cphase s = Lost then on_attempt io a (with_io io s) else s)"
| "client_step s (io, StdinReady ready r) =
     (if cphase s = Relaying then on_stdin io ready r (with_io io s) else s)"
| "client_step s (io, ServerFrame r) =
     (if cphase s = Relaying then on_server io r (with_io io s) else s)"
| "client_step s (io, Winch) = (if cphase s = Relaying then send_size io (with_io io s) else s)"
| "client_step s (io, Tick) = (if cphase s = Relaying then on_tick io (with_io io s) else s)"

abbreviation run_client :: "client \<Rightarrow> (client_io \<times> client_event) list \<Rightarrow> client" where
  "run_client \<equiv> run_steps client_step"

section \<open>Frames of the operations\<close>

lemma clog_add_fields [simp]:
  "cphase (clog_add e s) = cphase s" "current_env (clog_add e s) = current_env s"
  "escape (clog_add e s) = escape s" "last_pong (clog_add e s) = last_pong s"
  "send_results (clog_add e s) = send_results s" "print_results (clog_add e s) = print_results s"
  "session_name (clog_add e s) = session_name s" "current_redraw (clog_add e s) = current_redraw s"
  "clog (clog_add e s) = clog s @ [e]"
  by (simp_all add: clog_add_def)

lemma with_io_fields [simp]:
  "cphase (with_io io s) = cphase s" "current_env (with_io io s) = current_env s"
  "escape (with_io io s) = escape s" "last_pong (with_io io s) = last_pong s"
  "send_results (with_io io s) = io_sends io" "print_results (with_io io s) = io_prints io"
  "session_name (with_io io s) = session_name s" "current_redraw (with_io io s) = current_redraw s"
  "clog (with_io io s) = clog s"
  by (simp_all add: with_io_def)

text \<open>Calls that all succeed.\<close>

definition calm_io :: "client_io \<Rightarrow> bool" where
  "calm_io io \<longleftrightarrow> False \<notin> set (io_sends io) \<and> set (io_prints io) \<subseteq> {None} \<and> io_suspend io = None"

definition calm :: "client \<Rightarrow> bool" where
  "calm s \<longleftrightarrow> False \<notin> set (send_results s) \<and> set (print_results s) \<subseteq> {None}"

lemma calm_simps [simp]:
  "calm_io io \<Longrightarrow> calm (with_io io s)" "calm (clog_add e s) = calm s"
  "calm (s\<lparr>escape := x\<rparr>) = calm s" "calm (s\<lparr>last_pong := t\<rparr>) = calm s" "calm (s\<lparr>cphase := p\<rparr>) = calm s"
  "calm (s\<lparr>current_redraw := b\<rparr>) = calm s"
  by (auto simp: calm_io_def calm_def)

lemma send_calm:
  assumes "calm s" and "cphase s = Relaying"
  shows "send_or_lose f s = (clog_add (Sent f) s)\<lparr>send_results := drop 1 (send_results s)\<rparr>"
  using assms by (auto simp: send_or_lose_def calm_def split: list.split bool.split)

lemma print_calm:
  assumes "calm s"
  shows "print d s = (clog_add (Printed d) s)\<lparr>print_results := drop 1 (print_results s)\<rparr>"
  using assms by (auto simp: print_def calm_def split: list.split option.split)

lemma calm_drop [simp]:
  "calm s \<Longrightarrow> calm (t\<lparr>send_results := drop 1 (send_results s)\<rparr>) = (set (print_results t) \<subseteq> {None})"
  "calm s \<Longrightarrow> calm (t\<lparr>print_results := drop 1 (print_results s)\<rparr>) = (False \<notin> set (send_results t))"
  by (auto simp: calm_def dest: in_set_dropD)

lemma calm_send [simp]: "calm s \<Longrightarrow> cphase s = Relaying \<Longrightarrow> calm (send_or_lose f s)"
  by (auto simp: send_calm) (auto simp: calm_def dest: in_set_dropD)

lemma calm_print [simp]: "calm s \<Longrightarrow> calm (print d s)"
  by (auto simp: print_calm) (auto simp: calm_def dest!: in_set_dropD)

lemma send_calm_fields [simp]:
  assumes "calm s" and "cphase s = Relaying"
  shows "cphase (send_or_lose f s) = Relaying" "clog (send_or_lose f s) = clog s @ [Sent f]"
    "escape (send_or_lose f s) = escape s" "last_pong (send_or_lose f s) = last_pong s"
    "current_env (send_or_lose f s) = current_env s" "current_redraw (send_or_lose f s) = current_redraw s"
    "session_name (send_or_lose f s) = session_name s"
  using assms by (simp_all add: send_calm)

lemma print_calm_fields [simp]:
  assumes "calm s"
  shows "cphase (print d s) = cphase s" "clog (print d s) = clog s @ [Printed d]"
    "escape (print d s) = escape s" "last_pong (print d s) = last_pong s"
    "current_env (print d s) = current_env s" "current_redraw (print d s) = current_redraw s"
    "session_name (print d s) = session_name s"
  using assms by (simp_all add: print_calm)

section \<open>Typed bytes and session output\<close>

definition sent_data :: "client_effect list \<Rightarrow> bytes" where
  "sent_data es = concat (map (\<lambda>e. case e of Sent (Data d) \<Rightarrow> d | _ \<Rightarrow> []) es)"

definition printed :: "client_effect list \<Rightarrow> bytes" where
  "printed es = concat (map (\<lambda>e. case e of Printed d \<Rightarrow> d | _ \<Rightarrow> []) es)"

lemma effects_simps [simp]:
  "sent_data [] = []" "sent_data (es @ fs) = sent_data es @ sent_data fs"
  "sent_data (Sent (Data d) # es) = d @ sent_data es"
  "sent_data (Sent (Resize c r) # es) = sent_data es" "sent_data (Sent Ping # es) = sent_data es"
  "sent_data (Printed d # es) = sent_data es" "sent_data (SuspendSelf # es) = sent_data es"
  "printed [] = []" "printed (es @ fs) = printed es @ printed fs"
  "printed (Printed d # es) = d @ printed es" "printed (Sent f # es) = printed es"
  by (simp_all add: sent_data_def printed_def)

lemma sent_bytes_Byte [simp]: "sent_bytes (map Byte d @ evs) = d @ sent_bytes evs"
  by (induction d) auto

lemma apply_action_calm:
  assumes "calm s" and "cphase s = Relaying" and "io_suspend io = None" and "a \<noteq> Detach"
  shows "calm (apply_action io a s) \<and> cphase (apply_action io a s) = Relaying
    \<and> escape (apply_action io a s) = escape s
    \<and> sent_data (clog (apply_action io a s)) = sent_data (clog s) @ sent_bytes (events_of a)"
  using assms sent_bytes_Byte [of _ "[]"]
  by (cases a) (auto simp: apply_action_def send_size_def split: prod.split)

lemma apply_actions_calm:
  assumes "calm s" and "cphase s = Relaying" and "io_suspend io = None" and "Detach \<notin> set actions"
  shows "calm (fold (apply_action io) actions s) \<and> cphase (fold (apply_action io) actions s) = Relaying
    \<and> escape (fold (apply_action io) actions s) = escape s
    \<and> sent_data (clog (fold (apply_action io) actions s)) = sent_data (clog s) @ sent_bytes (flatten actions)"
  using assms
proof (induction actions arbitrary: s)
  case (Cons a as)
  then have "a \<noteq> Detach" by auto
  with Cons apply_action_calm [of s io a] show ?case by simp
qed simp

definition typed :: "client_io \<times> bytes \<Rightarrow> client_io \<times> client_event" where
  "typed = (\<lambda>(io, buf). (io, StdinReady None (Inr buf)))"

lemma typed_step:
  assumes "cphase s = Relaying" and "calm_io io" and "buf \<noteq> []" and "escape s = Some p"
    and "EvDetach \<notin> set (snd (esc_spec (esc_state p) buf))"
  shows "cphase (client_step s (typed (io, buf))) = Relaying"
    "escape (client_step s (typed (io, buf))) = Some (snd (esc_process p buf))"
    "sent_data (clog (client_step s (typed (io, buf)))) =
       sent_data (clog s) @ sent_bytes (snd (esc_spec (esc_state p) buf))"
proof -
  let ?s = "(with_io io s)\<lparr>escape := Some (snd (esc_process p buf))\<rparr>"
  have "Detach \<notin> set (fst (esc_process p buf))"
    using assms(5) by (simp add: Detach_in_flatten esc_process_flatten)
  with assms(1,2) have a: "cphase (fold (apply_action io) (fst (esc_process p buf)) ?s) = Relaying"
    "escape (fold (apply_action io) (fst (esc_process p buf)) ?s) = Some (snd (esc_process p buf))"
    "sent_data (clog (fold (apply_action io) (fst (esc_process p buf)) ?s)) =
      sent_data (clog s) @ sent_bytes (snd (esc_spec (esc_state p) buf))"
    using apply_actions_calm [of ?s io "fst (esc_process p buf)"]
    by (simp_all add: calm_io_def esc_process_flatten)
  with assms show "cphase (client_step s (typed (io, buf))) = Relaying"
    "escape (client_step s (typed (io, buf))) = Some (snd (esc_process p buf))"
    "sent_data (clog (client_step s (typed (io, buf)))) =
       sent_data (clog s) @ sent_bytes (snd (esc_spec (esc_state p) buf))"
    by (simp_all add: typed_def on_stdin_def case_prod_beta)
qed

lemma typed_run:
  assumes "cphase s = Relaying" and "escape s = Some p"
    and "\<forall>(io, buf) \<in> set reads. calm_io io \<and> buf \<noteq> []"
    and "EvDetach \<notin> set (snd (esc_spec (esc_state p) (concat (map snd reads))))"
  shows "cphase (run_client s (map typed reads)) = Relaying
    \<and> sent_data (clog (run_client s (map typed reads))) =
        sent_data (clog s) @ sent_bytes (snd (esc_spec (esc_state p) (concat (map snd reads))))"
  using assms
proof (induction reads arbitrary: s p)
  case (Cons r reads)
  obtain io buf where r: "r = (io, buf)" by (cases r)
  let ?rest = "concat (map snd reads)"
  have nd: "EvDetach \<notin> set (snd (esc_spec (esc_state p) buf))"
    using Cons.prems(4) by (auto simp: r esc_spec_append case_prod_beta split: if_splits)
  have io: "calm_io io" "buf \<noteq> []" using Cons.prems(3) by (auto simp: r)
  note st = typed_step [OF Cons.prems(1) io Cons.prems(2) nd]
  have split: "snd (esc_spec (esc_state p) (buf @ ?rest)) =
      snd (esc_spec (esc_state p) buf) @ snd (esc_spec (esc_state (snd (esc_process p buf))) ?rest)"
    using nd by (simp add: esc_spec_append case_prod_beta esc_process_state)
  have "cphase (run_client (client_step s (typed r)) (map typed reads)) = Relaying
    \<and> sent_data (clog (run_client (client_step s (typed r)) (map typed reads))) =
        sent_data (clog (client_step s (typed r))) @ sent_bytes (snd (esc_spec (esc_state (snd (esc_process p buf))) ?rest))"
    using Cons.prems(3,4) st by (intro Cons.IH) (auto simp: r split)
  with st(3) split show ?case by (simp add: r)
qed simp

section \<open>Invariant and log of the client\<close>

definition sends_env :: "client_effect list \<Rightarrow> bool" where
  "sends_env es \<longleftrightarrow> (\<exists>vars. Sent (Env vars) \<in> set es)"

lemma sends_env_simps [simp]:
  "\<not> sends_env []" "sends_env (es @ fs) \<longleftrightarrow> sends_env es \<or> sends_env fs"
  "sends_env (Sent f # es) \<longleftrightarrow> (\<exists>vars. f = Env vars) \<or> sends_env es"
  "sends_env (Printed d # es) = sends_env es" "sends_env (PrintFailed d # es) = sends_env es"
  "sends_env (SendFailed f # es) = sends_env es" "sends_env (SuspendSelf # es) = sends_env es"
  by (auto simp: sends_env_def)

text \<open>Once the connection is lost the environment is forgotten; a finished client stays so.\<close>

definition client_inv :: "client \<Rightarrow> bool" where
  "client_inv s \<longleftrightarrow> (cphase s = Lost \<longrightarrow> current_env s = [])"

text \<open>The messages of its own that a client prints.\<close>

definition own_message :: "bytes \<Rightarrow> bool" where
  "own_message b \<longleftrightarrow>
     b \<in> {text_bytes [], text_bytes ''[reconnecting...]'', text_bytes ''[reconnected]'', text_bytes ''[detached]'',
       text_bytes [] @ text_bytes ''[detached]'', ESCAPE_HELP}
     \<or> (\<exists>message. b = text_bytes (''[session gone: '' @ message @ '']''))"

text \<open>
  A relation between a state and what an operation makes of it, for frames it may send and bytes it
  may print: if the elementary operations respect it, so does every step, and every run.
\<close>

locale relay_relation =
  fixes rel :: "client \<Rightarrow> client \<Rightarrow> bool" and sends :: "frame \<Rightarrow> bool" and shows_bytes :: "bytes \<Rightarrow> bool"
  assumes rel_refl: "rel s s"
    and rel_trans: "rel s s' \<Longrightarrow> rel s' s'' \<Longrightarrow> rel s s''"
    and rel_env: "rel s s' \<Longrightarrow> current_env s = [] \<Longrightarrow> current_env s' = []"
    and rel_finished: "rel s (s\<lparr>cphase := Finished r\<rparr>)"
    and rel_pong: "rel s (s\<lparr>last_pong := t\<rparr>)"
    and rel_escape: "rel s (s\<lparr>escape := x\<rparr>)"
    and rel_io: "rel s (with_io io s)"
    and rel_print: "shows_bytes d \<Longrightarrow> rel s (print d s)"
    and rel_lost: "rel s (lost s)"
    and rel_return: "rel s (return_code k s)"
    and rel_suspend: "rel s (clog_add SuspendSelf s)"
    and rel_send: "sends f \<Longrightarrow> rel s (send_or_lose f s)"
    and sends_relayed: "sends (Data d)" "sends (Resize cols rows)" "sends Ping"
    and shows_own: "own_message d \<Longrightarrow> shows_bytes d"
begin

lemmas rel_elementary = rel_refl rel_finished rel_pong rel_escape rel_io rel_print rel_lost rel_return
  rel_suspend rel_send [OF sends_relayed(1)] rel_send [OF sends_relayed(2)]
  rel_send [OF sends_relayed(3)]

lemma rel_send_size: "rel s (send_size io s)"
  by (simp add: send_size_def rel_elementary split: prod.split)

lemma rel_return_print: "shows_bytes d \<Longrightarrow> rel s (return_code k (print d s))"
  by (rule rel_trans [OF rel_print rel_return])

lemma shows_messages [simp]:
  "shows_bytes (text_bytes [])" "shows_bytes (text_bytes ''[reconnected]'')" "shows_bytes (text_bytes ''[detached]'')"
  "shows_bytes (text_bytes [] @ text_bytes ''[detached]'')" "shows_bytes ESCAPE_HELP"
  by (rule shows_own, simp add: own_message_def)+

lemma shows_session_gone: "shows_bytes (text_bytes (''[session gone: '' @ message @ '']''))"
  by (rule shows_own, unfold own_message_def, blast)

lemmas shows_session_gone' [simp] = shows_session_gone [simplified]

lemma rel_action: "rel s (apply_action io a s)"
  using rel_trans [OF rel_suspend rel_send_size]
  by (cases a) (simp_all add: apply_action_def rel_elementary rel_return_print split: option.split)

lemma rel_actions: "rel s (fold (apply_action io) actions s)"
  by (induction actions arbitrary: s) (auto intro: rel_refl rel_trans rel_action)

lemma rel_stdin: "rel s (on_stdin io ready r s)"
  using rel_trans [OF rel_escape rel_actions]
  by (simp add: on_stdin_def case_prod_beta rel_elementary split: option.split sum.split)

lemma rel_server: "(\<And>d. r = Some (Inr (Data d)) \<Longrightarrow> shows_bytes d) \<Longrightarrow> rel s (on_server io r s)"
  by (cases "(io, r, s)" rule: on_server.cases) (simp_all add: rel_elementary rel_return_print)

lemma rel_tick: "rel s (on_tick io s)"
  by (simp add: on_tick_def rel_elementary)

lemma rel_relay_start:
  assumes "current_env s = [] \<or> sends (Env (current_env s))"
  shows "rel s (relay_start io s)"
proof -
  let ?s1 = "if current_env s \<noteq> [] then send_or_lose (Env (current_env s)) s else s"
  let ?s2 = "send_size io ?s1"
  let ?s3 = "if current_redraw ?s2 then send_or_lose (Data [0x0C]) ?s2 else ?s2"
  have "rel s ?s1" using assms by (auto intro: rel_refl rel_send)
  then have "rel s ?s2" using rel_send_size by (rule rel_trans)
  moreover have "rel ?s2 ?s3" by (simp add: rel_elementary)
  ultimately have "rel s ?s3" by (rule rel_trans)
  with rel_trans [OF this rel_pong] show ?thesis by (simp add: relay_start_def Let_def)
qed

lemma rel_relay_step:
  assumes "\<And>d. snd e = ServerFrame (Some (Inr (Data d))) \<Longrightarrow> shows_bytes d"
    and "\<And>a. snd e = Attempt a \<Longrightarrow> peeked a = Inr [0x03] \<or> \<not> connected a"
  shows "rel s (client_step s e)"
proof -
  obtain io ev where e: "e = (io, ev)" by (cases e)
  have w: "rel (with_io io s) s' \<Longrightarrow> rel s s'" for s'
    by (rule rel_trans [OF rel_io])
  have "rel s (client_step s (io, Attempt a))" if "ev = Attempt a" for a
    using assms(2) [of a] that unfolding e
    by (auto simp: rel_refl on_attempt_def rel_elementary rel_return_print intro!: w)
  with assms(1) show ?thesis
    unfolding e by (cases ev) (auto simp: rel_refl intro!: w rel_stdin rel_server rel_tick rel_send_size)
qed

end

text \<open>With the reconnect loop.\<close>

locale client_relation = relay_relation +
  assumes rel_failed: "rel s (clog_add (SendFailed (Attach (session_name s))) s)"
    and rel_attach: "rel s (clog_add (Sent (Attach (session_name s))) s)"
    and rel_reconnected: "current_env s = [] \<Longrightarrow> rel s (s\<lparr>cphase := Relaying, current_redraw := True\<rparr>)"
begin

lemma rel_attempt:
  assumes "current_env s = []"
  shows "rel s (on_attempt io a s)"
proof -
  let ?s1 = "clog_add (Sent (Attach (session_name s))) s"
  let ?s2 = "print (text_bytes ''[reconnected]'') ?s1"
  let ?s3 = "?s2\<lparr>cphase := Relaying, current_redraw := True\<rparr>"
  have s2: "rel s ?s2" by (rule rel_trans [OF rel_attach rel_print]) simp
  with assms have e: "current_env ?s2 = []" by (blast dest: rel_env)
  then have s3: "rel s ?s3" using rel_trans [OF s2 rel_reconnected] by blast
  have "rel s (relay_start io ?s3)" using e by (intro rel_trans [OF s3 rel_relay_start]) simp
  with s2 rel_trans [OF rel_attach rel_return_print] show ?thesis
    by (simp add: on_attempt_def Let_def rel_elementary rel_failed rel_attach rel_return_print
        split: option.split sum.split frame.split client_phase.split)
qed

lemma rel_step:
  assumes "client_inv s" and "\<And>d. snd e = ServerFrame (Some (Inr (Data d))) \<Longrightarrow> shows_bytes d"
  shows "rel s (client_step s e)"
proof -
  obtain io ev where e: "e = (io, ev)" by (cases e)
  show ?thesis
  proof (cases "\<exists>a. ev = Attempt a")
    case True
    then obtain a where a: "ev = Attempt a" by blast
    have "rel s (on_attempt io a (with_io io s))" if "cphase s = Lost"
      using that assms(1) by (intro rel_trans [OF rel_io rel_attempt]) (simp add: client_inv_def with_io_def)
    with a show ?thesis unfolding e by (simp add: rel_refl)
  next
    case False
    then show ?thesis by (intro rel_relay_step assms(2)) (simp_all add: e)
  qed
qed

end

text \<open>What every operation but the sending of \<open>Env\<close> does to the log and the invariant.\<close>

definition quietly :: "client \<Rightarrow> client \<Rightarrow> bool" where
  "quietly s s' \<longleftrightarrow>
     (\<exists>new. clog s' = clog s @ new \<and> \<not> sends_env new) \<and> (client_inv s \<longrightarrow> client_inv s')
     \<and> (current_env s = [] \<longrightarrow> current_env s' = [])"

definition not_env :: "frame \<Rightarrow> bool" where
  "not_env f \<longleftrightarrow> (\<forall>vars. f \<noteq> Env vars)"

interpretation quiet: client_relation quietly not_env "\<lambda>d. True"
proof
  fix s s' s'' :: client
  show "quietly s s' \<Longrightarrow> quietly s' s'' \<Longrightarrow> quietly s s''"
    unfolding quietly_def by (metis append.assoc sends_env_simps(2))
  show "not_env f \<Longrightarrow> quietly s (send_or_lose f s)" for f
    by (auto simp: quietly_def not_env_def client_inv_def send_or_lose_def lost_def print_def
        split: list.split bool.split option.split)
qed (auto simp: quietly_def not_env_def client_inv_def print_def lost_def return_code_def
    split: list.split option.split client_phase.split)

text \<open>The client is a machine with a log of what it sent and printed.\<close>

interpretation client_loop: logging_machine client_step client_inv clog
proof
  fix s :: client and e
  assume "client_inv s"
  from quiet.rel_step [OF this, of e, OF TrueI] this
  show "client_inv (client_step s e)" "\<exists>new. clog (client_step s e) = clog s @ new"
    by (auto simp: quietly_def)
qed

lemma quietly_run: "client_inv s \<Longrightarrow> quietly s (run_client s es)"
proof (induction es arbitrary: s)
  case Nil
  show ?case by (simp add: quiet.rel_refl)
next
  case (Cons e es)
  have q: "quietly s (client_step s e)" by (rule quiet.rel_step [OF Cons.prems TrueI])
  then have "client_inv (client_step s e)" using Cons.prems by (simp add: quietly_def)
  from quiet.rel_trans [OF q Cons.IH [OF this]] show ?case by simp
qed

section \<open>Properties of the client\<close>

definition calm_at :: "nat \<Rightarrow> client_io" where
  "calm_at t = \<lparr>io_sends = [], io_prints = [], io_winsize = (80, 24), io_now = t, io_suspend = None\<rparr>"

lemma calm_at_calm [simp]: "calm_io (calm_at t)" "io_now (calm_at t) = t" "io_sends (calm_at t) = []"
  "io_prints (calm_at t) = []" "io_winsize (calm_at t) = (80, 24)"
  by (simp_all add: calm_at_def calm_io_def)

definition sample_client :: client where
  "sample_client = client_start (calm_at 0) ''0'' False [] False"

lemma sample_client_eq:
  "sample_client = (new_client ''0'' False [] False)\<lparr>clog := [Sent (Resize 80 24)]\<rparr>"
  by (simp add: sample_client_def client_start_def relay_start_def send_size_def send_or_lose_def
      with_io_def new_client_def clog_add_def)

text \<open>
  \<open>write_stdout\<close> writes the whole slice, in order and once, whatever short writes, \<open>EAGAIN\<close> and
  \<open>EINTR\<close> come between: if it returns \<open>Ok\<close>, exactly the data came out; in every case, also when it
  fails or is still waiting, what came out is a prefix of it.
\<close>

theorem write_stdout_writes_all:
  "prefix (fst (write_stdout data writes flushes)) data
   \<and> (snd (write_stdout data writes flushes) = Some (Inr ()) \<longrightarrow> fst (write_stdout data writes flushes) = data)"
proof -
  have "prefix (fst (write_loop data writes)) data
      \<and> (snd (write_loop data writes) = Some (Inr ()) \<longrightarrow> fst (write_loop data writes) = data)"
  proof (induction data writes rule: write_loop.induct)
    case (3 b bs n rs)
    have "prefix (take n (b # bs) @ fst (write_loop (drop n (b # bs)) rs)) (take n (b # bs) @ drop n (b # bs))"
      using 3 by (simp add: same_prefix_prefix del: append_take_drop_id)
    with 3 show ?case by (simp add: case_prod_beta)
  qed (auto split: if_splits)
  then show ?thesis
    by (auto simp: write_stdout_def case_prod_beta split: option.split sum.split)
qed

theorem write_stdout_writes_all_witness:
  "fst (write_stdout [1, 2, 3] [Inr 2, Inl (OsError EAGAIN), Inr 0, Inl (OsError EINTR), Inr 1] [None]) = [1, 2, 3]"
  using write_stdout_writes_all [of "[1, 2, 3]" "[Inr 2, Inl (OsError EAGAIN), Inr 0, Inl (OsError EINTR), Inr 1]" "[None]"]
  by (simp add: write_stdout_def)

text \<open>
  What the user types reaches the session.  For any sequence of reads while no call fails, the
  \<open>Data\<close> frames sent carry exactly the bytes that the escape transducer forwards for all the input
  taken together (as long as it has no \<open>~.\<close>), and the client goes on relaying.
\<close>

theorem typed_bytes_are_sent:
  assumes "cphase s = Relaying" and "escape s = Some p"
    and "\<forall>(io, buf) \<in> set reads. calm_io io \<and> buf \<noteq> []"
    and "EvDetach \<notin> set (snd (esc_spec (esc_state p) (concat (map snd reads))))"
  shows "cphase (run_client s (map typed reads)) = Relaying
    \<and> sent_data (clog (run_client s (map typed reads))) =
        sent_data (clog s) @ sent_bytes (snd (esc_spec (esc_state p) (concat (map snd reads))))"
  using typed_run [OF assms] .

theorem typed_bytes_are_sent_witness:
  "sent_data (clog (run_client sample_client (map typed [(calm_at 1, [0x6C]), (calm_at 2, [0x0D, 0x7E]), (calm_at 3, [0x7E])])))
     = [0x6C, 0x0D, 0x7E]"
  using typed_bytes_are_sent [of sample_client new_processor "[(calm_at 1, [0x6C]), (calm_at 2, [0x0D, 0x7E]), (calm_at 3, [0x7E])]"]
  by (simp add: sample_client_eq new_client_def new_processor_def)

lemma last_pong_ops [simp]:
  "last_pong (print d s) = last_pong s" "last_pong (lost s) = last_pong s"
  "last_pong (return_code k s) = last_pong s" "last_pong (send_or_lose f s) = last_pong s"
  "last_pong (send_size io s) = last_pong s" "last_pong (apply_action io a s) = last_pong s"
  by (simp_all add: print_def lost_def return_code_def send_or_lose_def send_size_def apply_action_def
      split: list.split option.split client_phase.split bool.split prod.split escape_action.split)

lemma last_pong_actions [simp]: "last_pong (fold (apply_action io) actions s) = last_pong s"
  by (induction actions arbitrary: s) simp_all

definition sign_of_life :: "client_event \<Rightarrow> bool" where
  "sign_of_life ev \<longleftrightarrow> (case ev of ServerFrame r \<Rightarrow> r = Some (Inr Pong) | Attempt a \<Rightarrow> True | _ \<Rightarrow> False)"

lemma last_pong_step: "\<not> sign_of_life ev \<Longrightarrow> last_pong (client_step s (io, ev)) = last_pong s"
proof (cases ev)
  case (StdinReady ready r)
  then show ?thesis by (auto simp: on_stdin_def case_prod_beta split: option.split sum.split)
next
  case (ServerFrame r)
  assume "\<not> sign_of_life ev"
  with ServerFrame show ?thesis
    by (cases "(io, r, with_io io s)" rule: on_server.cases) (auto simp: sign_of_life_def)
qed (auto simp: sign_of_life_def on_tick_def)

lemma late_tick_loses:
  assumes "\<forall>(io, ev) \<in> set es. \<not> sign_of_life ev" and "(io, Tick) \<in> set es" and "io_now io > last_pong s + 15000"
  shows "\<exists>n \<le> length es. cphase (run_client s (take n es)) \<noteq> Relaying"
  using assms
proof (induction es arbitrary: s)
  case (Cons e es)
  obtain io' ev where e: "e = (io', ev)" by (cases e)
  show ?case
  proof (cases "(io, Tick) \<in> set es")
    case True
    have "last_pong (client_step s e) = last_pong s"
      using Cons.prems(1) last_pong_step [of ev s io'] by (auto simp: e)
    with Cons.IH [of "client_step s e"] Cons.prems True obtain n where
      "n \<le> length es" "cphase (run_client (client_step s e) (take n es)) \<noteq> Relaying" by auto
    then show ?thesis by (intro exI [of _ "Suc n"]) simp
  next
    case False
    with Cons.prems(2) have "e = (io, Tick)" by simp
    with Cons.prems(3) have "cphase (client_step s e) \<noteq> Relaying"
      by (auto simp: on_tick_def HEARTBEAT_TIMEOUT_def lost_def print_def split: list.split option.split)
    then show ?thesis by (intro exI [of _ 1]) simp
  qed
qed simp

text \<open>
  C33. A dead connection is noticed within 20 seconds of the last sign of life: if no \<open>Pong\<close> arrives
  and the heartbeat ticks every 5 seconds from some \<open>t0\<close> not after the last \<open>Pong\<close>, the client leaves
  the relay loop by the tick that falls in the 5 seconds after the timeout of 15.
\<close>

theorem dead_peer_is_noticed:
  assumes "\<forall>(io, ev) \<in> set es. \<not> sign_of_life ev" and "t0 \<le> last_pong s"
    and "\<And>k. t0 + HEARTBEAT_INTERVAL * k \<le> last_pong s + 20000 \<Longrightarrow> k > 0 \<Longrightarrow>
           \<exists>io. io_now io = t0 + HEARTBEAT_INTERVAL * k \<and> (io, Tick) \<in> set es"
  shows "\<exists>n \<le> length es. cphase (run_client s (take n es)) \<noteq> Relaying"
proof -
  let ?d = "last_pong s + 20000 - t0"
  let ?k = "?d div 5000"
  have k: "5000 * ?k \<le> ?d" "?d < 5000 * ?k + 5000"
    using div_mult_mod_eq [of ?d 5000] mod_less_divisor [of 5000 ?d] by linarith+
  with assms(2) have b: "t0 + 5000 * ?k \<le> last_pong s + 20000" "t0 + 5000 * ?k > last_pong s + 15000" "?k > 0"
    by linarith+
  then obtain io where "io_now io = t0 + 5000 * ?k" "(io, Tick) \<in> set es"
    using assms(3) [of ?k] by (auto simp: HEARTBEAT_INTERVAL_def)
  with late_tick_loses [OF assms(1)] b show ?thesis by simp
qed

theorem dead_peer_is_noticed_witness:
  "\<exists>n \<le> 4. cphase (run_client sample_client
     (take n (map (\<lambda>k. (calm_at (5000 * k), Tick)) [1, 2, 3, 4]))) \<noteq> Relaying"
proof -
  let ?es = "map (\<lambda>k. (calm_at (5000 * k), Tick)) [1, 2, 3, 4]"
  have "\<exists>io. io_now io = 0 + HEARTBEAT_INTERVAL * k \<and> (io, Tick) \<in> set ?es"
    if "0 + HEARTBEAT_INTERVAL * k \<le> last_pong sample_client + 20000" "k > 0" for k
  proof -
    have "k \<le> 4" using that by (simp add: HEARTBEAT_INTERVAL_def sample_client_eq new_client_def)
    with that(2) have "k \<in> {1, 2, 3, 4}" by auto
    then show ?thesis by (intro exI [of _ "calm_at (5000 * k)"]) (auto simp: HEARTBEAT_INTERVAL_def)
  qed
  from dead_peer_is_noticed [of ?es 0 sample_client, OF _ _ this]
  have "\<exists>n \<le> length ?es. cphase (run_client sample_client (take n ?es)) \<noteq> Relaying"
    by (simp add: sign_of_life_def)
  moreover have "length ?es = 4" by simp
  ultimately show ?thesis by metis
qed

text \<open>
  The other direction: a tick at most 15 seconds after the last \<open>Pong\<close> sends a \<open>Ping\<close> and goes on.
\<close>

lemma timely_tick_pings:
  "cphase s = Relaying \<Longrightarrow> calm_io io \<Longrightarrow> io_now io \<le> last_pong s + 15000 \<Longrightarrow>
   cphase (client_step s (io, Tick)) = Relaying \<and> clog (client_step s (io, Tick)) = clog s @ [Sent Ping]"
  using diff_le_mono [of "io_now io" "last_pong s + 15000" "last_pong s"]
  by (auto simp: on_tick_def HEARTBEAT_TIMEOUT_def)

text \<open>
  No false alarm.  \<open>timely\<close>: every tick comes at most 15 seconds after the last \<open>Pong\<close> before it, \<open>t\<close> at
  the beginning.
\<close>

fun timely :: "nat \<Rightarrow> (client_io \<times> client_event) list \<Rightarrow> bool" where
  "timely t [] = True"
| "timely t ((io, Tick) # es) \<longleftrightarrow> io_now io \<le> t + 15000 \<and> timely t es"
| "timely t ((io, ServerFrame (Some (Inr Pong))) # es) = timely (io_now io) es"
| "timely t (e # es) = timely t es"

definition steady :: "client \<Rightarrow> bool" where
  "steady s \<longleftrightarrow> False \<notin> set (send_results s) \<and> cphase s \<noteq> Lost"

lemma steady_ops [simp]:
  assumes "steady s"
  shows "steady (send_or_lose f s)" "steady (print d s)" "steady (return_code k s)" "steady (clog_add x s)"
    "steady (s\<lparr>cphase := Finished r\<rparr>)" "steady (s\<lparr>escape := p\<rparr>)" "steady (s\<lparr>last_pong := t\<rparr>)"
  using assms
  by (auto simp: steady_def send_or_lose_def print_def return_code_def clog_add_def dest: in_set_dropD
      split: list.split bool.split option.split client_phase.split)

lemma steady_send_size [simp]: "steady s \<Longrightarrow> steady (send_size io s)"
  by (simp add: send_size_def split: prod.split)

lemma steady_actions: "steady s \<Longrightarrow> steady (fold (apply_action io) actions s)"
proof (induction actions arbitrary: s)
  case (Cons a as)
  then have "steady (apply_action io a s)"
    by (cases a) (simp_all add: apply_action_def split: option.split)
  with Cons.IH show ?case by simp
qed simp

text \<open>Calls that send, and an event that is not the end of the connection.\<close>

definition connected_event :: "client_io \<times> client_event \<Rightarrow> bool" where
  "connected_event = (\<lambda>(io, ev). False \<notin> set (io_sends io) \<and> ev \<noteq> ServerFrame None \<and> (\<forall>e. ev \<noteq> ServerFrame (Some (Inl e))))"

lemma steady_step:
  assumes "cphase s = Relaying" and "connected_event (io, ev)" and "ev = Tick \<Longrightarrow> io_now io \<le> last_pong s + 15000"
  shows "cphase (client_step s (io, ev)) \<noteq> Lost"
proof -
  have w: "steady (with_io io s)" using assms(1,2) by (simp add: steady_def connected_event_def)
  have "steady (client_step s (io, ev)) \<or> client_step s (io, ev) = s"
  proof (cases ev)
    case (ServerFrame r)
    with assms w show ?thesis
      by (cases "(io, r, s)" rule: on_server.cases) (auto simp: connected_event_def)
  next
    case (StdinReady ready r)
    with assms(1) w show ?thesis
      by (auto simp: on_stdin_def steady_actions split: option.split sum.split prod.split)
  next
    case Tick
    then have "\<not> 15000 < io_now io - last_pong s" using assms(3) by simp
    with Tick assms(1) w show ?thesis by (simp add: on_tick_def HEARTBEAT_TIMEOUT_def)
  next
    case (Attempt a)
    with assms(1) show ?thesis by simp
  qed (use assms(1) w in simp)
  with assms(1) show ?thesis by (auto simp: steady_def)
qed

text \<open>
  C34. A live connection is never given up.  As long as every tick comes within 15 seconds of a
  \<open>Pong\<close>, sends succeed and the socket brings frames, nothing makes the client reconnect: whatever
  is typed, printed or resized meanwhile, it goes on relaying or ends for good.
\<close>

theorem live_connection_is_kept:
  assumes "cphase s = Relaying" and "timely (last_pong s) es" and "\<forall>e \<in> set es. connected_event e"
  shows "cphase (run_client s es) \<noteq> Lost"
proof -
  have "cphase (run_client s es) \<noteq> Lost" if "cphase s \<noteq> Lost" "cphase s = Relaying \<longrightarrow> timely (last_pong s) es" for s
    using that assms(3)
  proof (induction es arbitrary: s)
    case (Cons e es)
    obtain io ev where e: "e = (io, ev)" by (cases e)
    show ?case
    proof (cases "cphase s = Relaying")
      case True
      have t: "timely (last_pong s) ((io, ev) # es)" using True Cons.prems(2) e by simp
      have "cphase (client_step s (io, ev)) \<noteq> Lost"
        using True t Cons.prems(3) e by (intro steady_step) auto
      moreover have "timely (last_pong (client_step s (io, ev))) es"
        if "cphase (client_step s (io, ev)) = Relaying"
      proof (cases "ev = ServerFrame (Some (Inr Pong))")
        case True
        with t \<open>cphase s = Relaying\<close> show ?thesis by simp
      next
        case False
        have "last_pong (client_step s (io, ev)) = last_pong s"
        proof (cases "sign_of_life ev")
          case True
          with False \<open>cphase s = Relaying\<close> show ?thesis
            by (cases ev) (auto simp: sign_of_life_def)
        qed (rule last_pong_step)
        moreover have "timely (last_pong s) es"
          using t False by (cases "(last_pong s, (io, ev) # es)" rule: timely.cases) auto
        ultimately show ?thesis by simp
      qed
      ultimately show ?thesis using Cons.IH [of "client_step s e"] Cons.prems(3) e by simp
    next
      case False
      with Cons.prems(1) have "client_step s e = s" by (cases ev) (simp_all add: e)
      with Cons.IH [of s] Cons.prems False show ?thesis by simp
    qed
  qed simp
  with assms(1,2) show ?thesis by simp
qed

theorem live_connection_is_kept_witness:
  "cphase (run_client sample_client
     [(calm_at 5000, Tick), (calm_at 5003, ServerFrame (Some (Inr Pong))), (calm_at 20003, Tick)]) \<noteq> Lost"
  by (rule live_connection_is_kept) (simp_all add: sample_client_eq new_client_def connected_event_def)

text \<open>
  The environment is sent at most once, as the first frame of the first connection: after the
  start of the client no step, in particular no reconnection, sends an \<open>Env\<close> frame.
\<close>

theorem env_is_sent_only_at_start:
  "\<exists>later. clog (run_client (client_start io name redraw env no_escape) es)
       = clog (client_start io name redraw env no_escape) @ later \<and> \<not> sends_env later"
proof -
  have l: "client_inv (lost s)" for s
    by (simp add: client_inv_def lost_def print_def split: list.split option.split)
  have "client_inv (send_or_lose f s)" if "client_inv s" for f s
    using that l by (auto simp: send_or_lose_def client_inv_def split: list.split bool.split)
  then have "client_inv (client_start io name redraw env no_escape)"
    by (auto simp: client_start_def relay_start_def Let_def send_size_def split: prod.split)
      (auto simp: client_inv_def new_client_def)
  from quietly_run [OF this, of es] show ?thesis by (simp add: quietly_def)
qed

text \<open>A turn of the reconnect loop on which the daemon does not settle the matter.\<close>

definition fruitless :: "attempt \<Rightarrow> bool" where
  "fruitless a \<longleftrightarrow> peeked a \<noteq> Inr [0x03]
     \<and> (connected a \<longrightarrow> attach_sent a \<longrightarrow>
          (\<forall>m. answered a \<noteq> Some (Inr (Error m))) \<and> answered a \<noteq> Some (Inr Ok))"

lemma fruitless_step:
  assumes "cphase s = Lost" and "fruitless a"
  shows "cphase (client_step s (io, Attempt a)) = Lost" "printed (clog (client_step s (io, Attempt a))) = printed (clog s)"
    "sent_data (clog (client_step s (io, Attempt a))) = sent_data (clog s)"
  using assms
  by (auto simp: on_attempt_def fruitless_def Let_def printed_def sent_data_def
      split: option.split sum.split frame.split)

text \<open>
  The client keeps trying: after any number of turns on which it cannot connect, cannot send or
  gets no answer, the first turn on which the daemon answers \<open>Ok\<close> brings it back into the relay loop
  (with a redraw), and the first on which it answers \<open>Error\<close> ends it with code 1.
\<close>

theorem client_keeps_reconnecting:
  assumes "cphase s = Lost" and "\<forall>(io, ev) \<in> set es. \<exists>a. ev = Attempt a \<and> fruitless a"
    and "calm_io io" and "peeked a \<noteq> Inr [0x03]" and "connected a" and "attach_sent a"
  shows "(answered a = Some (Inr Ok) \<longrightarrow> cphase (run_client s (es @ [(io, Attempt a)])) = Relaying)
    \<and> (answered a = Some (Inr (Error m)) \<longrightarrow> cphase (run_client s (es @ [(io, Attempt a)])) = Finished (Inr 1))"
proof -
  have "cphase (run_client s es) = Lost"
    using assms(1,2)
  proof (induction es arbitrary: s)
    case (Cons e es)
    then obtain io' a' where "e = (io', Attempt a')" "fruitless a'" by (cases e) auto
    with fruitless_step(1) Cons show ?case by simp
  qed simp
  then show ?thesis
    using assms(3-6)
    by (auto simp: on_attempt_def Let_def relay_start_def send_size_def return_code_def split: prod.split)
qed

theorem client_keeps_reconnecting_witness:
  "cphase (run_client (sample_client\<lparr>cphase := Lost\<rparr>)
     ([(calm_at 1000, Attempt \<lparr>peeked = Inl (OsError EAGAIN), connected = False, attach_sent = False, answered = None\<rparr>)]
      @ [(calm_at 2000, Attempt \<lparr>peeked = Inl (OsError EAGAIN), connected = True, attach_sent = True, answered = Some (Inr Ok)\<rparr>)]))
   = Relaying"
  using client_keeps_reconnecting [of "sample_client\<lparr>cphase := Lost\<rparr>"
      "[(calm_at 1000, Attempt \<lparr>peeked = Inl (OsError EAGAIN), connected = False, attach_sent = False, answered = None\<rparr>)]"
      "calm_at 2000" "\<lparr>peeked = Inl (OsError EAGAIN), connected = True, attach_sent = True, answered = Some (Inr Ok)\<rparr>"]
  by (simp add: fruitless_def)

definition idle_turn :: "io_error + bytes \<Rightarrow> client_event" where
  "idle_turn r = Attempt \<lparr>peeked = r, connected = False, attach_sent = False, answered = None\<rparr>"

text \<open>
  While reconnecting, input is thrown away and \<open>Ctrl-C\<close> can be missed: each turn reads one byte
  of the terminal and drops it unless it is \<open>Ctrl-C\<close> itself, so a \<open>Ctrl-C\<close> typed after \<open>n\<close> other bytes
  ends the client only on turn \<open>n + 1\<close>, and those bytes are never sent.
\<close>

theorem reconnecting_swallows_input:
  assumes "cphase s = Lost" and "0x03 \<notin> set typed_first" and "calm_io io"
  shows "let s' = run_client s (map (\<lambda>b. (io, idle_turn (Inr [b]))) typed_first)
    in cphase s' = Lost \<and> clog s' = clog s
       \<and> cphase (client_step s' (io, idle_turn (Inr [0x03]))) = Finished (Inr 1)"
proof -
  have "cphase (run_client s (map (\<lambda>b. (io, idle_turn (Inr [b]))) typed_first)) = Lost
      \<and> clog (run_client s (map (\<lambda>b. (io, idle_turn (Inr [b]))) typed_first)) = clog s"
    using assms(1,2)
  proof (induction typed_first arbitrary: s)
    case (Cons b bs)
    then show ?case by (simp add: idle_turn_def on_attempt_def)
  qed simp
  with assms(3) show ?thesis by (simp add: Let_def idle_turn_def on_attempt_def return_code_def)
qed

theorem reconnecting_swallows_input_witness:
  "cphase (run_client (sample_client\<lparr>cphase := Lost\<rparr>) (map (\<lambda>b. (calm_at 9, idle_turn (Inr [b]))) [0x6C, 0x73])) = Lost"
  using reconnecting_swallows_input [of "sample_client\<lparr>cphase := Lost\<rparr>" "[0x6C, 0x73]" "calm_at 9"]
  by (simp add: Let_def)

end
