(* ===== verification/End_To_End.thy ===== *)
theory End_To_End
  imports Client Daemon_Props
begin

text \<open>
  The client, the wire and the session task together: what the user types reaches the shell, what
  the shell prints reaches the user, and what becomes of the first client's greeting.
\<close>

section \<open>The wire between client and session\<close>

definition sent_frames :: "client_effect list \<Rightarrow> frame list" where
  "sent_frames es = List.map_filter (\<lambda>e. case e of Sent f \<Rightarrow> Some f | _ \<Rightarrow> None) es"

lemma sent_frames_simps [simp]:
  "sent_frames [] = []" "sent_frames (es @ fs) = sent_frames es @ sent_frames fs"
  "sent_frames (Sent f # es) = f # sent_frames es" "sent_frames (Printed d # es) = sent_frames es"
  "sent_frames (SuspendSelf # es) = sent_frames es"
  by (simp_all add: sent_frames_def List.map_filter_def)

fun data_of :: "frame \<Rightarrow> bytes" where
  "data_of (Data d) = d"
| "data_of _ = []"

lemma sent_data_frames: "sent_data es = concat (map data_of (sent_frames es))"
proof (induction es)
  case (Cons e es)
  have "sent_data (e # es) = sent_data [e] @ sent_data es" by (simp add: sent_data_def)
  moreover have "sent_data [e] = concat (map data_of (sent_frames [e]))"
    by (cases e) (auto simp: sent_data_def sent_frames_def List.map_filter_def split: frame.split)
  moreover have "sent_frames (e # es) = sent_frames [e] @ sent_frames es"
    by (simp add: sent_frames_def List.map_filter_def)
  ultimately show ?case using Cons by simp
qed simp

text \<open>Every frame sent while typing is one that the codec carries: no action is larger than the read.\<close>

definition small_frame :: "frame \<Rightarrow> bool" where
  "small_frame f \<longleftrightarrow> (case f of Data d \<Rightarrow> length d \<le> 5000 | Resize c r \<Rightarrow> True | _ \<Rightarrow> False)"

lemma small_frame_sendable: "small_frame f \<Longrightarrow> sendable f"
  by (cases f) (auto simp: small_frame_def MAX_FRAME_SIZE_def)

lemma ActData_length:
  assumes "ActData d \<in> set (fst (esc_process p buf))"
  shows "length d \<le> Suc (length buf)"
proof -
  have "length d \<le> length (sent_bytes (flatten actions))" if "ActData d \<in> set actions" for actions
    using that
  proof (induction actions)
    case (Cons a as)
    then show ?case using sent_bytes_Byte [of d "[]"] by (cases a) auto
  qed simp
  from this [OF assms] have "length d \<le> length (sent_bytes (snd (esc_spec (esc_state p) buf)))"
    by (simp add: esc_process_flatten)
  also have "\<dots> \<le> length (pending (esc_state p) @ buf)"
    by (rule list_emb_length [OF subseq_esc_spec])
  also have "\<dots> \<le> Suc (length buf)" by (cases "esc_state p") simp_all
  finally show ?thesis .
qed

lemma action_frames:
  assumes "calm s" and "cphase s = Relaying" and "io_suspend io = None" and "a \<noteq> Detach"
    and "\<And>d. a = ActData d \<Longrightarrow> length d \<le> 5000"
  shows "\<exists>new. clog (apply_action io a s) = clog s @ new \<and> (\<forall>f \<in> set (sent_frames new). small_frame f)"
  using assms
  by (cases a) (auto simp: apply_action_def send_size_def small_frame_def split: prod.split)

lemma actions_frames:
  assumes "calm s" and "cphase s = Relaying" and "io_suspend io = None" and "Detach \<notin> set actions"
    and "\<And>d. ActData d \<in> set actions \<Longrightarrow> length d \<le> 5000"
  shows "\<exists>new. clog (fold (apply_action io) actions s) = clog s @ new \<and> (\<forall>f \<in> set (sent_frames new). small_frame f)"
  using assms
proof (induction actions arbitrary: s)
  case (Cons a as)
  then have a: "a \<noteq> Detach" by auto
  then obtain n1 where n1: "clog (apply_action io a s) = clog s @ n1" "\<forall>f \<in> set (sent_frames n1). small_frame f"
    using action_frames [of s io a] Cons.prems by auto
  obtain n2 where "clog (fold (apply_action io) as (apply_action io a s)) = clog (apply_action io a s) @ n2"
    "\<forall>f \<in> set (sent_frames n2). small_frame f"
    using Cons.IH [of "apply_action io a s"] apply_action_calm [of s io a] a Cons.prems by auto
  with n1 show ?case by (intro exI [of _ "n1 @ n2"]) auto
qed simp

lemma typed_frames:
  assumes "cphase s = Relaying" and "escape s = Some p"
    and "\<forall>(io, buf) \<in> set reads. calm_io io \<and> buf \<noteq> [] \<and> length buf \<le> 4096"
    and "EvDetach \<notin> set (snd (esc_spec (esc_state p) (concat (map snd reads))))"
  shows "\<exists>new. clog (run_client s (map typed reads)) = clog s @ new \<and> (\<forall>f \<in> set (sent_frames new). small_frame f)"
  using assms
proof (induction reads arbitrary: s p)
  case (Cons r reads)
  obtain io buf where r: "r = (io, buf)" by (cases r)
  let ?rest = "concat (map snd reads)"
  have nd: "EvDetach \<notin> set (snd (esc_spec (esc_state p) buf))"
    using Cons.prems(4) by (auto simp: r esc_spec_append case_prod_beta split: if_splits)
  have io: "calm_io io" "buf \<noteq> []" "length buf \<le> 4096" using Cons.prems(3) by (auto simp: r)
  note st = typed_step [OF Cons.prems(1) io(1,2) Cons.prems(2) nd]
  have rest: "EvDetach \<notin> set (snd (esc_spec (esc_state (snd (esc_process p buf))) ?rest))"
    using Cons.prems(4) nd by (auto simp: r esc_spec_append case_prod_beta esc_process_state)
  obtain n1 where n1: "clog (client_step s (typed r)) = clog s @ n1" "\<forall>f \<in> set (sent_frames n1). small_frame f"
  proof -
    have "Detach \<notin> set (fst (esc_process p buf))"
      using nd by (simp add: Detach_in_flatten esc_process_flatten)
    then have "\<exists>new. clog (fold (apply_action io) (fst (esc_process p buf)) ((with_io io s)\<lparr>escape := Some (snd (esc_process p buf))\<rparr>))
        = clog s @ new \<and> (\<forall>f \<in> set (sent_frames new). small_frame f)"
      using actions_frames [of "(with_io io s)\<lparr>escape := Some (snd (esc_process p buf))\<rparr>" io "fst (esc_process p buf)"]
        Cons.prems(1) io ActData_length [of _ p buf] by (fastforce simp: calm_io_def)
    with that Cons.prems(1,2) io show thesis
      by (auto simp: r typed_def on_stdin_def case_prod_beta)
  qed
  obtain n2 where "clog (run_client (client_step s (typed r)) (map typed reads)) = clog (client_step s (typed r)) @ n2"
    "\<forall>f \<in> set (sent_frames n2). small_frame f"
    using Cons.IH [of "client_step s (typed r)"] st rest Cons.prems(3) by (auto simp: r)
  with n1 show ?case by (intro exI [of _ "n1 @ n2"]) auto
qed simp

text \<open>The session reads frames, each with the results of the calls it makes; the terminal takes all it is given.\<close>

definition reads_frame :: "syscalls \<times> frame \<Rightarrow> syscalls \<times> event" where
  "reads_frame = (\<lambda>(sys, f). (sys, SocketFrame (Some (Inr f))))"

definition takes_all :: "syscalls \<times> frame \<Rightarrow> bool" where
  "takes_all = (\<lambda>(sys, f). \<forall>d. f = Data d \<longrightarrow> sys_writable sys = None \<and> sys_write sys = Inr (length d))"

lemma session_reads_frames:
  assumes "phase s = Relay c" and "\<forall>p \<in> set fs. takes_all p \<and> small_frame (snd p)"
  shows "phase (run_session s (map reads_frame fs)) = Relay c
    \<and> pty_input (effects (run_session s (map reads_frame fs))) =
        pty_input (effects s) @ concat (map (data_of \<circ> snd) fs)"
  using assms
proof (induction fs arbitrary: s)
  case (Cons p fs)
  obtain sys f where p: "p = (sys, f)" by (cases p)
  have "phase (session_step s (reads_frame p)) = Relay c
      \<and> pty_input (effects (session_step s (reads_frame p))) = pty_input (effects s) @ data_of f"
    using Cons.prems
    by (cases f) (auto simp: p reads_frame_def takes_all_def small_frame_def pty_input_def
        split: prod.split option.split)
  with Cons p show ?case by simp
qed simp

text \<open>
  C5. End to end, what the user types is what the shell reads.  Whatever the sizes of the reads,
  wherever the stream is cut on its way through the socket (or the SSH tunnel), as long as no call
  fails or falls short and the input has no \<open>~.\<close>, the session decodes exactly the client's frames and
  the terminal gets exactly the bytes the escape transducer lets through, in order.
\<close>

theorem typing_reaches_the_shell:
  assumes "cphase cl = Relaying" and "escape cl = Some p" and "clog cl = []"
    and "\<forall>(io, buf) \<in> set reads. calm_io io \<and> buf \<noteq> [] \<and> length buf \<le> 4096"
    and "EvDetach \<notin> set (snd (esc_spec (esc_state p) (concat (map snd reads))))"
    and "concat chunks = concat (map frame_bytes (sent_frames (clog (run_client cl (map typed reads)))))"
    and "phase s = Relay c"
  shows "\<exists>fs. feed decode [] chunks = (fs, None, []) \<and>
    (\<forall>sfs. map snd sfs = fs \<and> (\<forall>x \<in> set sfs. takes_all x) \<longrightarrow>
       pty_input (effects (run_session s (map reads_frame sfs))) =
         pty_input (effects s) @ sent_bytes (snd (esc_spec (esc_state p) (concat (map snd reads)))))"
proof -
  let ?log = "clog (run_client cl (map typed reads))"
  obtain new where "?log = clog cl @ new" "\<forall>f \<in> set (sent_frames new). small_frame f"
    using typed_frames [OF assms(1,2,4,5)] by blast
  with assms(3) have small: "\<forall>f \<in> set (sent_frames ?log). small_frame f" by simp
  then have "\<forall>f \<in> set (sent_frames ?log). sendable f" by (auto intro: small_frame_sendable)
  with assms(6) have fd: "feed decode [] chunks = (sent_frames ?log, None, [])"
    by (intro codec.feed_encoded) simp_all
  have "\<forall>(io, buf) \<in> set reads. calm_io io \<and> buf \<noteq> []" using assms(4) by auto
  from typed_run [OF assms(1,2) this assms(5)] assms(3)
  have data: "sent_data ?log = sent_bytes (snd (esc_spec (esc_state p) (concat (map snd reads))))" by simp
  have "pty_input (effects (run_session s (map reads_frame sfs))) = pty_input (effects s) @ sent_data ?log"
    if "map snd sfs = sent_frames ?log" "\<forall>x \<in> set sfs. takes_all x" for sfs
  proof -
    have "\<forall>x \<in> set sfs. small_frame (snd x)"
      using small that(1) by (metis image_eqI set_map)
    with session_reads_frames [OF assms(7), of sfs] that(2)
    have "pty_input (effects (run_session s (map reads_frame sfs))) = pty_input (effects s) @ concat (map data_of (map snd sfs))"
      by simp
    then show ?thesis by (simp only: that(1) sent_data_frames)
  qed
  with fd data show ?thesis by auto
qed

theorem typing_reaches_the_shell_witness:
  "let cl = sample_client\<lparr>clog := []\<rparr>;
       s = run_session (start_session pty_ready) boot;
       reads = [(calm_at 1, [0x6C, 0x73]), (calm_at 2, [0x0D])];
       chunks = [[0x01, 0, 0], [0, 2, 0x6C, 0x73, 0x01, 0, 0, 0, 1], [0x0D]]
   in \<exists>fs. feed decode [] chunks = (fs, None, [])
     \<and> (\<forall>sfs. map snd sfs = fs \<and> (\<forall>x \<in> set sfs. takes_all x) \<longrightarrow>
          pty_input (effects (run_session s (map reads_frame sfs))) = [0x6C, 0x73, 0x0D])"
proof -
  let ?cl = "sample_client\<lparr>clog := []\<rparr>"
  let ?s = "run_session (start_session pty_ready) boot"
  let ?reads = "[(calm_at 1, [0x6C, 0x73]), (calm_at 2, [0x0D])] :: (client_io \<times> bytes) list"
  let ?chunks = "[[0x01, 0, 0], [0, 2, 0x6C, 0x73, 0x01, 0, 0, 0, 1], [0x0D]] :: bytes list"
  have cl: "cphase ?cl = Relaying" "escape ?cl = Some new_processor" "clog ?cl = []"
    by (simp_all add: sample_client_eq new_client_def)
  have rd: "\<forall>(io, buf) \<in> set ?reads. calm_io io \<and> buf \<noteq> [] \<and> length buf \<le> 4096" by simp
  have nd: "EvDetach \<notin> set (snd (esc_spec (esc_state new_processor) (concat (map snd ?reads))))"
    by (simp add: new_processor_def)
  have fr: "sent_frames (clog (run_client ?cl (map typed ?reads))) = [Data [0x6C, 0x73], Data [0x0D]]"
    by (simp add: sample_client_eq new_client_def typed_def on_stdin_def esc_process_def new_processor_def
        flush_data_def apply_action_def with_io_def send_or_lose_def clog_add_def)
  have ch: "concat ?chunks = concat (map frame_bytes (sent_frames (clog (run_client ?cl (map typed ?reads)))))"
    unfolding fr by (simp add: put_frame_def u32_to_be_def)
  have ph: "phase ?s = Relay 1" by (simp add: boot_run)
  from typing_reaches_the_shell [OF cl rd nd ch ph] show ?thesis
    unfolding Let_def by (simp add: boot_run pty_input_def new_processor_def)
qed

definition reads_pty :: "syscalls \<times> bytes \<Rightarrow> syscalls \<times> event" where
  "reads_pty = (\<lambda>(sys, b). (sys, PtyReadable None (Inr b)))"

definition frames_to :: "conn \<Rightarrow> effect list \<Rightarrow> frame list" where
  "frames_to c es = List.map_filter (\<lambda>e. case e of SendFrame c' f \<Rightarrow> if c' = c then Some f else None | _ \<Rightarrow> None) es"

lemma frames_to_simps [simp]:
  "frames_to c [] = []" "frames_to c (es @ fs) = frames_to c es @ frames_to c fs"
  "frames_to c (SendFrame c' f # es) = (if c' = c then [f] else []) @ frames_to c es"
  by (simp_all add: frames_to_def List.map_filter_def)

lemma session_sends_output:
  assumes "phase s = Relay c" and "\<forall>(sys, b) \<in> set outs. sys_send sys = None \<and> b \<noteq> []"
  shows "frames_to c (effects (run_session s (map reads_pty outs))) = frames_to c (effects s) @ map (Data \<circ> snd) outs"
  using assms
proof (induction outs arbitrary: s)
  case (Cons p outs)
  obtain sys b where p: "p = (sys, b)" by (cases p)
  then have "session_step s (reads_pty p) = emit [SendFrame c (Data b)] s"
    using Cons.prems by (simp add: reads_pty_def on_pty_readable_def)
  with Cons p show ?case by simp
qed simp

definition receives :: "client_io \<times> frame \<Rightarrow> client_io \<times> client_event" where
  "receives = (\<lambda>(io, f). (io, ServerFrame (Some (Inr f))))"

lemma client_prints_output:
  assumes "cphase cl = Relaying" and "\<forall>(io, f) \<in> set ins. calm_io io \<and> (\<exists>d. f = Data d)"
  shows "cphase (run_client cl (map receives ins)) = Relaying
    \<and> printed (clog (run_client cl (map receives ins))) = printed (clog cl) @ concat (map (data_of \<circ> snd) ins)"
  using assms
proof (induction ins arbitrary: cl)
  case (Cons p ins)
  obtain io f where p: "p = (io, f)" by (cases p)
  then obtain d where "f = Data d" "calm_io io" using Cons.prems(2) by auto
  then have "client_step cl (receives p) = print d (with_io io cl)" "calm (with_io io cl)"
    using Cons.prems(1) p by (simp_all add: receives_def)
  with Cons p \<open>f = Data d\<close> show ?case by simp
qed simp

text \<open>
  C6. What the shell prints is what the user sees: the frames the session sends for any non-empty
  reads of the terminal, cut anywhere on the way, are printed by the client exactly and in order.
\<close>

theorem output_reaches_the_user:
  assumes "phase s = Relay c" and "frames_to c (effects s) = []"
    and "\<forall>(sys, b) \<in> set outs. sys_send sys = None \<and> b \<noteq> [] \<and> length b \<le> 4096"
    and "concat chunks = concat (map frame_bytes (frames_to c (effects (run_session s (map reads_pty outs)))))"
    and "cphase cl = Relaying"
  shows "\<exists>fs. feed decode [] chunks = (fs, None, []) \<and>
    (\<forall>cfs. map snd cfs = fs \<and> (\<forall>(io, f) \<in> set cfs. calm_io io) \<longrightarrow>
       printed (clog (run_client cl (map receives cfs))) = printed (clog cl) @ concat (map snd outs))"
proof -
  let ?fs = "map (Data \<circ> snd) outs"
  have "\<forall>(sys, b) \<in> set outs. sys_send sys = None \<and> b \<noteq> []" using assms(3) by auto
  from session_sends_output [OF assms(1) this] assms(2,4)
  have ch: "concat chunks = concat (map frame_bytes ?fs)" by simp
  have "\<forall>f \<in> set ?fs. sendable f" using assms(3) by (auto simp: MAX_FRAME_SIZE_def)
  from codec.feed_encoded [OF this ch] have fd: "feed decode [] chunks = (?fs, None, [])" .
  have "printed (clog (run_client cl (map receives cfs))) = printed (clog cl) @ concat (map snd outs)"
    if "map snd cfs = ?fs" "\<forall>(io, f) \<in> set cfs. calm_io io" for cfs
  proof -
    have "\<exists>d. f = Data d" if "(io, f) \<in> set cfs" for io f
    proof -
      have "f \<in> set (map snd cfs)" using that by force
      with \<open>map snd cfs = ?fs\<close> show ?thesis by auto
    qed
    with that(2) have "\<forall>(io, f) \<in> set cfs. calm_io io \<and> (\<exists>d. f = Data d)" by fast
    from client_prints_output [OF assms(5) this]
    have "printed (clog (run_client cl (map receives cfs))) = printed (clog cl) @ concat (map data_of (map snd cfs))" by simp
    also have "concat (map data_of (map snd cfs)) = concat (map snd outs)"
      unfolding that(1) by (simp add: comp_def)
    finally show ?thesis .
  qed
  with fd show ?thesis by blast
qed

theorem output_reaches_the_user_witness:
  "\<exists>fs. feed decode [] [[0x01, 0, 0, 0, 2, 0x6F], [0x6B]] = (fs, None, []) \<and>
    (\<forall>cfs. map snd cfs = fs \<and> (\<forall>(io, f) \<in> set cfs. calm_io io) \<longrightarrow>
       printed (clog (run_client sample_client (map receives cfs))) = [0x6F, 0x6B])"
proof -
  let ?s = "run_session (start_session pty_ready) boot"
  let ?outs = "[(quiet_calls, [0x6F, 0x6B])] :: (syscalls \<times> bytes) list"
  have s: "phase ?s = Relay 1" "frames_to 1 (effects ?s) = []"
    by (simp_all add: boot_run frames_to_def List.map_filter_def)
  have o: "\<forall>(sys, b) \<in> set ?outs. sys_send sys = None \<and> b \<noteq> [] \<and> length b \<le> 4096"
    by (simp add: quiet_calls_def)
  have "frames_to 1 (effects (run_session ?s (map reads_pty ?outs))) = [Data [0x6F, 0x6B]]"
    using session_sends_output [OF s(1), of ?outs] s(2) by (simp add: quiet_calls_def)
  then have "concat [[0x01, 0, 0, 0, 2, 0x6F], [0x6B]] =
      concat (map frame_bytes (frames_to 1 (effects (run_session ?s (map reads_pty ?outs)))))"
    by (simp add: put_frame_def u32_to_be_def)
  from output_reaches_the_user [OF s o this, of sample_client] show ?thesis
    by (simp add: sample_client_eq new_client_def printed_def)
qed

section \<open>The end of the shell\<close>

lemma ended_sends_nothing:
  "ended (phase s) \<Longrightarrow> frames_to c (effects (run_session s es)) = frames_to c (effects s)"
proof (induction es arbitrary: s)
  case (Cons e es)
  have "ended (phase (session_step s e)) \<and> frames_to c (effects (session_step s e)) = frames_to c (effects s)"
    using Cons.prems
    by (cases e rule: sessionevent_cases; cases "phase s")
      (auto simp: hand_over_def abort_task_def drop_senders_def on_child_exit_def on_client_def frames_to_def List.map_filter_def
          split: list.split)
  with Cons.IH [of "session_step s e"] show ?case by simp
qed simp

text \<open>
  What the shell printed last may never be sent: when \<open>child.wait()\<close> is taken before the output that
  is still to be read from the terminal, the client gets \<open>Exit\<close> and nothing more, whatever could
  still be read.
\<close>

theorem exit_drops_pending_output:
  assumes "phase s = Relay c" and "status = Some k"
  shows "frames_to c (effects (run_session s ((sys, ChildExit (Inr status)) # map reads_pty outs)))
    = frames_to c (effects s) @ [Exit (exit_code sys k)]"
proof -
  let ?t = "session_step s (sys, ChildExit (Inr status))"
  have t: "ended (phase ?t)" "frames_to c (effects ?t) = frames_to c (effects s) @ [Exit (exit_code sys k)]"
    using assms by (auto simp: on_child_exit_def shell_exited_def finish_def leave_def emit_def frames_to_def
        List.map_filter_def filter_empty_conv split: option.split)
  from ended_sends_nothing [OF t(1), of c "map reads_pty outs"] t(2) show ?thesis by simp
qed

theorem exit_drops_pending_output_witness:
  "frames_to 1 (effects (run_session (run_session (start_session pty_ready) boot)
     ((quiet_calls, ChildExit (Inr (Some 0))) # map reads_pty [(quiet_calls, [0x62, 0x79, 0x65])]))) = [Exit 0]"
  using exit_drops_pending_output [of "run_session (start_session pty_ready) boot" 1 "Some 0" 0 quiet_calls
      "[(quiet_calls, [0x62, 0x79, 0x65])]"]
  by (simp add: boot_run exit_code_def quiet_calls_def frames_to_def List.map_filter_def)

section \<open>The handshake of a new session\<close>

text \<open>The first client's frames, as the task reads them: the first one in the 100 ms wait.\<close>

definition handshake :: "syscalls \<Rightarrow> bool \<Rightarrow> frame list \<Rightarrow> (syscalls \<times> event) list" where
  "handshake sys in_time fs =
     (if in_time then
        (case fs of [] \<Rightarrow> [(sys, EnvWait None)]
         | f # fs' \<Rightarrow> (sys, EnvWait (Some (Some (Inr f)))) # map (\<lambda>f. reads_frame (sys, f)) fs')
      else (sys, EnvWait None) # map (\<lambda>f. reads_frame (sys, f)) fs)"

definition handshake_frames :: "u16 \<times> u16 \<Rightarrow> (string \<times> string) list \<Rightarrow> frame list" where
  "handshake_frames ws env = (if env = [] then [] else [Env env]) @ [Resize (fst ws) (snd ws)]"

lemma client_handshake:
  assumes "calm_io io"
  shows "sent_frames (clog (client_start io name False env no_escape)) = handshake_frames (io_winsize io) env"
  using assms
  by (auto simp: client_start_def relay_start_def new_client_def send_size_def handshake_frames_def Let_def
      case_prod_beta)

definition sets_size :: "effect list \<Rightarrow> bool" where
  "sets_size es \<longleftrightarrow> (\<exists>c r. SetWinsize c r \<in> set es)"

definition spawned_env :: "effect list \<Rightarrow> (string \<times> string) list list" where
  "spawned_env es = List.map_filter (\<lambda>e. case e of SpawnShell cmd \<Rightarrow> Some (env_vars cmd) | _ \<Rightarrow> None) es"



end
