(* ===== verification/Lineage.thy ===== *)
theory Lineage
  imports Ownership End_To_End
begin
text \<open>
  What becomes of each session task in a step of the daemon: every task lives on (in the table or
  among the retired ones), extended by events of its own or the daemon's actions on it; new tasks
  start blank; and the only connection a request can bring to a task is the one it came on.
\<close>

declare hand_over_def [simp del] drop_senders_def [simp del] abort_task_def [simp del]

section \<open>One task\<close>

text \<open>The chunks of input written to the terminal.\<close>

definition pty_chunks :: "effect list \<Rightarrow> bytes list" where
  "pty_chunks es = List.map_filter (\<lambda>e. case e of PtyWrite d \<Rightarrow> Some d | _ \<Rightarrow> None) es"

lemma pty_chunks_simps [simp]:
  "pty_chunks [] = []" "pty_chunks (es @ fs) = pty_chunks es @ pty_chunks fs"
  "pty_chunks (PtyWrite d # es) = d # pty_chunks es" "pty_chunks (SendFrame c f # es) = pty_chunks es"
  "pty_chunks (Close c # es) = pty_chunks es" "pty_chunks (SetWinsize x y # es) = pty_chunks es"
  "pty_chunks (SignalGroup g sg # es) = pty_chunks es" "pty_chunks (SpawnShell cmd # es) = pty_chunks es"
  "pty_chunks (map Close cs) = []"
  by (simp_all add: pty_chunks_def List.map_filter_def filter_empty_conv)

text \<open>The events that do not take a frame from a connection.\<close>

fun frameless :: "event \<Rightarrow> bool" where
  "frameless (SocketFrame (Some (Inr f))) = False"
| "frameless (EnvWait (Some (Some (Inr f)))) = False"
| "frameless _ = True"

lemma seen_step: "seen (session_step s e) = seen s \<union> set (handed_over e)"
proof (cases e rule: sessionevent_cases)
  case (1 sys)
  then show ?thesis
    by (cases "phase s") (auto simp: seen_def owned_def on_client_def finish_def split: list.splits option.splits)
next
  case (2 sys r)
  then show ?thesis
    by (cases "phase s") (auto simp: seen_def owned_def spawn_shell_def Let_def finish_def split: sum.splits option.splits)
next
  case (9 sys ready r)
  then show ?thesis
    by (cases "phase s") (auto simp: seen_def owned_def on_pty_readable_def shell_exited_def finish_def Let_def
        split: sum.splits option.splits)
next
  case (11 sys c)
  then show ?thesis
    by (cases "phase s") (auto simp: seen_def owned_def hand_over_def)
next
  case (13 sys)
  then show ?thesis
    by (cases "phase s") (auto simp: seen_def owned_def abort_task_def split: option.splits)
qed (cases "phase s"; auto simp: seen_def owned_def client_gone_def finish_def shell_exited_def drop_senders_def
    on_child_exit_def split: sum.splits option.splits prod.splits)+

text \<open>A task sends only on connections it was given.\<close>

definition sends_own :: "session \<Rightarrow> bool" where
  "sends_own s \<longleftrightarrow> (\<forall>c f. SendFrame c f \<in> set (effects s) \<longrightarrow> c \<in> seen s)"

lemma sends_own_new:
  "\<exists>new. effects (session_step s e) = effects s @ new
     \<and> (\<forall>c f. SendFrame c f \<in> set new \<longrightarrow> c \<in> seen s)
     \<and> (frameless (snd e) \<longrightarrow> pty_chunks new = [])"
proof (cases e rule: sessionevent_cases)
  case (1 sys)
  then show ?thesis
    by (cases "phase s") (auto simp: seen_def owned_def on_client_def finish_def split: list.splits option.splits)
next
  case (2 sys r)
  then show ?thesis
    by (cases "phase s") (auto simp: seen_def owned_def spawn_shell_def Let_def finish_def split: sum.splits option.splits)
next
  case (9 sys ready r)
  then show ?thesis
    by (cases "phase s") (auto simp: seen_def owned_def on_pty_readable_def shell_exited_def finish_def Let_def
        split: sum.splits option.splits)
qed (cases "phase s"; auto simp: seen_def owned_def client_gone_def finish_def shell_exited_def hand_over_def
    abort_task_def drop_senders_def on_child_exit_def split: sum.splits option.splits prod.splits)+

lemma sends_own_step: "sends_own s \<Longrightarrow> sends_own (session_step s e)"
  using sends_own_new [of s e] seen_step [of s e] by (force simp: sends_own_def)

lemma sends_own_start: "sends_own (start_session calls)"
  by (simp add: sends_own_def start_session_def blank_session_def split: sum.split)

text \<open>\<open>becomes C s s'\<close>: no frame was taken in between, and no connection outside \<open>C\<close> was handed over.\<close>

definition becomes :: "conn set \<Rightarrow> session \<Rightarrow> session \<Rightarrow> bool" where
  "becomes C s s' \<longleftrightarrow>
     (\<exists>es. s' = run_session s es \<and> (\<forall>e \<in> set es. frameless (snd e) \<and> set (handed_over e) \<subseteq> C))"

lemma becomes_refl [simp, intro]: "becomes C s s"
  unfolding becomes_def by (intro exI [of _ "[]"]) simp

lemma becomes_trans [trans]: "becomes C s s' \<Longrightarrow> becomes C s' s'' \<Longrightarrow> becomes C s s''"
  unfolding becomes_def by (elim exE conjE, rule_tac x = "es @ esa" in exI) auto

lemma becomes_mono: "becomes C s s' \<Longrightarrow> C \<subseteq> D \<Longrightarrow> becomes D s s'"
  unfolding becomes_def by blast

lemma becomes_step: "frameless ev \<Longrightarrow> set (handed_over (sys, ev)) \<subseteq> C \<Longrightarrow> becomes C s (session_step s (sys, ev))"
  unfolding becomes_def by (intro exI [of _ "[(sys, ev)]"]) simp

lemma becomes_actions [simp]:
  "becomes C s (drop_senders s)" "becomes C s (abort_task s)" "c \<in> C \<Longrightarrow> becomes C s (hand_over c s)"
  using becomes_step [of DropSenders quiet_calls C s] becomes_step [of AbortTask quiet_calls C s]
    becomes_step [of "Handoff c" quiet_calls C s] by simp_all

lemma own_event_handed: "own_event ev \<Longrightarrow> handed_over (sys, ev) = []"
  by (cases ev) auto

lemma becomes_facts:
  assumes "becomes C s s'"
  shows "seen s \<subseteq> seen s'" "seen s' \<subseteq> seen s \<union> C" "pty_chunks (effects s') = pty_chunks (effects s)"
    "\<exists>new. effects s' = effects s @ new" "sends_own s \<Longrightarrow> sends_own s'"
proof -
  obtain es where "s' = run_session s es" "\<forall>e \<in> set es. frameless (snd e) \<and> set (handed_over e) \<subseteq> C"
    using assms unfolding becomes_def by blast
  then have "seen s \<subseteq> seen s' \<and> seen s' \<subseteq> seen s \<union> C \<and> pty_chunks (effects s') = pty_chunks (effects s)
      \<and> (\<exists>new. effects s' = effects s @ new) \<and> (sends_own s \<longrightarrow> sends_own s')"
  proof (induction es arbitrary: s)
    case (Cons e es)
    let ?t = "session_step s e"
    from Cons.prems have "s' = run_session ?t es" "\<forall>e \<in> set es. frameless (snd e) \<and> set (handed_over e) \<subseteq> C"
      "frameless (snd e)" "set (handed_over e) \<subseteq> C" by simp_all
    with Cons.IH [of ?t] seen_step [of s e] sends_own_new [of s e] sends_own_step [of s e]
    show ?case by fastforce
  qed simp
  then show "seen s \<subseteq> seen s'" "seen s' \<subseteq> seen s \<union> C" "pty_chunks (effects s') = pty_chunks (effects s)"
    "\<exists>new. effects s' = effects s @ new" "sends_own s \<Longrightarrow> sends_own s'" by simp_all
qed

section \<open>All tasks\<close>

definition lineage :: "conn set \<Rightarrow> session list \<Rightarrow> session list \<Rightarrow> bool" where
  "lineage C ts us \<longleftrightarrow>
     (\<forall>s \<in> set ts. \<exists>s' \<in> set us. becomes C s s')
     \<and> (\<forall>s' \<in> set us. (\<exists>s \<in> set ts. becomes C s s') \<or> (\<exists>calls. becomes C (start_session calls) s'))"

lemma lineage_refl [simp]: "set ts = set us \<Longrightarrow> lineage C ts us"
  unfolding lineage_def by auto

lemma lineage_trans [trans]: "lineage C ts us \<Longrightarrow> lineage C us vs \<Longrightarrow> lineage C ts vs"
  unfolding lineage_def by (meson becomes_trans)

lemma lineage_mono: "lineage C ts us \<Longrightarrow> C \<subseteq> D \<Longrightarrow> lineage D ts us"
  unfolding lineage_def by (meson becomes_mono)

lemma lineage_append:
  "lineage C ts us \<Longrightarrow> lineage C ts' us' \<Longrightarrow> lineage C (ts @ ts') (us @ us')"
  unfolding lineage_def by auto

lemma lineage_map: "(\<And>s. s \<in> set ts \<Longrightarrow> becomes C s (f s)) \<Longrightarrow> lineage C ts (map f ts)"
  unfolding lineage_def by auto

lemma lineage_update_task:
  assumes "\<And>s. becomes C s (f s)"
  shows "lineage C (tasks ss) (tasks (update_task i f ss))"
proof (induction ss)
  case (Cons p ss)
  obtain k st where p: "p = (k, st)" by (cases p)
  have "lineage C [task st] [task (if k = i then st\<lparr>task := f (task st)\<rparr> else st)]"
    using assms by (simp add: lineage_def)
  from lineage_append [OF this Cons.IH] p show ?case by simp
qed simp

lemma lineage_run_task:
  assumes "own_event ev \<Longrightarrow> frameless ev"
  shows "lineage C (tasks ss) (tasks (run_task (i, sys, ev) ss))"
  using assms lineage_update_task [of C "\<lambda>s. session_step s (sys, ev)" ss i]
    becomes_step [of ev sys C] own_event_handed [of ev sys]
  by (simp add: run_task_def)

lemma lineage_run_tasks:
  assumes "\<forall>(i, sys, ev) \<in> set es. own_event ev \<longrightarrow> frameless ev"
  shows "lineage C (tasks ss) (tasks (fold run_task es ss))"
  using assms
proof (induction es arbitrary: ss)
  case (Cons e es)
  obtain i sys ev where e: "e = (i, sys, ev)" by (cases e)
  have "lineage C (tasks ss) (tasks (run_task e ss))" using Cons.prems e lineage_run_task by simp
  also have "lineage C (tasks (run_task e ss)) (tasks (fold run_task es (run_task e ss)))"
    using Cons.prems by (intro Cons.IH) simp
  finally show ?case by simp
qed simp

lemma lineage_reap: "lineage C (tasks ss) (tasks (reap_sessions ss) @ reaped ss)"
proof -
  have "\<exists>s' \<in> set (tasks (reap_sessions ss) @ reaped ss). becomes C s s'" if s: "s \<in> set (tasks ss)" for s
  proof -
    obtain p where "p \<in> set ss" "s = task (snd p)" using s by auto
    then have "s \<in> set (tasks (reap_sessions ss)) \<or> drop_senders s \<in> set (reaped ss)"
      by (cases "finished s") (force simp: reap_sessions_def reaped_def)+
    then show ?thesis by (auto intro: bexI [of _ "drop_senders s"])
  qed
  moreover have "\<exists>s \<in> set (tasks ss). becomes C s s'" if "s' \<in> set (tasks (reap_sessions ss) @ reaped ss)" for s'
    using that by (force simp: reap_sessions_def reaped_def)
  ultimately show ?thesis unfolding lineage_def by blast
qed

lemma lineage_delete:
  assumes "distinct (map fst ss)" and "\<And>s. becomes C s (f s)"
  shows "lineage C (tasks ss) (tasks (AList.delete i ss)
      @ (case map_of ss i of None \<Rightarrow> [] | Some st \<Rightarrow> [f (task st)]))"
  using assms(1)
proof (induction ss)
  case (Cons p ss)
  obtain k st where p: "p = (k, st)" by (cases p)
  show ?case
  proof (cases "k = i")
    case True
    then have "i \<notin> fst ` set ss" using Cons.prems p by simp
    then have "AList.delete i ss = ss" by (simp add: delete_id)
    moreover have "lineage C (task st # tasks ss) (tasks ss @ [f (task st)])"
      using assms(2) unfolding lineage_def by auto
    ultimately show ?thesis using True p by simp
  next
    case False
    have "lineage C ([task st] @ tasks ss) ([task st] @ tasks (AList.delete i ss)
        @ (case map_of ss i of None \<Rightarrow> [] | Some st \<Rightarrow> [f (task st)]))"
      using Cons p by (intro lineage_append) simp_all
    with False p show ?thesis by simp
  qed
qed simp

lemma lineage_update:
  assumes "distinct (map fst ss)"
  shows "lineage C (tasks ss) (tasks (AList.update i \<lparr>task = start_session calls, sname = nm\<rparr> ss)
      @ (case map_of ss i of None \<Rightarrow> [] | Some st \<Rightarrow> [drop_senders (task st)]))"
proof -
  let ?st = "\<lparr>task = start_session calls, sname = nm\<rparr>"
  have "set (tasks (AList.update i ?st ss)) = insert (start_session calls) (set (tasks (AList.delete i ss)))"
    using assms
  proof (induction ss)
    case (Cons p ss)
    obtain k st where p: "p = (k, st)" by (cases p)
    show ?case
    proof (cases "k = i")
      case True
      then have "i \<notin> fst ` set ss" using Cons.prems p by simp
      then have "AList.delete i ss = ss" by (simp add: delete_id)
      with True p show ?thesis by simp
    qed (use Cons p in auto)
  qed simp
  moreover have "lineage C (tasks ss) (tasks (AList.delete i ss)
      @ (case map_of ss i of None \<Rightarrow> [] | Some st \<Rightarrow> [drop_senders (task st)]))"
    using assms by (rule lineage_delete) simp
  ultimately show ?thesis unfolding lineage_def by auto
qed

section \<open>The operations of the daemon\<close>

abbreviation descends :: "conn set \<Rightarrow> daemon \<Rightarrow> daemon \<Rightarrow> bool" where
  "descends C d d' \<equiv> lineage C (all_tasks d) (all_tasks d')"

lemma descends_same: "sessions d' = sessions d \<Longrightarrow> retired d' = retired d \<Longrightarrow> descends C d d'"
  by (simp add: all_tasks_def)

lemma lineage_swap: "lineage C ts (us @ vs) \<Longrightarrow> lineage C (ts @ rs) (us @ rs @ vs)"
  unfolding lineage_def by auto

lemma descends_reap: "descends C d (reap d)" "descends C d (next_round d)"
  using lineage_swap [OF lineage_reap] by (simp_all add: all_tasks_def)

lemma descends_run_tasks:
  "\<forall>(i, sys, ev) \<in> set es. own_event ev \<longrightarrow> frameless ev \<Longrightarrow> descends C d (run_tasks es d)"
  by (simp add: all_tasks_def lineage_append lineage_run_tasks)

lemma descends_hand_off: "c \<in> C \<Longrightarrow> descends C d (hand_off i c d)"
  by (simp add: all_tasks_def lineage_append lineage_update_task)

lemma descends_forget:
  assumes "daemon_inv d" and "\<And>s. becomes C s (f s)"
  shows "descends C d (forget i f d)"
proof -
  have "becomes C s (drop_senders (f s))" for s
    using assms(2) by (rule becomes_trans) simp
  moreover have "distinct (map fst (sessions d))" using assms(1) by (simp add: daemon_inv_def table_inv_def)
  ultimately show ?thesis
    using lineage_swap [OF lineage_delete [of "sessions d" C "\<lambda>s. drop_senders (f s)" i]]
    by (simp add: all_tasks_def)
qed

lemma descends_insert:
  assumes "daemon_inv d"
  shows "descends C d (insert_session i \<lparr>task = start_session calls, sname = nm\<rparr> (d\<lparr>next_id := k\<rparr>))"
  using lineage_swap [OF lineage_update] assms
  by (simp add: all_tasks_def daemon_inv_def table_inv_def)

lemma descends_shutdown: "descends C d (shutdown d)"
proof -
  let ?f = "\<lambda>s. drop_senders (abort_task s)"
  have "becomes C s (?f s)" for s by (rule becomes_trans [of _ _ "abort_task s"]) simp_all
  then have "lineage C (tasks (sessions d)) (map ?f (tasks (sessions d)))" by (intro lineage_map)
  from lineage_swap [of C _ "[]", simplified, OF this, of "retired d"] show ?thesis
    by (simp add: all_tasks_def comp_def case_prod_beta')
qed

text \<open>What a request does: its one answer, the fate of the tasks, and who may have got the connection.\<close>

definition grants_session :: "frame \<Rightarrow> bool" where
  "grants_session f \<longleftrightarrow> f = Ok \<or> (\<exists>i. f = SessionCreated i)"

definition is_data :: "frame \<Rightarrow> bool" where
  "is_data f \<longleftrightarrow> (\<exists>d. f = Data d)"

lemma is_data_simps [simp]:
  "\<not> is_data Ok" "\<not> is_data (SessionCreated i)" "\<not> is_data (Error m)" "\<not> is_data (SessionInfo es)"
  "\<not> is_data (no_such_session t)" "grants_session f \<Longrightarrow> \<not> is_data f"
  by (auto simp: is_data_def grants_session_def no_such_session_def)

definition serves :: "conn \<Rightarrow> frame \<Rightarrow> daemon \<Rightarrow> daemon \<Rightarrow> bool" where
  "serves c req d d' \<longleftrightarrow>
     descends {c} d d' \<and> (\<exists>f. replies (daemon_log d') = replies (daemon_log d) @ [(c, f)] \<and> \<not> is_data f
       \<and> (lineage {} (all_tasks d) (all_tasks d')
          \<or> (grants_session f \<and> (\<exists>x. req = NewSession x \<or> req = Attach x))))"

lemma serves_answer:
  assumes "lineage {} (all_tasks d) (all_tasks d1)" and "replies (daemon_log d1) = replies (daemon_log d)"
    and "\<not> is_data f"
  shows "serves c req d (next_round (answer c f d1))"
proof -
  have "lineage {} (all_tasks d) (all_tasks (next_round (answer c f d1)))"
    using lineage_trans [OF assms(1) lineage_trans [OF descends_same descends_reap(2)]] by simp
  then show ?thesis
    using assms(2,3) lineage_mono [of "{}" _ _ "{c}"] unfolding serves_def by simp
qed

lemma serves_grant:
  assumes "descends {c} d d1" and "replies (daemon_log d1) = replies (daemon_log d)"
    and "\<forall>(i, sys, ev) \<in> set during. own_event ev \<longrightarrow> frameless ev"
    and "grants_session f" and "\<exists>x. req = NewSession x \<or> req = Attach x"
  shows "serves c req d (next_round (hand_off i c (run_tasks during (dlog [Reply c f] d1))))"
proof -
  have "descends {c} d (dlog [Reply c f] d1)" by (rule lineage_trans [OF assms(1) descends_same]) simp_all
  also have "descends {c} (dlog [Reply c f] d1) (run_tasks during (dlog [Reply c f] d1))"
    by (rule descends_run_tasks [OF assms(3)])
  also have "descends {c} (run_tasks during (dlog [Reply c f] d1)) (hand_off i c (run_tasks during (dlog [Reply c f] d1)))"
    by (rule descends_hand_off) simp
  also have "descends {c} (hand_off i c (run_tasks during (dlog [Reply c f] d1)))
      (next_round (hand_off i c (run_tasks during (dlog [Reply c f] d1))))"
    by (rule descends_reap)
  finally show ?thesis using assms(2,4,5) unfolding serves_def by simp
qed

abbreviation quietly_during :: "(u32 \<times> syscalls \<times> event) list \<Rightarrow> bool" where
  "quietly_during es \<equiv> \<forall>(i, sys, ev) \<in> set es. own_event ev \<longrightarrow> frameless ev"

lemma serves_new_session:
  assumes "daemon_inv d" and "quietly_during during"
  shows "serves c (NewSession name) d (handle_new_session c name calls during d)"
proof (cases "name_taken (sessions d) (if name = [] then None else Some name)")
  case True
  then show ?thesis by (simp add: handle_new_session_def Let_def serves_answer)
next
  case False
  let ?d1 = "insert_session (next_id d) \<lparr>task = start_session calls, sname = if name = [] then None else Some name\<rparr>
      (d\<lparr>next_id := next_id d + 1\<rparr>)"
  have "serves c (NewSession name) d (next_round (hand_off (next_id d) c
      (run_tasks during (dlog [Reply c (SessionCreated (show_u32 (next_id d)))] ?d1))))"
    by (rule serves_grant [OF descends_insert [OF assms(1)] _ assms(2)]) (auto simp: grants_session_def)
  with False show ?thesis by (cases "name = []") (simp_all add: handle_new_session_def Let_def)
qed

lemma serves_attach:
  assumes "daemon_inv d" and "quietly_during during"
  shows "serves c (Attach t) d (handle_attach c t during d)"
proof -
  let ?d0 = "reap d"
  have k: "descends C d ?d0" for C by (rule descends_reap)
  have i0: "daemon_inv ?d0" using assms(1) by simp
  have none: "serves c (Attach t) d (next_round (answer c (no_such_session t) ?d0))"
    by (rule serves_answer [OF k]) simp_all
  have dead: "serves c (Attach t) d (next_round (answer c (no_such_session t) (forget i (\<lambda>s. s) ?d0)))" for i
    by (rule serves_answer [OF lineage_trans [OF k descends_forget [OF i0]]]) simp_all
  have ok: "serves c (Attach t) d (next_round (hand_off i c (run_tasks during (dlog [Reply c Ok] ?d0))))" for i
    by (rule serves_grant [OF k _ assms(2)]) (auto simp: grants_session_def)
  have live: "map_of (sessions ?d0) i \<noteq> None" if "resolve_session (sessions ?d0) t = Some i" for i
    using table.lookup_live [OF _ that] i0 by (simp add: daemon_inv_def registry_def)
  show ?thesis
    using none dead ok live by (auto simp: handle_attach_def Let_def split: option.split)
qed

lemma serves_kill:
  assumes "daemon_inv d"
  shows "serves c (KillSession t) d (handle_kill_session c t d)"
proof -
  have i0: "daemon_inv (reap d)" using assms by simp
  have "serves c (KillSession t) d (next_round (answer c (no_such_session t) (reap d)))"
    by (rule serves_answer [OF descends_reap(1)]) simp_all
  moreover have "serves c (KillSession t) d (next_round (answer c Ok (forget i abort_task (reap d))))" for i
    by (rule serves_answer [OF lineage_trans [OF descends_reap(1) descends_forget [OF i0]]]) simp_all
  ultimately show ?thesis by (simp add: handle_kill_session_def Let_def split: option.split)
qed

lemma serves_request:
  assumes "daemon_inv d" and "quietly_during during"
  shows "serves c f d (handle_request c f calls during d)"
proof -
  have here: "serves c f d (next_round (answer c (Error m) d))" for m by (rule serves_answer) simp_all
  have list: "serves c ListSessions d (handle_list c d)"
    unfolding handle_list_def Let_def by (rule serves_answer [OF descends_reap(1)]) simp_all
  have "lineage {} (all_tasks d) (all_tasks (stop (answer c Ok (shutdown d))))"
    by (rule lineage_trans [OF descends_shutdown descends_same]) simp_all
  then have server: "serves c KillServer d (stop (answer c Ok (shutdown d)))"
    using lineage_mono [of "{}" _ _ "{c}"] unfolding serves_def by simp
  show ?thesis
    using serves_new_session [OF assms] serves_attach [OF assms] serves_kill [OF assms(1)] list server here
    by (cases f) simp_all
qed

text \<open>The other steps of the daemon answer nobody and hand nothing over.\<close>

fun framed_event :: "daemon_event \<Rightarrow> bool" where
  "framed_event (ControlFrame (Some (Inr f)) calls during) = True"
| "framed_event (TaskEvent i (sys, ev)) = (own_event ev \<and> \<not> frameless ev)"
| "framed_event _ = False"

lemma quiet_step:
  assumes "\<not> framed_event e"
  shows "descends {} d (daemon_step d e)" "replies (daemon_log (daemon_step d e)) = replies (daemon_log d)"
proof -
  have drop: "descends {} d (next_round (dlog es d))" for es
    by (rule lineage_trans [OF descends_same descends_reap(2)]) simp_all
  have stop: "descends {} d (stop (shutdown d))"
    by (rule lineage_trans [OF descends_shutdown descends_same]) simp_all
  have same: "descends {} d (d\<lparr>dphase := p\<rparr>)" for p by (rule descends_same) simp_all
  have task: "descends {} d (d\<lparr>sessions := run_task (i, sys, ev) (sessions d)\<rparr>)"
    if "own_event ev \<longrightarrow> frameless ev" for i sys ev
    using that by (simp add: all_tasks_def lineage_append lineage_run_task)
  show "descends {} d (daemon_step d e)"
    using assms drop stop same task
    by (cases e rule: framed_event.cases) (auto split: sum.split daemon_phase.split)
  show "replies (daemon_log (daemon_step d e)) = replies (daemon_log d)"
    using assms
    by (cases e rule: framed_event.cases) (auto split: sum.split daemon_phase.split)
qed

section \<open>What has been sent on a connection\<close>

definition session_out :: "conn \<Rightarrow> session list \<Rightarrow> frame list" where
  "session_out c ts = concat (map (\<lambda>s. frames_to c (effects s)) ts)"

definition replies_to :: "conn \<Rightarrow> daemon \<Rightarrow> frame list" where
  "replies_to c d = map snd (filter (\<lambda>r. fst r = c) (replies (daemon_log d)))"

definition outbox :: "conn \<Rightarrow> daemon \<Rightarrow> frame list" where
  "outbox c d = replies_to c d @ session_out c (all_tasks d)"

lemma frames_to_empty: "(\<And>f. SendFrame c f \<notin> set es) \<Longrightarrow> frames_to c es = []"
  by (auto simp: frames_to_def List.map_filter_def filter_empty_conv split: effect.splits)

lemma sends_own_frames: "sends_own s \<Longrightarrow> c \<notin> seen s \<Longrightarrow> frames_to c (effects s) = []"
  by (rule frames_to_empty) (auto simp: sends_own_def)

lemma session_out_none: "\<forall>s \<in> set ts. sends_own s \<Longrightarrow> owners c ts = 0 \<Longrightarrow> session_out c ts = []"
  by (auto simp: session_out_def owners_zero sends_own_frames)

lemma session_out_owner:
  assumes "\<forall>s \<in> set ts. sends_own s" and "owners c ts \<le> 1" and "s \<in> set ts" and "c \<in> seen s"
  shows "session_out c ts = frames_to c (effects s)"
  using assms
proof (induction ts)
  case (Cons t ts)
  show ?case
  proof (cases "c \<in> seen t")
    case True
    with Cons.prems(2) have "owners c ts = 0" by simp
    with Cons.prems have "session_out c ts = []" "t = s"
      using session_out_none [of ts c] by (auto simp: owners_zero)
    then show ?thesis by (simp add: session_out_def)
  next
    case False
    with Cons have "session_out c ts = frames_to c (effects s)" by auto
    with False Cons.prems(1) show ?thesis by (simp add: session_out_def sends_own_frames)
  qed
qed simp

lemma lineage_sends_own: "lineage C ts us \<Longrightarrow> \<forall>s \<in> set ts. sends_own s \<Longrightarrow> \<forall>s \<in> set us. sends_own s"
  unfolding lineage_def by (meson becomes_facts(5) sends_own_start)

text \<open>The outbox of a connection only grows.\<close>

lemma outbox_grows:
  assumes "\<And>s. s \<in> set (all_tasks d) \<Longrightarrow> \<exists>s' \<in> set (all_tasks d'). seen s \<subseteq> seen s' \<and> (\<exists>new. effects s' = effects s @ new)"
    and "\<forall>s \<in> set (all_tasks d). sends_own s" and "\<forall>s \<in> set (all_tasks d'). sends_own s"
    and "owners c (all_tasks d) \<le> 1" and "owners c (all_tasks d') \<le> 1"
    and "\<exists>fs. replies_to c d' = replies_to c d @ fs" and "owners c (all_tasks d) \<noteq> 0 \<Longrightarrow> replies_to c d' = replies_to c d"
  shows "prefix (outbox c d) (outbox c d')"
proof (cases "owners c (all_tasks d) = 0")
  case True
  with assms(2,6) show ?thesis by (auto simp: outbox_def session_out_none)
next
  case False
  then obtain s where s: "s \<in> set (all_tasks d)" "c \<in> seen s" by (auto simp: owners_zero)
  obtain s' new where s': "s' \<in> set (all_tasks d')" "c \<in> seen s'" "effects s' = effects s @ new"
    using assms(1) [OF s(1)] s(2) by blast
  have "session_out c (all_tasks d) = frames_to c (effects s)" by (rule session_out_owner [OF assms(2,4) s])
  moreover have "session_out c (all_tasks d') = frames_to c (effects s')"
    by (rule session_out_owner [OF assms(3,5) s'(1,2)])
  ultimately show ?thesis using assms(7) [OF False] s'(3) by (simp add: outbox_def)
qed

end
