(* ===== verification/Network.thy ===== *)
theory Network
  imports Protocol "HOL-Library.Sublist"
begin
text \<open>
  One direction of a connection: what one side has posted is a stream of encoded frames; any number of
  its bytes may have arrived in the buffer of the other side's \<open>Framed\<close>, which takes frames off it
  with \<open>decode\<close>.  The law (\<open>channel_ok\<close>): wherever the stream is cut, and also when it is never
  delivered to its end (a send that failed half way, a peer that is gone), the frames taken are a
  prefix of the frames posted, each as the codec carries it.
\<close>

section \<open>What the codec makes of a frame\<close>

definition carried :: "frame \<Rightarrow> io_error + frame" where
  "carried f = decode_payload (frame_type_of f) (payload_of f)"

lemma carried_sendable: "sendable f \<Longrightarrow> carried f = Inr f"
  by (simp add: carried_def decode_payload_of)

lemma carried_Data [simp]: "carried (Data d) = Inr (Data d)"
  by (simp add: carried_def decode_payload_def)

lemma carried_Data_iff: "carried f = Inr (Data d) \<longleftrightarrow> f = Data d"
proof
  assume "carried f = Inr (Data d)"
  then have "TYPE_DATA = frame_type_of f \<and> payload_of f = d"
    using decode_payload_canonical [of "frame_type_of f" "payload_of f" "Data d"] by (simp add: carried_def)
  then show "f = Data d" by (cases f) auto
qed simp

text \<open>The length field holds the length of the payload.\<close>

definition fits :: "frame \<Rightarrow> bool" where
  "fits f \<longleftrightarrow> length (payload_of f) < 2 ^ 32"

lemma sendable_fits: "sendable f \<Longrightarrow> fits f"
  using payload_of_length [of f] by (simp add: fits_def MAX_FRAME_SIZE_def)

lemma decode_takes_frame:
  assumes "decode buf = (Inr (Some g), rest)" and "buf @ ahead = frame_bytes f @ later" and "fits f"
  shows "buf = frame_bytes f @ rest" "carried f = Inr g"
proof -
  obtain used where u: "buf = used @ rest" "\<And>m. decode (used @ m) = (Inr (Some g), m)"
    using codec.dec_item [OF assms(1)] by blast
  have eq: "decode (frame_bytes f @ later) = (Inr (Some g), rest @ ahead)"
    using u(2) [of "rest @ ahead"] u(1) assms(2) by simp
  have le: "length (payload_of f) \<le> MAX_FRAME_SIZE"
    using decode_put_frame_too_large [of "payload_of f"] eq assms(3) by (force simp: encode_into_eq fits_def)
  with eq have "carried f = Inr g \<and> later = rest @ ahead"
    by (auto simp: encode_into_eq decode_put_frame carried_def split: sum.splits)
  with u(1) assms(2) show "buf = frame_bytes f @ rest" "carried f = Inr g" by simp_all
qed

section \<open>Channels\<close>

record channel =
  arrived :: nat             \<comment> \<open>bytes of the stream that have reached the reader's buffer\<close>
  buffer :: bytes
  taken :: "frame list"

definition idle_channel :: channel where
  "idle_channel = \<lparr>arrived = 0, buffer = [], taken = []\<rparr>"

definition stream_of :: "frame list \<Rightarrow> bytes" where
  "stream_of fs = concat (map frame_bytes fs)"

lemma stream_of_simps [simp]:
  "stream_of [] = []" "stream_of (f # fs) = frame_bytes f @ stream_of fs"
  by (simp_all add: stream_of_def)

lemma stream_of_append: "stream_of (fs @ gs) = stream_of fs @ stream_of gs"
  by (simp add: stream_of_def)

text \<open>At most \<open>n\<close> more bytes of the stream arrive.\<close>

definition arrive :: "frame list \<Rightarrow> nat \<Rightarrow> channel \<Rightarrow> channel" where
  "arrive fs n ch =
     (let new = take n (drop (arrived ch) (stream_of fs))
      in ch\<lparr>arrived := arrived ch + length new, buffer := buffer ch @ new\<rparr>)"

text \<open>\<open>framed.next()\<close> finds a whole frame in its buffer.\<close>

definition next_frame :: "channel \<Rightarrow> frame option" where
  "next_frame ch = (case fst (decode (buffer ch)) of Inr (Some f) \<Rightarrow> Some f | _ \<Rightarrow> None)"

definition take_frame :: "channel \<Rightarrow> channel" where
  "take_frame ch =
     (case decode (buffer ch) of
        (Inr (Some f), rest) \<Rightarrow> ch\<lparr>buffer := rest, taken := taken ch @ [f]\<rparr>
      | _ \<Rightarrow> ch)"

abbreviation carries :: "frame list \<Rightarrow> frame list \<Rightarrow> bool" where
  "carries \<equiv> list_all2 (\<lambda>f g. carried f = Inr g)"

definition channel_ok :: "frame list \<Rightarrow> channel \<Rightarrow> bool" where
  "channel_ok fs ch \<longleftrightarrow> arrived ch \<le> length (stream_of fs)
     \<and> (\<exists>done left. fs = done @ left \<and> carries done (taken ch)
          \<and> stream_of done @ buffer ch = take (arrived ch) (stream_of fs))"

lemma channel_ok_idle [simp]: "channel_ok fs idle_channel"
  by (auto simp: channel_ok_def idle_channel_def)

lemma channel_ok_post: "channel_ok fs ch \<Longrightarrow> channel_ok (fs @ gs) ch"
  unfolding channel_ok_def by (force simp: stream_of_append)

lemma channel_ok_arrive:
  assumes "channel_ok fs ch"
  shows "channel_ok fs (arrive fs n ch)"
proof -
  let ?S = "stream_of fs"
  obtain xs left where w: "fs = xs @ left" "carries xs (taken ch)" "stream_of xs @ buffer ch = take (arrived ch) ?S"
      "arrived ch \<le> length ?S"
    using assms unfolding channel_ok_def by blast
  have "take (arrived ch + length (take n (drop (arrived ch) ?S))) ?S = take (arrived ch) ?S @ take n (drop (arrived ch) ?S)"
    unfolding take_add by (simp add: min_def)
  with w have "fs = xs @ left \<and> carries xs (taken (arrive fs n ch))
      \<and> stream_of xs @ buffer (arrive fs n ch) = take (arrived (arrive fs n ch)) ?S"
    by (simp add: arrive_def Let_def)
  moreover have "arrived (arrive fs n ch) \<le> length ?S"
    using w(4) by (simp add: arrive_def Let_def)
  ultimately show ?thesis unfolding channel_ok_def by blast
qed

lemma channel_ok_take:
  assumes "channel_ok fs ch" and "\<forall>f \<in> set fs. fits f"
  shows "channel_ok fs (take_frame ch)"
proof (cases "\<exists>g rest. decode (buffer ch) = (Inr (Some g), rest)")
  case True
  then obtain g rest where d: "decode (buffer ch) = (Inr (Some g), rest)" by blast
  let ?S = "stream_of fs"
  obtain xs left where w: "fs = xs @ left" "carries xs (taken ch)" "stream_of xs @ buffer ch = take (arrived ch) ?S"
      and le: "arrived ch \<le> length ?S"
    using assms(1) unfolding channel_ok_def by blast
  have "stream_of xs @ buffer ch @ drop (arrived ch) ?S = ?S"
    using w(3) by (metis append.assoc append_take_drop_id)
  with w(1) have b: "buffer ch @ drop (arrived ch) ?S = stream_of left" by (simp add: stream_of_append)
  obtain f left' where l: "left = f # left'"
  proof (cases left)
    case Nil
    with b have "buffer ch = []" by simp
    with d codec.dec_empty have False by simp
    then show thesis ..
  qed (rule that)
  have "fits f" using assms(2) w(1) l by simp
  note f = decode_takes_frame [OF d _ this, of "drop (arrived ch) ?S" "stream_of left'"]
  have "carries (xs @ [f]) (taken ch @ [g])" using w(2) f b l by (simp add: list_all2_appendI)
  moreover have "stream_of (xs @ [f]) @ rest = take (arrived ch) ?S" using w(3) f(1) b l by (simp add: stream_of_append)
  ultimately have "fs = (xs @ [f]) @ left' \<and> carries (xs @ [f]) (taken (take_frame ch))
      \<and> stream_of (xs @ [f]) @ buffer (take_frame ch) = take (arrived (take_frame ch)) ?S"
    using w(1) l d by (simp add: take_frame_def)
  moreover have "arrived (take_frame ch) \<le> length ?S" using le d by (simp add: take_frame_def)
  ultimately show ?thesis unfolding channel_ok_def by blast
next
  case False
  then have "take_frame ch = ch"
    by (auto simp: take_frame_def split: prod.split sum.split option.split)
  with assms(1) show ?thesis by simp
qed

lemma taken_take_frame: "next_frame ch = Some f \<Longrightarrow> taken (take_frame ch) = taken ch @ [f]"
  by (auto simp: next_frame_def take_frame_def split: prod.splits sum.splits option.splits)

text \<open>The frames taken are those posted, in order, up to some point.\<close>

lemma channel_ok_prefix:
  assumes "channel_ok fs ch"
  obtains xs where "prefix xs fs" "carries xs (taken ch)"
  using assms unfolding channel_ok_def prefix_def by blast

lemma carries_Data: "carries fs gs \<Longrightarrow> [d. Data d \<leftarrow> gs] = [d. Data d \<leftarrow> fs]"
proof (induction rule: list_all2_induct)
  case (Cons f fs g gs)
  then show ?case by (cases g; cases f) (auto simp: carried_Data_iff)
qed simp

end
