(* ===== verification/Custody.thy ===== *)
theory Custody
  imports Lineage Network
begin
text \<open>
  The daemon with all its tasks, and the frames that have been read on each connection: an invariant
  (\<open>custody\<close>) that says who may feed a session.  A task has only connections of the daemon's own user,
  on which the first frame asked for a session and was granted; and what it wrote to its terminal is
  what it read on these connections, per connection in order, each frame whole or cut short.
\<close>

declare hand_over_def [simp del] drop_senders_def [simp del] abort_task_def [simp del]

section \<open>What a task writes comes from its connections\<close>

definition data_in :: "frame list \<Rightarrow> bytes list" where
  "data_in fs = [d. Data d \<leftarrow> fs]"

lemma data_in_simps [simp]:
  "data_in [] = []" "data_in (fs @ gs) = data_in fs @ data_in gs" "data_in (Data d # fs) = d # data_in fs"
  by (simp_all add: data_in_def)

text \<open>The chunks with their connections; \<open>T c\<close> are the frames read on \<open>c\<close>.\<close>

definition from_conn :: "'k \<Rightarrow> ('k \<times> bytes) list \<Rightarrow> bytes list" where
  "from_conn c ws = map snd (filter (\<lambda>w. fst w = c) ws)"

lemma from_conn_simps [simp]:
  "from_conn c [] = []" "from_conn c (ws @ vs) = from_conn c ws @ from_conn c vs"
  "from_conn c ((c', b) # ws) = (if c' = c then b # from_conn c ws else from_conn c ws)"
  by (simp_all add: from_conn_def)

definition fed :: "(conn \<Rightarrow> frame list) \<Rightarrow> session \<Rightarrow> bool" where
  "fed T s \<longleftrightarrow> (\<exists>ws. map snd ws = pty_chunks (effects s) \<and> fst ` set ws \<subseteq> seen s
     \<and> (\<forall>c. list_emb prefix (from_conn c ws) (data_in (T c))))"

lemma fed_mono:
  assumes "fed T s" and "pty_chunks (effects s') = pty_chunks (effects s)" and "seen s \<subseteq> seen s'"
    and "\<And>c. \<exists>fs. T' c = T c @ fs"
  shows "fed T' s'"
proof -
  obtain ws where ws: "map snd ws = pty_chunks (effects s)" "fst ` set ws \<subseteq> seen s"
      "\<forall>c. list_emb prefix (from_conn c ws) (data_in (T c))"
    using assms(1) unfolding fed_def by blast
  have "list_emb prefix (from_conn c ws) (data_in (T' c))" for c
  proof -
    obtain fs where "T' c = T c @ fs" using assms(4) by blast
    then show ?thesis using list_emb_prefix [of prefix "from_conn c ws" "data_in (T c)"] ws(3) by simp
  qed
  with ws assms(2,3) show ?thesis unfolding fed_def by auto
qed

lemma list_emb_prefix_snoc:
  assumes "list_emb prefix xs ys" and "prefix b d"
  shows "list_emb prefix (xs @ [b]) (ys @ [d])"
  using assms by induction auto

lemma fed_write:
  assumes "fed T s" and "pty_chunks (effects s') = pty_chunks (effects s) @ bs" and "seen s' = seen s"
    and "c \<in> seen s" and "bs = [] \<or> (\<exists>d n. f = Data d \<and> bs = [take n d])"
  shows "fed (T(c := T c @ [f])) s'"
proof (cases "bs = []")
  case True
  with assms(1-3) show ?thesis by (intro fed_mono [of T s s']) auto
next
  case False
  then obtain d n where f: "f = Data d" "bs = [take n d]" using assms(5) by blast
  obtain ws where ws: "map snd ws = pty_chunks (effects s)" "fst ` set ws \<subseteq> seen s"
      "\<And>c. list_emb prefix (from_conn c ws) (data_in (T c))"
    using assms(1) unfolding fed_def by blast
  let ?ws = "ws @ [(c, take n d)]"
  have "list_emb prefix (from_conn x ?ws) (data_in ((T(c := T c @ [f])) x))" for x
    using ws(3) [of x] list_emb_prefix_snoc [OF ws(3) [of c] take_is_prefix [of n d]] by (simp add: f)
  moreover have "map snd ?ws = pty_chunks (effects s')" "fst ` set ?ws \<subseteq> seen s'"
    using ws assms(2-4) f by auto
  ultimately show ?thesis unfolding fed_def by blast
qed

lemma fed_start: "fed T (start_session calls)"
  by (auto simp: fed_def start_session_def blank_session_def split: sum.split)

text \<open>One frame read by a task.\<close>

fun reading_conn :: "phase \<Rightarrow> conn option" where
  "reading_conn (ReadEnv c) = Some c"
| "reading_conn (Relay c) = Some c"
| "reading_conn _ = None"

fun task_event :: "phase \<Rightarrow> frame \<Rightarrow> event" where
  "task_event (ReadEnv c) f = EnvWait (Some (Some (Inr f)))"
| "task_event _ f = SocketFrame (Some (Inr f))"

lemma reading_conn_owned: "reading_conn (phase s) = Some c \<Longrightarrow> c \<in> seen s"
  by (cases "phase s") (auto simp: seen_def owned_def)

lemma task_event_own [simp]: "own_event (task_event ph f)" "handed_over (sys, task_event ph f) = []"
  by (cases ph; simp)+

lemma task_event_chunks:
  "\<exists>bs. pty_chunks (effects (session_step s (sys, task_event (phase s) f))) = pty_chunks (effects s) @ bs
     \<and> (bs = [] \<or> (\<exists>d n. f = Data d \<and> bs = [take n d]))"
proof (cases "phase s")
  case (ReadEnv c)
  then show ?thesis by (auto simp: spawn_shell_def Let_def finish_def split: sum.split option.split)
next
  case (Relay c)
  then show ?thesis
    by (cases f) (auto simp: client_gone_def finish_def split: sum.split option.split prod.split)
qed simp_all

section \<open>The invariant\<close>

definition asks_session :: "frame list \<Rightarrow> bool" where
  "asks_session fs \<longleftrightarrow> (\<exists>x later. fs = NewSession x # later \<or> fs = Attach x # later)"

text \<open>Connection \<open>c\<close> has been given to a task by right: of this user, asked for and granted.\<close>

definition entrusted :: "(conn \<Rightarrow> nat) \<Rightarrow> (conn \<Rightarrow> frame list) \<Rightarrow> daemon \<Rightarrow> conn \<Rightarrow> bool" where
  "entrusted u T d c \<longleftrightarrow> u c = uid (disk d) \<and> asks_session (T c)
     \<and> (\<exists>f. (c, f) \<in> set (replies (daemon_log d)) \<and> grants_session f)"

definition task_ok :: "(conn \<Rightarrow> nat) \<Rightarrow> (conn \<Rightarrow> frame list) \<Rightarrow> daemon \<Rightarrow> session \<Rightarrow> bool" where
  "task_ok u T d s \<longleftrightarrow> sends_own s \<and> fed T s \<and> (\<forall>c \<in> seen s. entrusted u T d c)"

text \<open>
  \<open>A\<close>: the connections accepted so far; \<open>u c\<close>: the user at the other end of \<open>c\<close>; \<open>T c\<close>: what the
  daemon and the tasks have read on \<open>c\<close>.
\<close>

definition custody :: "conn set \<Rightarrow> (conn \<Rightarrow> nat) \<Rightarrow> (conn \<Rightarrow> frame list) \<Rightarrow> daemon \<Rightarrow> bool" where
  "custody A u T d \<longleftrightarrow> given A d \<and> (\<forall>s \<in> set (all_tasks d). task_ok u T d s)
     \<and> distinct (map fst (replies (daemon_log d))) \<and> fst ` set (replies (daemon_log d)) \<subseteq> A
     \<and> (\<forall>r \<in> set (replies (daemon_log d)). \<not> is_data (snd r))
     \<and> (\<forall>c. dphase d = Reading c \<longrightarrow> c \<notin> fst ` set (replies (daemon_log d)) \<and> u c = uid (disk d) \<and> T c = [])
     \<and> (\<forall>c. c \<notin> A \<longrightarrow> T c = [])"

lemma custody_inv: "custody A u T d \<Longrightarrow> daemon_inv d"
  by (simp add: custody_def given_def)

lemma uid_remove_quietly [simp]: "uid (remove_quietly w p) = uid w"
  using only_changes_fields [OF remove_quietly_frame] by blast

lemma disk_handle_request: "uid (disk (handle_request c f calls during d)) = uid (disk d)"
  by (cases f) (simp_all add: handle_new_session_def handle_attach_def handle_list_def handle_kill_session_def
      shutdown_def Let_def split: option.split)

lemma disk_step [simp]: "uid (disk (daemon_step d e)) = uid (disk d)"
  by (cases e) (auto simp: shutdown_def disk_handle_request split: sum.split daemon_phase.split option.split)

lemma task_ok_becomes:
  assumes "task_ok u T d s" and "becomes C s s'"
    and "\<And>c. c \<in> C \<Longrightarrow> entrusted u T' d' c" and "\<And>c. entrusted u T d c \<Longrightarrow> entrusted u T' d' c"
    and "\<And>c. \<exists>fs. T' c = T c @ fs"
  shows "task_ok u T' d' s'"
proof -
  note b = becomes_facts [OF assms(2)]
  have "fed T' s'"
    using assms(1) b(1,3) assms(5) by (intro fed_mono [of T s s']) (simp_all add: task_ok_def)
  moreover have "\<forall>c \<in> seen s'. entrusted u T' d' c"
    using assms(1,3,4) b(2) by (auto simp: task_ok_def)
  ultimately show ?thesis using assms(1) b(5) by (simp add: task_ok_def)
qed

lemma task_ok_start: "becomes C (start_session calls) s' \<Longrightarrow> (\<And>c. c \<in> C \<Longrightarrow> entrusted u T d c) \<Longrightarrow> task_ok u T d s'"
  using task_ok_becomes [of u T d "start_session calls" C s' T d]
  by (simp add: task_ok_def fed_start sends_own_start conns_inv_start(2))

lemma tasks_ok_lineage:
  assumes "\<forall>s \<in> set ts. task_ok u T d s" and "lineage C ts us"
    and "\<And>c. c \<in> C \<Longrightarrow> entrusted u T' d' c" and "\<And>c. entrusted u T d c \<Longrightarrow> entrusted u T' d' c"
    and "\<And>c. \<exists>fs. T' c = T c @ fs"
  shows "\<forall>s \<in> set us. task_ok u T' d' s"
proof
  fix s' assume "s' \<in> set us"
  then consider s where "s \<in> set ts" "becomes C s s'" | calls where "becomes C (start_session calls) s'"
    using assms(2) unfolding lineage_def by blast
  then show "task_ok u T' d' s'"
  proof cases
    case 1
    with assms(1) show ?thesis by (intro task_ok_becomes [OF _ 1(2) assms(3-5)]) auto
  next
    case 2
    then show ?thesis using assms(3) by (rule task_ok_start)
  qed
qed

section \<open>Every step keeps it\<close>

lemma reading_after:
  assumes "daemon_inv d" and "dphase (daemon_step d e) = Reading c"
  shows "(dphase d = Reading c \<and> \<not> (\<exists>r calls during. e = ControlFrame r calls during)) \<or> (\<exists>cred. e = AcceptConn (Inr c) cred \<and> dphase d = Accepting
      \<and> verify_peer_uid cred (uid (disk d)) = Inr ())"
  using assms request_leaves_reading [OF assms(1)]
  by (cases e) (auto split: sum.splits daemon_phase.splits option.splits if_splits)

lemma custody_quiet:
  assumes "custody A u T d" and "\<not> framed_event e" and "accepted_conns e = []"
  shows "custody A u T (daemon_step d e)"
proof -
  let ?d = "daemon_step d e"
  note c = assms(1) [unfolded custody_def]
  note q = quiet_step [OF assms(2)]
  have "given A ?d" using given_step [of A d e] c assms(3) by simp
  moreover have "\<forall>s \<in> set (all_tasks ?d). task_ok u T ?d s"
    by (rule tasks_ok_lineage [OF _ q(1)]) (use c q(2) in \<open>auto simp: entrusted_def\<close>)
  moreover have "dphase d = Reading c" if "dphase ?d = Reading c" for c
    using reading_after [OF custody_inv [OF assms(1)] that] assms(3) by auto
  ultimately show ?thesis using c q(2) unfolding custody_def by simp
qed

lemma custody_accept:
  assumes "custody A u T d" and "x \<notin> A" and "cred = Inr (u x) \<or> (\<exists>e. cred = Inl e)"
  shows "custody (insert x A) u T (daemon_step d (AcceptConn (Inr x) cred))"
proof -
  let ?e = "AcceptConn (Inr x) cred"
  let ?d = "daemon_step d ?e"
  note c = assms(1) [unfolded custody_def]
  have q: "descends {} d ?d" "replies (daemon_log ?d) = replies (daemon_log d)"
    by (intro quiet_step; simp)+
  have "given (insert x A) ?d" using given_step [of A d ?e] c assms(2) by simp
  moreover have "\<forall>s \<in> set (all_tasks ?d). task_ok u T ?d s"
    by (rule tasks_ok_lineage [OF _ q(1)]) (use c q(2) in \<open>auto simp: entrusted_def simp del: daemon_step.simps\<close>)
  moreover have "y \<notin> fst ` set (replies (daemon_log d)) \<and> u y = uid (disk d) \<and> T y = []" if "dphase ?d = Reading y" for y
    using reading_after [OF custody_inv [OF assms(1)] that] c assms(2,3)
    by (auto simp: verify_peer_uid_Inr)
  ultimately show ?thesis using c q(2) disk_step [of d ?e] unfolding custody_def by (simp del: daemon_step.simps) blast
qed

lemma custody_request:
  assumes "custody A u T d" and "dphase d = Reading c" and "quietly_during during"
    and "d' = daemon_step d (ControlFrame (Some (Inr f)) calls during)"
  shows "custody A u (T(c := T c @ [f])) d'"
proof -
  let ?T = "T(c := T c @ [f])"
  note k = assms(1) [unfolded custody_def]
  have d': "d' = handle_request c f calls during d" using assms(2,4) by simp
  obtain g where l: "lineage {c} (all_tasks d) (all_tasks d')"
      and r: "replies (daemon_log d') = replies (daemon_log d) @ [(c, g)]" and nd: "\<not> is_data g"
      and w: "lineage {} (all_tasks d) (all_tasks d') \<or> (grants_session g \<and> (\<exists>x. f = NewSession x \<or> f = Attach x))"
    using serves_request [OF custody_inv [OF assms(1)] assms(3), of c f calls] unfolding d' serves_def by blast
  have uid: "uid (disk d') = uid (disk d)" by (simp only: assms(4) disk_step)
  have here: "u c = uid (disk d)" "T c = []" "c \<notin> fst ` set (replies (daemon_log d))" "c \<in> A"
    using k assms(2) by (simp_all add: given_def)
  have old: "entrusted u ?T d' x" if "entrusted u T d x" for x
    using that here(2) r uid by (auto simp: entrusted_def asks_session_def)
  have new: "entrusted u ?T d' c" if "grants_session g" "\<exists>x. f = NewSession x \<or> f = Attach x"
    using that here r uid by (auto simp: entrusted_def asks_session_def)
  have "\<forall>s \<in> set (all_tasks d'). task_ok u ?T d' s"
    using w
  proof
    assume "lineage {} (all_tasks d) (all_tasks d')"
    from tasks_ok_lineage [OF _ this, of u T d ?T d'] k old show ?thesis by auto
  next
    assume "grants_session g \<and> (\<exists>x. f = NewSession x \<or> f = Attach x)"
    with tasks_ok_lineage [OF _ l, of u T d ?T d'] k old new show ?thesis by auto
  qed
  moreover have "given A d'" unfolding assms(4) using given_step [of A d "ControlFrame (Some (Inr f)) calls during"] k
    by (simp del: daemon_step.simps)
  moreover have "dphase d' \<noteq> Reading x" for x
    unfolding d' by (rule request_leaves_reading [OF custody_inv [OF assms(1)]])
  moreover have "distinct (map fst (replies (daemon_log d')))" "fst ` set (replies (daemon_log d')) \<subseteq> A"
    "\<forall>r \<in> set (replies (daemon_log d')). \<not> is_data (snd r)"
    using k here(3,4) nd by (simp_all add: r)
  moreover have "\<forall>x. x \<notin> A \<longrightarrow> ?T x = []" using k here(4) by simp
  ultimately show ?thesis unfolding custody_def by blast
qed

lemma tasks_update_task:
  assumes "distinct (map fst ss)" and "map_of ss i = Some st" and "s \<in> set (tasks (update_task i g ss))"
  shows "s \<in> set (tasks ss) \<or> s = g (task st)"
proof -
  obtain k x where p: "(k, x) \<in> set ss" "s = (if k = i then g (task x) else task x)"
    using assms(3) by (auto simp: update_task_def split: if_splits)
  then have "map_of ss k = Some x" using assms(1) by simp
  with p assms(2) show ?thesis by force
qed

lemma custody_frame:
  assumes "custody A u T d" and "map_of (sessions d) i = Some st" and "reading_conn (phase (task st)) = Some c"
    and "\<forall>r. dphase d \<noteq> Stopped r"
    and "d' = daemon_step d (TaskEvent i (sys, task_event (phase (task st)) f))"
  shows "custody A u (T(c := T c @ [f])) d'"
proof -
  let ?T = "T(c := T c @ [f])" and ?ev = "task_event (phase (task st)) f"
  let ?s = "session_step (task st) (sys, ?ev)"
  note k = assms(1) [unfolded custody_def]
  have di: "distinct (map fst (sessions d))" using custody_inv [OF assms(1)] by (simp add: daemon_inv_def table_inv_def)
  have "d' = d\<lparr>sessions := update_task i (\<lambda>s. session_step s (sys, ?ev)) (sessions d)\<rparr>"
    using assms(4,5) by (cases "dphase d") (simp_all add: run_task_def)
  then have d': "retired d' = retired d" "daemon_log d' = daemon_log d" "dphase d' = dphase d" "disk d' = disk d"
    "sessions d' = update_task i (\<lambda>s. session_step s (sys, ?ev)) (sessions d)" by simp_all
  have st: "task st \<in> set (all_tasks d)" using map_of_SomeD [OF assms(2)] by (force simp: all_tasks_def)
  then have ok: "task_ok u T d (task st)" using k by blast
  have c: "c \<in> seen (task st)" using assms(3) by (rule reading_conn_owned)
  have ent: "entrusted u ?T d' x" if "entrusted u T d x" for x
    using that by (auto simp: entrusted_def asks_session_def d')
  have stepped: "task_ok u ?T d' ?s"
  proof -
    obtain bs where bs: "pty_chunks (effects ?s) = pty_chunks (effects (task st)) @ bs" "bs = [] \<or> (\<exists>d n. f = Data d \<and> bs = [take n d])"
      using task_event_chunks by blast
    have "seen ?s = seen (task st)" by (simp add: seen_step)
    moreover from this have "fed ?T ?s" using ok c bs by (intro fed_write) (simp_all add: task_ok_def)
    ultimately show ?thesis using ok ent sends_own_step by (simp add: task_ok_def)
  qed
  have other: "task_ok u ?T d' s" if "task_ok u T d s" for s
    using task_ok_becomes [OF that becomes_refl, of "{}" ?T d'] ent by simp
  have "task_ok u ?T d' s'" if "s' \<in> set (all_tasks d')" for s'
  proof -
    from that consider "s' \<in> set (all_tasks d)" | "s' = ?s"
      using tasks_update_task [OF di assms(2)] unfolding all_tasks_def d' by fastforce
    then show ?thesis using k other stepped by cases auto
  qed
  moreover have "given A d'" unfolding assms(5) using given_step [of A d "TaskEvent i (sys, ?ev)"] k
    by (simp del: daemon_step.simps)
  moreover have "c \<in> A"
  proof -
    have "owners c (all_tasks d) \<noteq> 0" using st c by (auto simp: owners_zero)
    with k show ?thesis by (force simp: given_def split: if_splits)
  qed
  moreover have "dphase d \<noteq> Reading c"
    using st c k by (auto simp: given_def owners_zero)
  then have "x \<notin> fst ` set (replies (daemon_log d')) \<and> u x = uid (disk d') \<and> ?T x = []" if "dphase d' = Reading x" for x
    using that k by (auto simp: d')
  moreover have "\<forall>x. x \<notin> A \<longrightarrow> ?T x = []" using k \<open>c \<in> A\<close> by simp
  moreover have "distinct (map fst (replies (daemon_log d')))" "fst ` set (replies (daemon_log d')) \<subseteq> A"
    "\<forall>r \<in> set (replies (daemon_log d')). \<not> is_data (snd r)"
    using k by (simp_all add: d')
  ultimately show ?thesis unfolding custody_def by blast
qed

lemma custody_start:
  assumes "d = fst (start_daemon w p fd sg)" and "u = u'"
  shows "custody {} u' (\<lambda>c. []) d"
proof -
  have s: "sessions d = []" "retired d = []" "\<forall>c. dphase d \<noteq> Reading c" "daemon_log d = []"
    by (auto simp: assms(1) start_daemon_def Let_def blank_daemon_def next_round_def reap_def reap_sessions_def
        split: prod.split sum.split option.split)
  then show ?thesis using daemon_inv_start by (simp add: custody_def given_def all_tasks_def all_ok_def assms(1))
qed

section \<open>What has been sent is never taken back\<close>

lemma custody_owners: "custody A u T d \<Longrightarrow> owners c (all_tasks d) \<le> 1"
proof -
  assume "custody A u T d"
  then have "owners c (all_tasks d) \<le> (if c \<in> A then 1 else 0)" by (simp add: custody_def given_def)
  also have "\<dots> \<le> 1" by simp
  finally show ?thesis .
qed

lemma custody_sends_own: "custody A u T d \<Longrightarrow> \<forall>s \<in> set (all_tasks d). sends_own s"
  by (simp add: custody_def task_ok_def)

lemmas custody_outbox = outbox_grows [OF _ custody_sends_own custody_sends_own custody_owners custody_owners]

lemma outbox_lineage:
  assumes "custody A u T d" and "custody A' u' T' d'" and "descends C d d'"
    and "\<exists>fs. replies_to c d' = replies_to c d @ fs" and "owners c (all_tasks d) \<noteq> 0 \<Longrightarrow> replies_to c d' = replies_to c d"
  shows "prefix (outbox c d) (outbox c d')"
proof (rule custody_outbox [OF _ assms(1,2,1,2,4,5)])
  fix s assume "s \<in> set (all_tasks d)"
  then obtain s' where "s' \<in> set (all_tasks d')" "becomes C s s'"
    using assms(3) unfolding lineage_def by blast
  then show "\<exists>s' \<in> set (all_tasks d'). seen s \<subseteq> seen s' \<and> (\<exists>new. effects s' = effects s @ new)"
    using becomes_facts(1,4) by blast
qed

lemma outbox_quiet:
  assumes "custody A u T d" and "custody A' u' T' (daemon_step d e)" and "\<not> framed_event e"
  shows "prefix (outbox c d) (outbox c (daemon_step d e))"
  using quiet_step [OF assms(3), of d]
  by (intro outbox_lineage [OF assms(1,2)]) (auto simp: replies_to_def)

lemma outbox_request:
  assumes "custody A u T d" and "dphase d = Reading x" and "quietly_during during"
    and "d' = daemon_step d (ControlFrame (Some (Inr f)) calls during)"
  shows "prefix (outbox c d) (outbox c d')"
proof -
  have d': "d' = handle_request x f calls during d" using assms(2,4) by simp
  obtain g where l: "descends {x} d d'" and r: "replies (daemon_log d') = replies (daemon_log d) @ [(x, g)]"
    using serves_request [OF custody_inv [OF assms(1)] assms(3), of x f calls] unfolding d' serves_def by blast
  have "owners x (all_tasks d) = 0" using assms(1,2) by (simp add: custody_def given_def)
  then show ?thesis
    using r by (intro outbox_lineage [OF assms(1) custody_request [OF assms] l]) (auto simp: replies_to_def)
qed

lemma outbox_frame:
  assumes "custody A u T d" and "map_of (sessions d) i = Some st" and "reading_conn (phase (task st)) = Some x"
    and "\<forall>r. dphase d \<noteq> Stopped r"
    and "d' = daemon_step d (TaskEvent i (sys, task_event (phase (task st)) f))"
  shows "prefix (outbox c d) (outbox c d')"
proof -
  let ?ev = "task_event (phase (task st)) f"
  have d': "retired d' = retired d" "daemon_log d' = daemon_log d"
    "sessions d' = update_task i (\<lambda>s. session_step s (sys, ?ev)) (sessions d)"
    using assms(4,5) by (cases "dphase d"; simp add: run_task_def)+
  show ?thesis
  proof (rule custody_outbox [OF _ assms(1) custody_frame [OF assms] assms(1) custody_frame [OF assms]])
    fix s assume "s \<in> set (all_tasks d)"
    then have "s \<in> set (all_tasks d') \<or> session_step s (sys, ?ev) \<in> set (all_tasks d')"
      by (force simp: all_tasks_def d' update_task_def)
    moreover have "seen s \<subseteq> seen (session_step s (sys, ?ev)) \<and> (\<exists>new. effects (session_step s (sys, ?ev)) = effects s @ new)"
      using session_step_log by (simp add: seen_step)
    ultimately show "\<exists>s' \<in> set (all_tasks d'). seen s \<subseteq> seen s' \<and> (\<exists>new. effects s' = effects s @ new)"
      by auto
  qed (simp_all add: replies_to_def d')
qed

text \<open>What is in the outbox: at most one reply, and what the one task that has the connection sent.\<close>

lemma filter_key: "distinct (map fst rs) \<Longrightarrow> (c, f) \<in> set rs \<Longrightarrow> filter (\<lambda>r. fst r = c) rs = [(c, f)]"
  by (induction rs) (auto simp: filter_empty_conv, force+)

lemma outbox_owned:
  assumes "custody A u T d" and "s \<in> set (all_tasks d)" and "c \<in> seen s"
  obtains f where "grants_session f" "outbox c d = f # frames_to c (effects s)"
proof -
  have r: "distinct (map fst (replies (daemon_log d)))" and "entrusted u T d c"
    using assms by (auto simp: custody_def task_ok_def)
  then obtain f where f: "(c, f) \<in> set (replies (daemon_log d))" "grants_session f"
    by (auto simp: entrusted_def)
  have "filter (\<lambda>r. fst r = c) (replies (daemon_log d)) = [(c, f)]"
    by (rule filter_key [OF r f(1)])
  moreover have "session_out c (all_tasks d) = frames_to c (effects s)"
    by (rule session_out_owner [OF custody_sends_own [OF assms(1)] custody_owners [OF assms(1)] assms(2,3)])
  ultimately show thesis using that f(2) by (simp add: outbox_def replies_to_def)
qed

lemma outbox_unowned:
  assumes "custody A u T d" and "\<forall>s \<in> set (all_tasks d). c \<notin> seen s"
  shows "length (outbox c d) \<le> 1"
proof -
  have r: "distinct (map fst (replies (daemon_log d)))" using assms(1) by (simp add: custody_def)
  have "length (filter (\<lambda>r. fst r = c) rs) \<le> 1" if "distinct (map fst rs)" for rs :: "(conn \<times> frame) list"
    using that by (induction rs) (auto simp: filter_empty_conv, force)
  moreover have "session_out c (all_tasks d) = []"
    using session_out_none [OF custody_sends_own [OF assms(1)], of c] assms(2) by (simp add: owners_zero)
  ultimately show ?thesis using r by (simp add: outbox_def replies_to_def)
qed

end
