(* ===== verification/Connect.thy ===== *)
theory Connect
  imports Protocol Security Daemon "HOL-Library.Sublist"
begin

text \<open>
  \<open>src/connect.rs\<close>: the SSH tunnel.  Destination parsing, the command lines given to \<open>ssh\<close>, the wait
  for the tunnel's socket, the task that watches and respawns \<open>ssh\<close> as a state machine with its
  rate limit, the cleanup guard, and \<open>run\<close>, whose calls (\<open>ssh\<close>'s output, \<open>spawn\<close>, the polls of the
  socket, what wakes it) are arguments.  Times are milliseconds.  The remote output is taken as
  decoded text; \<open>trim\<close> removes ASCII white space.
\<close>

section \<open>Destinations\<close>

record destination =
  user :: "string option"
  host :: string
  port :: "u16 option"

definition parse_destination :: "string \<Rightarrow> app_error + destination" where
  "parse_destination s =
     (if s = [] then Inl (Message ''empty destination'')
      else
        try_then
          (case split_once CHR ''@'' s of
             Some (u, rest) \<Rightarrow>
               if u = [] then Inl (Message (''empty user in destination: '' @ s)) else Inr (Some u, rest)
           | None \<Rightarrow> Inr (None, s))
          (\<lambda>(user_opt, remainder).
             try_then
               (case rsplit_once CHR '':'' remainder of
                  Some (h, p) \<Rightarrow>
                    (case parse_u16 p of
                       Some n \<Rightarrow> Inr (h, Some n)
                     | None \<Rightarrow> Inl (Message (''invalid port in destination: '' @ s)))
                | None \<Rightarrow> Inr (remainder, None))
               (\<lambda>(h, port_opt).
                  if h = [] then Inl (Message (''empty host in destination: '' @ s))
                  else Inr \<lparr>user = user_opt, host = h, port = port_opt\<rparr>)))"

definition ssh_dest :: "destination \<Rightarrow> string" where
  "ssh_dest d = (case user d of Some u \<Rightarrow> u @ ''@'' @ host d | None \<Rightarrow> host d)"

definition port_args :: "destination \<Rightarrow> string list" where
  "port_args d = (case port d of Some p \<Rightarrow> [''-p'', show_u16 p] | None \<Rightarrow> [])"

section \<open>Command lines\<close>

definition SSH_TUNNEL_OPTS :: "string list" where
  "SSH_TUNNEL_OPTS =
     [''-o'', ''ServerAliveInterval=3'', ''-o'', ''ServerAliveCountMax=2'',
      ''-o'', ''StreamLocalBindUnlink=yes'', ''-o'', ''ExitOnForwardFailure=yes'',
      ''-o'', ''ConnectTimeout=5'', ''-N'', ''-T'']"

definition o_args :: "string list \<Rightarrow> string list" where
  "o_args opts = concat (map (\<lambda>opt. [''-o'', opt]) opts)"

definition remote_exec_args :: "destination \<Rightarrow> string \<Rightarrow> string list \<Rightarrow> string list" where
  "remote_exec_args d remote_cmd extra =
     port_args d @ o_args extra @ [''-o'', ''ConnectTimeout=5'', ssh_dest d,
       ''PATH=\"$HOME/bin:$HOME/.local/bin:$HOME/.cargo/bin:$PATH\"; '' @ remote_cmd]"

definition tunnel_command :: "destination \<Rightarrow> path \<Rightarrow> string \<Rightarrow> string list \<Rightarrow> string list" where
  "tunnel_command d local_sock remote_sock extra =
     port_args d @ SSH_TUNNEL_OPTS @ o_args extra
     @ [''-L'', display_path local_sock @ '':'' @ remote_sock, ssh_dest d]"

section \<open>Running a command on the remote host\<close>

record ssh_output =
  succeeded :: bool
  stdout :: string
  stderr :: string

definition white :: "char \<Rightarrow> bool" where
  "white c \<longleftrightarrow> (of_char c :: nat) \<in> {9, 10, 11, 12, 13, 32}"

definition trim :: "string \<Rightarrow> string" where
  "trim s = rev (dropWhile white (rev (dropWhile white s)))"

definition contains :: "string \<Rightarrow> string \<Rightarrow> bool" where
  "contains s pat \<longleftrightarrow> list_ex (\<lambda>t. take (length pat) t = pat) (suffixes s)"

text \<open>\<open>result\<close> is what \<open>cmd.output()\<close> returned.\<close>

definition remote_exec :: "io_error + ssh_output \<Rightarrow> app_error + string" where
  "remote_exec result =
     (case result of
        Inl e \<Rightarrow> Inl (Context ''failed to run ssh'' e)
      | Inr out \<Rightarrow>
          if \<not> succeeded out then
            (let err = trim (stderr out)
             in if contains err ''command not found'' \<or> contains err ''No such file''
                then Inl (Message ''gritty not found on remote host (is it in PATH?)'')
                else Inl (Message (''ssh command failed: '' @ err)))
          else Inr (trim (stdout out)))"

definition REMOTE_ENSURE_CMD :: string where
  "REMOTE_ENSURE_CMD =
     ''SOCK=$(gritty socket-path) && (gritty ls >/dev/null 2>&1 || { gritty daemon && sleep 0.3; }) && echo \"$SOCK\"''"

definition ensure_cmd :: "bool \<Rightarrow> string" where
  "ensure_cmd no_daemon_start = (if no_daemon_start then ''gritty socket-path'' else REMOTE_ENSURE_CMD)"

definition ensure_remote_ready :: "io_error + ssh_output \<Rightarrow> app_error + string" where
  "ensure_remote_ready result =
     try_then (remote_exec result) (\<lambda>sock_path.
       if sock_path = [] then Inl (Message ''remote host returned empty socket path'') else Inr sock_path)"

section \<open>Waiting for the socket\<close>

text \<open>Each poll is whether \<open>connect\<close> succeeded and the clock after it; \<open>None\<close>: still polling.\<close>

fun wait_for_socket :: "path \<Rightarrow> nat \<Rightarrow> (bool \<times> nat) list \<Rightarrow> (app_error + unit) option" where
  "wait_for_socket p deadline [] = None"
| "wait_for_socket p deadline ((ok, now) # polls) =
     (if ok then Some (Inr ())
      else if now \<ge> deadline
      then Some (Inl (Message (''timeout waiting for SSH tunnel socket at '' @ display_path p)))
      else wait_for_socket p deadline polls)"

section \<open>The tunnel monitor\<close>

datatype monitor_phase = Watching | MonitorDone

record monitor =
  mphase :: monitor_phase
  child :: u32                     \<comment> \<open>pid of the running \<open>ssh\<close>\<close>
  exit_times :: "nat list"
  respawned :: nat
  killed :: "u32 list"

datatype monitor_event =
    StopCancelled
  | TunnelExit "io_error + i32 option" bool nat bool "io_error + u32"
      \<comment> \<open>\<open>wait\<close>; \<open>is_cancelled\<close>; the clock; \<open>is_cancelled\<close> after the sleep; \<open>spawn\<close>\<close>

definition start_monitor :: "u32 \<Rightarrow> monitor" where
  "start_monitor pid = \<lparr>mphase = Watching, child = pid, exit_times = [], respawned = 0, killed = []\<rparr>"

definition monitor_done :: "monitor \<Rightarrow> monitor" where
  "monitor_done m = m\<lparr>mphase := MonitorDone\<rparr>"

definition transient :: "i32 option \<Rightarrow> bool" where
  "transient code \<longleftrightarrow> (case code of None \<Rightarrow> True | Some c \<Rightarrow> c = 255)"

definition on_tunnel_exit :: "i32 option \<Rightarrow> bool \<Rightarrow> nat \<Rightarrow> bool \<Rightarrow> io_error + u32 \<Rightarrow> monitor \<Rightarrow> monitor" where
  "on_tunnel_exit code stopped now stopped_later spawned m =
     (if stopped then monitor_done m
      else if \<not> transient code then monitor_done m
      else
        (let m1 = m\<lparr>exit_times := filter (\<lambda>t. now - t < 10000) (exit_times m @ [now])\<rparr>
         in if length (exit_times m1) \<ge> 5 then monitor_done m1
            else if stopped_later then monitor_done m1
            else (case spawned of
                    Inr pid \<Rightarrow> m1\<lparr>child := pid, respawned := respawned m1 + 1\<rparr>
                  | Inl e \<Rightarrow> monitor_done m1)))"

fun monitor_step :: "monitor \<Rightarrow> monitor_event \<Rightarrow> monitor" where
  "monitor_step m StopCancelled =
     (if mphase m = Watching then monitor_done (m\<lparr>killed := killed m @ [child m]\<rparr>) else m)"
| "monitor_step m (TunnelExit status stopped now stopped_later spawned) =
     (if mphase m = Watching then
        (case status of
           Inl e \<Rightarrow> monitor_done m
         | Inr code \<Rightarrow> on_tunnel_exit code stopped now stopped_later spawned m)
      else m)"

abbreviation run_monitor :: "monitor \<Rightarrow> monitor_event list \<Rightarrow> monitor" where
  "run_monitor \<equiv> run_steps monitor_step"

section \<open>The guard and \<open>run\<close>\<close>

datatype connect_effect =
    RunSsh "string list"           \<comment> \<open>\<open>ssh\<close> with these arguments, to completion\<close>
  | SpawnSsh "string list"
  | CancelToken
  | TermChild u32                  \<comment> \<open>\<open>SIGTERM\<close>\<close>
  | RemoveSocket path
  | PrintPath path

record connect_guard =
  guard_child :: "u32 option"
  guard_sock :: path

definition drop_guard :: "connect_guard \<Rightarrow> connect_effect list" where
  "drop_guard g =
     [CancelToken] @ (case guard_child g of Some pid \<Rightarrow> [TermChild pid] | None \<Rightarrow> [])
     @ [RemoveSocket (guard_sock g)]"

definition local_socket_path :: "world \<Rightarrow> nat \<Rightarrow> path" where
  "local_socket_path w pid = path_join (socket_dir w) (''connect-'' @ show_nat pid @ ''.sock'')"

record connect_opts =
  dest_arg :: string
  no_daemon_start :: bool
  ssh_options :: "string list"

record connect_calls =
  my_pid :: nat
  ran_remote :: "io_error + ssh_output"
  spawned :: "io_error + u32"
  clock :: nat
  polls :: "(bool \<times> nat) list"
  signals_ready :: "io_error option"

text \<open>The new \<open>ssh\<close>, or the error with its context.\<close>

definition spawn_tunnel ::
  "destination \<Rightarrow> path \<Rightarrow> string \<Rightarrow> string list \<Rightarrow> io_error + u32 \<Rightarrow> (app_error + u32) \<times> connect_effect list" where
  "spawn_tunnel d local_sock remote_sock extra result =
     ((case result of Inl e \<Rightarrow> Inl (Context ''failed to spawn ssh tunnel'' e) | Inr pid \<Rightarrow> Inr pid),
      [SpawnSsh (tunnel_command d local_sock remote_sock extra)])"

text \<open>
  The result and the effects up to the return; \<open>None\<close> while it still polls.  The last \<open>select!\<close> only
  chooses when to leave: a signal and the end of the monitor both lead to the same cleanup.
\<close>

definition run_connect ::
  "world \<Rightarrow> connect_opts \<Rightarrow> connect_calls \<Rightarrow> (app_error + i32) option \<times> connect_effect list" where
  "run_connect w opts calls =
     (case parse_destination (dest_arg opts) of
        Inl e \<Rightarrow> (Some (Inl e), [])
      | Inr d \<Rightarrow>
          (let es1 = [RunSsh (remote_exec_args d (ensure_cmd (no_daemon_start opts)) (ssh_options opts))]
           in case ensure_remote_ready (ran_remote calls) of
                Inl e \<Rightarrow> (Some (Inl e), es1)
              | Inr remote_sock \<Rightarrow>
                  (let local_sock = local_socket_path w (my_pid calls)
                   in case (case path_parent local_sock of
                              None \<Rightarrow> Inr () | Some q \<Rightarrow> fst (secure_create_dir_all w q)) of
                        Inl e \<Rightarrow> (Some (Inl (Context [] e)), es1)
                      | Inr _ \<Rightarrow>
                          (let (sp, es_sp) = spawn_tunnel d local_sock remote_sock (ssh_options opts) (spawned calls);
                               es2 = es1 @ [RemoveSocket local_sock] @ es_sp
                           in case sp of
                                Inl e \<Rightarrow> (Some (Inl e), es2)
                              | Inr pid \<Rightarrow>
                                  (let guard = \<lparr>guard_child = Some pid, guard_sock = local_sock\<rparr>
                                   in case wait_for_socket local_sock (clock calls + 15000) (polls calls) of
                                        None \<Rightarrow> (None, es2)
                                      | Some (Inl e) \<Rightarrow> (Some (Inl e), es2 @ drop_guard guard)
                                      | Some (Inr _) \<Rightarrow>
                                          (let guard' = guard\<lparr>guard_child := None\<rparr>;
                                               es3 = es2 @ [PrintPath local_sock] @ drop_guard guard'
                                           in case signals_ready calls of
                                                Some e \<Rightarrow> (Some (Inl (Context [] e)), es3)
                                              | None \<Rightarrow> (Some (Inr 0), es3)))))))"

section \<open>Properties of destinations\<close>

definition show_destination :: "destination \<Rightarrow> string" where
  "show_destination d = ssh_dest d @ (case port d of Some p \<Rightarrow> '':'' @ show_u16 p | None \<Rightarrow> [])"

definition well_formed_destination :: "destination \<Rightarrow> bool" where
  "well_formed_destination d \<longleftrightarrow>
     host d \<noteq> [] \<and> (case user d of Some u \<Rightarrow> u \<noteq> [] \<and> CHR ''@'' \<notin> set u | None \<Rightarrow> CHR ''@'' \<notin> set (host d))
     \<and> (port d = None \<longrightarrow> CHR '':'' \<notin> set (host d))"

lemma show_u16_not_colon [simp]: "CHR '':'' \<notin> set (show_u16 p)"
  by (simp add: show_u16_def)

lemma show_u16_not_at [simp]: "CHR ''@'' \<notin> set (show_u16 p)"
  by (auto simp: show_u16_def dest: show_nat_digits)

lemma parse_remainder:
  assumes "h \<noteq> []" and "port_opt = None \<longrightarrow> CHR '':'' \<notin> set h"
    and "r = h @ (case port_opt of Some p \<Rightarrow> '':'' @ show_u16 p | None \<Rightarrow> [])"
  shows "(case rsplit_once CHR '':'' r of
            Some (h, p) \<Rightarrow>
              (case parse_u16 p of Some n \<Rightarrow> Inr (h, Some n) | None \<Rightarrow> Inl err)
          | None \<Rightarrow> Inr (r, None)) = Inr (h, port_opt)"
proof (cases port_opt)
  case None
  with assms show ?thesis by (simp add: rsplit_once_None [THEN iffD2])
next
  case (Some p)
  then have "rsplit_once CHR '':'' r = Some (h, show_u16 p)"
    using assms(3) by (simp add: rsplit_once_Some)
  with Some show ?thesis by simp
qed

lemma parse_show_destination:
  assumes "well_formed_destination d"
  shows "parse_destination (show_destination d) = Inr d"
proof -
  let ?tail = "case port d of Some p \<Rightarrow> '':'' @ show_u16 p | None \<Rightarrow> []"
  have r: "(case rsplit_once CHR '':'' (host d @ ?tail) of
            Some (h, p) \<Rightarrow> (case parse_u16 p of Some n \<Rightarrow> Inr (h, Some n) | None \<Rightarrow> Inl err)
          | None \<Rightarrow> Inr (host d @ ?tail, None)) = Inr (host d, port d)" for err :: app_error
    using assms by (intro parse_remainder) (auto simp: well_formed_destination_def)
  show ?thesis
  proof (cases "user d")
    case None
    then have "CHR ''@'' \<notin> set (host d @ ?tail)"
      using assms by (auto simp: well_formed_destination_def split: option.splits)
    then have "split_once CHR ''@'' (host d @ ?tail) = None" by (simp add: split_once_None)
    with None r assms show ?thesis
      by (simp add: parse_destination_def show_destination_def ssh_dest_def well_formed_destination_def)
  next
    case (Some u)
    then have "split_once CHR ''@'' (u @ CHR ''@'' # host d @ ?tail) = Some (u, host d @ ?tail)"
      using assms by (intro split_once_append) (simp add: well_formed_destination_def)
    with Some r assms show ?thesis
      by (simp add: parse_destination_def show_destination_def ssh_dest_def well_formed_destination_def)
  qed
qed



text \<open>
  A bare IPv6 address is not an error: its last group, when it is a decimal number, is taken as the
  port (the host of \<open>fe80::1\<close> is \<open>fe80:\<close>).
\<close>

lemma ipv6_tail_is_port:
  assumes "CHR ''@'' \<notin> set h" and "h \<noteq> []"
  shows "parse_destination (h @ '':'' @ show_u16 p) = Inr \<lparr>user = None, host = h, port = Some p\<rparr>"
  using parse_show_destination [of "\<lparr>user = None, host = h, port = Some p\<rparr>"] assms
  by (simp add: show_destination_def ssh_dest_def well_formed_destination_def)

section \<open>Properties of the tunnel\<close>

lemma wait_for_socket_None:
  "wait_for_socket p d ps = None \<longleftrightarrow> (\<forall>(ok, now) \<in> set ps. \<not> ok \<and> now < d)"
  by (induction p d ps rule: wait_for_socket.induct) auto

text \<open>
  Waiting for the tunnel ends: if the clock of the \<open>i\<close>-th poll is at least \<open>200 i\<close> milliseconds
  after the start (that is how long it sleeps), it returns by the 76th poll, with the timeout only
  if no poll before the deadline of 15 seconds could connect.
\<close>

theorem wait_for_socket_ends:
  assumes "\<And>i. i < length ps \<Longrightarrow> snd (ps ! i) \<ge> t0 + 200 * i" and "76 \<le> length ps"
  shows "wait_for_socket p (t0 + 15000) ps \<noteq> None
    \<and> ((\<exists>ok now. (ok, now) \<in> set ps \<and> ok) \<and> (\<forall>(ok, now) \<in> set ps. ok \<or> now < t0 + 15000)
         \<longrightarrow> wait_for_socket p (t0 + 15000) ps = Some (Inr ()))"
proof -
  have "snd (ps ! 75) \<ge> t0 + 15000" "ps ! 75 \<in> set ps" using assms(1) [of 75] assms(2) by simp_all
  then have "wait_for_socket p (t0 + 15000) ps \<noteq> None"
    by (auto simp: wait_for_socket_None case_prod_beta Bex_def [symmetric] intro!: bexI [of _ "ps ! 75"])
  moreover have "(\<exists>ok now. (ok, now) \<in> set ps \<and> ok) \<Longrightarrow> (\<forall>(ok, now) \<in> set ps. ok \<or> now < d)
      \<Longrightarrow> wait_for_socket p d ps = Some (Inr ())" for d
    by (induction p d ps rule: wait_for_socket.induct) auto
  ultimately show ?thesis by blast
qed

theorem wait_for_socket_ends_witness:
  "wait_for_socket (abs_path [''s'']) (7 + 15000) (map (\<lambda>i. (False, 7 + 200 * i)) [0..<76]) \<noteq> None"
  using wait_for_socket_ends [of "map (\<lambda>i. (False, 7 + 200 * i)) [0..<76]" 7 "abs_path [''s'']"] by simp

text \<open>The clocks of the events, and the exits that count.\<close>

fun exit_clock :: "monitor_event \<Rightarrow> nat list" where
  "exit_clock StopCancelled = []"
| "exit_clock (TunnelExit status stopped now later sp) = [now]"

definition recent :: "nat \<Rightarrow> nat list \<Rightarrow> nat list" where
  "recent now ts = filter (\<lambda>t. now - t < 10000) ts"

definition monitor_inv :: "nat list \<Rightarrow> monitor \<Rightarrow> bool" where
  "monitor_inv ts m \<longleftrightarrow>
     mphase m = Watching \<longrightarrow>
       respawned m = length ts \<and> (ts \<noteq> [] \<longrightarrow> exit_times m = recent (last ts) ts \<and> length (exit_times m) < 5)
       \<and> (ts = [] \<longrightarrow> exit_times m = [])"

lemma recent_step:
  assumes "sorted (ts @ [now])" and "ts \<noteq> []"
  shows "recent now (recent (last ts) ts @ [now]) = recent now (ts @ [now])"
proof -
  have "last ts \<le> now" using assms by (simp add: sorted_append)
  then have "now - t < 10000 \<Longrightarrow> last ts - t < 10000" for t by linarith
  then show ?thesis by (auto simp: recent_def filter_filter intro: filter_cong)
qed

lemma monitor_inv_exit:
  assumes "monitor_inv ts m" and "mphase m = Watching" and "sorted (ts @ [now])"
  shows "monitor_inv (ts @ [now]) (on_tunnel_exit code st now later sp m)"
proof -
  have "filter (\<lambda>t. now - t < 10000) (exit_times m @ [now]) = recent now (ts @ [now])"
    using assms recent_step [OF assms(3)]
    by (cases "ts = []") (auto simp: monitor_inv_def recent_def)
  with assms show ?thesis
    by (auto simp: monitor_inv_def on_tunnel_exit_def monitor_done_def Let_def split: sum.split)
qed

lemma monitor_done_stays: "mphase m = MonitorDone \<Longrightarrow> run_monitor m es = m"
proof (induction es arbitrary: m)
  case (Cons e es)
  then show ?case by (cases e) auto
qed simp

lemma monitor_inv_run:
  "monitor_inv ts m \<Longrightarrow> sorted (ts @ concat (map exit_clock es)) \<Longrightarrow>
   monitor_inv (ts @ concat (map exit_clock es)) (run_monitor m es)"
proof (induction es arbitrary: ts m)
  case (Cons e es)
  show ?case
  proof (cases "mphase (run_monitor m (e # es)) = Watching")
    case False
    then show ?thesis by (simp add: monitor_inv_def)
  next
    case True
    have w: "mphase m = Watching"
      using True monitor_done_stays [of m "e # es"] by (cases "mphase m") auto
    have "monitor_inv (ts @ exit_clock e) (monitor_step m e)"
    proof (cases e)
      case StopCancelled
      then show ?thesis by (simp add: monitor_inv_def monitor_done_def w)
    next
      case (TunnelExit status st now later sp)
      have srt: "sorted (ts @ [now])" using Cons.prems(2) by (simp add: TunnelExit sorted_append)
      show ?thesis
      proof (cases status)
        case (Inl err)
        then show ?thesis by (simp add: TunnelExit w monitor_inv_def monitor_done_def)
      next
        case (Inr code)
        then show ?thesis by (simp add: TunnelExit w monitor_inv_exit [OF Cons.prems(1) w srt])
      qed
    qed
    from Cons.IH [OF this] Cons.prems(2) show ?thesis by simp
  qed
qed simp

text \<open>
  C37. The tunnel is never respawned in a tight loop: as long as the monitor is watching, it has
  respawned \<open>ssh\<close> once per exit so far, and fewer than five of these exits lie in the 10 seconds up
  to the last one.
\<close>

theorem respawns_are_rate_limited:
  assumes "ts = concat (map exit_clock es)" and "sorted ts"
    and "mphase (run_monitor (start_monitor pid) es) = Watching" and "ts \<noteq> []"
  shows "respawned (run_monitor (start_monitor pid) es) = length ts \<and> length (recent (last ts) ts) < 5"
proof -
  have "monitor_inv [] (start_monitor pid)" by (simp add: monitor_inv_def start_monitor_def)
  from monitor_inv_run [OF this, of es] assms show ?thesis by (auto simp: monitor_inv_def)
qed

definition sample_exits :: "nat \<Rightarrow> monitor_event list" where
  "sample_exits n = map (\<lambda>i. TunnelExit (Inr (Some 255)) False (3000 * i) False (Inr 7)) [0..<n]"

lemma sample_exits_4:
  "mphase (run_monitor (start_monitor 6) (sample_exits 4)) = Watching"
  by (simp add: sample_exits_def upt_rec start_monitor_def on_tunnel_exit_def transient_def Let_def)

theorem respawns_are_rate_limited_witness:
  "respawned (run_monitor (start_monitor 6) (sample_exits 4)) = 4"
  using respawns_are_rate_limited [OF refl _ sample_exits_4]
  by (simp add: sample_exits_def comp_def upt_rec)

text \<open>
  The cleanup does not stop the tunnel it handed over.  When \<open>run\<close> returns normally, the guard's
  child has been taken, so no signal is sent to \<open>ssh\<close> (only the token is cancelled and the socket
  removed); if instead the socket never came up, the same guard does terminate \<open>ssh\<close>.
\<close>

theorem cleanup_skips_running_tunnel:
  assumes "run_connect w opts calls = (Some r, es)" and "spawned calls = Inr pid"
    and "SpawnSsh ssh_args \<in> set es"
  shows "(r = Inr 0 \<longrightarrow> (\<forall>p. TermChild p \<notin> set es) \<and> CancelToken \<in> set es)
    \<and> (wait_for_socket (local_socket_path w (my_pid calls)) (clock calls + 15000) (polls calls) = Some (Inl e)
         \<longrightarrow> TermChild pid \<in> set es)"
  using assms
  by (auto simp: run_connect_def spawn_tunnel_def Let_def drop_guard_def split: sum.splits option.splits prod.splits)

definition sample_connect :: connect_calls where
  "sample_connect =
     \<lparr>my_pid = 99, ran_remote = Inr \<lparr>succeeded = True, stdout = ''/run/ctl.sock'', stderr = []\<rparr>,
      spawned = Inr 7, clock = 0, polls = [(True, 10)], signals_ready = None\<rparr>"

definition sample_opts :: connect_opts where
  "sample_opts = \<lparr>dest_arg = ''me@host'', no_daemon_start = True, ssh_options = []\<rparr>"

definition tunnel_world :: world where
  "tunnel_world = sample_world\<lparr>nodes := (nodes sample_world)
     (abs_path [''tmp'', ''gritty-'' @ show_nat 1000] \<mapsto> Dir 1000 448)\<rparr>"

theorem cleanup_skips_running_tunnel_witness:
  "\<exists>es. run_connect tunnel_world sample_opts sample_connect = (Some (Inr 0), es)
     \<and> (\<forall>p. TermChild p \<notin> set es) \<and> CancelToken \<in> set es"
proof -
  have dir: "socket_dir tunnel_world = abs_path [''tmp'', ''gritty-'' @ show_nat 1000]"
    by (simp add: socket_dir_def tunnel_world_def sample_world_def)
  have sec: "fst (secure_create_dir_all tunnel_world (abs_path [''tmp'', ''gritty-'' @ show_nat 1000])) = Inr ()"
    by (subst secure_create_existing)
      (simp_all add: tunnel_world_def sample_world_simps validate_dir_def symlink_metadata_def)
  obtain d where d: "parse_destination ''me@host'' = Inr d"
    by (simp add: parse_destination_def rsplit_once_def)
  obtain es where es: "run_connect tunnel_world sample_opts sample_connect = (Some (Inr 0), es)"
    "SpawnSsh (tunnel_command d (local_socket_path tunnel_world 99) ''/run/ctl.sock'' []) \<in> set es"
    using sec d by (simp add: run_connect_def spawn_tunnel_def sample_opts_def sample_connect_def ensure_remote_ready_def remote_exec_def
        local_socket_path_def dir Let_def trim_def white_def)
  from cleanup_skips_running_tunnel [OF es(1) _ es(2)] es(1) show ?thesis
    by (auto simp: sample_connect_def)
qed

end
