(* ===== verification/Cli.thy ===== *)
theory Cli
  imports Client Daemon Connect
begin

text \<open>
  \<open>src/main.rs\<close> and \<open>src/lib.rs\<close>: what each subcommand does with the daemon's answer, the table that
  \<open>list-sessions\<close> prints, the exit code of the parent of a daemon, and the variables collected for a
  new session.  The dispatch of \<open>main\<close> is in theory \<open>Program\<close>, the processes of \<open>daemonize\<close> in theory
  \<open>Launch\<close>; \<open>localtime_r\<close> is an argument.
\<close>

section \<open>Requests to the daemon\<close>

text \<open>The results of \<open>connect\<close> and \<open>send\<close>, and the first frame that comes back.\<close>

record exchange =
  could_connect :: bool
  send_error :: "io_error option"
  reply :: "(io_error + frame) option"

definition no_daemon :: "path \<Rightarrow> app_error" where
  "no_daemon ctl = Message (''no daemon running (could not connect to '' @ display_path ctl @ '')'')"

definition after_send :: "exchange \<Rightarrow> app_error + frame" where
  "after_send x =
     (case send_error x of Some e \<Rightarrow> Inl (Context [] e) | None \<Rightarrow> expect_from (reply x))"

definition daemon_request :: "path \<Rightarrow> exchange \<Rightarrow> app_error + frame" where
  "daemon_request ctl x = (if \<not> could_connect x then Inl (no_daemon ctl) else after_send x)"

text \<open>What a subcommand goes on to do: run the client on a session, or print lines and succeed.\<close>

datatype outcome =
    RunClient string bool "(string \<times> string) list" bool  \<comment> \<open>session, redraw, variables, no_escape\<close>
  | Report "string list"
  | StillWaiting

definition unexpected :: "app_error" where
  "unexpected = Message ''unexpected response from daemon''"

definition collect_env_vars :: "(string \<Rightarrow> string option) \<Rightarrow> (string \<times> string) list" where
  "collect_env_vars env =
     List.map_filter (\<lambda>k. map_option (\<lambda>v. (k, v)) (env k)) [''TERM'', ''LANG'', ''COLORTERM'']"

definition new_session_request :: "string option \<Rightarrow> frame" where
  "new_session_request name = NewSession (case name of Some n \<Rightarrow> n | None \<Rightarrow> [])"

definition new_session :: "bool \<Rightarrow> path \<Rightarrow> exchange \<Rightarrow> (string \<Rightarrow> string option) \<Rightarrow> app_error + outcome" where
  "new_session no_escape ctl x env =
     try_then (daemon_request ctl x) (\<lambda>f.
       case f of
         SessionCreated sid \<Rightarrow> Inr (RunClient sid False (collect_env_vars env) no_escape)
       | Error message \<Rightarrow> Inl (Message message)
       | _ \<Rightarrow> Inl unexpected)"

text \<open>\<open>attach\<close> polls until it can connect; the exchanges are its attempts.\<close>

fun attach :: "string \<Rightarrow> bool \<Rightarrow> bool \<Rightarrow> exchange list \<Rightarrow> app_error + outcome" where
  "attach target redraw no_escape [] = Inr StillWaiting"
| "attach target redraw no_escape (x # xs) =
     (if \<not> could_connect x then attach target redraw no_escape xs
      else
        try_then (after_send x) (\<lambda>f.
          case f of
            Ok \<Rightarrow> Inr (RunClient target redraw [] no_escape)
          | Error message \<Rightarrow> Inl (Message message)
          | _ \<Rightarrow> Inl unexpected))"

definition kill_session :: "string \<Rightarrow> path \<Rightarrow> exchange \<Rightarrow> app_error + outcome" where
  "kill_session target ctl x =
     try_then (daemon_request ctl x) (\<lambda>f.
       case f of
         Ok \<Rightarrow> Inr (Report [''session killed: '' @ target])
       | Error message \<Rightarrow> Inl (Message message)
       | _ \<Rightarrow> Inl unexpected)"

definition kill_server :: "path \<Rightarrow> exchange \<Rightarrow> app_error + outcome" where
  "kill_server ctl x =
     try_then (daemon_request ctl x) (\<lambda>f.
       case f of
         Ok \<Rightarrow> Inr (Report [''server killed''])
       | Error message \<Rightarrow> Inl (Message message)
       | _ \<Rightarrow> Inl unexpected)"

section \<open>The list of sessions\<close>

text \<open>\<open>{:04}\<close> and the like: at least \<open>w\<close> characters, zeros after the sign.\<close>

definition zero_pad :: "nat \<Rightarrow> int \<Rightarrow> string" where
  "zero_pad w i =
     (let sign = (if i < 0 then ''-'' else []); digits = show_nat (nat (abs i))
      in sign @ replicate (w - (length sign + length digits)) CHR ''0'' @ digits)"

text \<open>The broken-down local time: year and month as in \<open>struct tm\<close>.\<close>

record tm =
  tm_year :: int
  tm_mon :: int
  tm_mday :: int
  tm_hour :: int
  tm_min :: int
  tm_sec :: int

definition format_timestamp :: "(u64 \<Rightarrow> tm option) \<Rightarrow> u64 \<Rightarrow> string" where
  "format_timestamp localtime secs =
     (case localtime secs of
        None \<Rightarrow> ''-''
      | Some t \<Rightarrow> zero_pad 4 (tm_year t + 1900) @ ''-'' @ zero_pad 2 (tm_mon t + 1) @ ''-'' @ zero_pad 2 (tm_mday t)
          @ '' '' @ zero_pad 2 (tm_hour t) @ '':'' @ zero_pad 2 (tm_min t) @ '':'' @ zero_pad 2 (tm_sec t))"

definition saturating_sub :: "u64 \<Rightarrow> u64 \<Rightarrow> u64" where
  "saturating_sub a b = (if a < b then 0 else a - b)"

definition status_of :: "u64 \<Rightarrow> session_entry \<Rightarrow> string" where
  "status_of now s =
     (if entry_attached s then
        (if entry_last_heartbeat s > 0
         then ''attached (heartbeat '' @ show_u64 (saturating_sub now (entry_last_heartbeat s)) @ ''s ago)''
         else ''attached'')
      else ''detached'')"

text \<open>The five padded columns and the status.\<close>

definition row_of :: "(u64 \<Rightarrow> tm option) \<Rightarrow> u64 \<Rightarrow> session_entry \<Rightarrow> string list \<times> string" where
  "row_of localtime now s =
     (let name = (if entry_name s = [] then ''-'' else entry_name s)
      in if entry_shell_pid s = 0
         then ([entry_id s, name, ''-'', ''-'', ''-''], ''starting'')
         else ([entry_id s, name, entry_pty_path s, show_u32 (entry_shell_pid s),
                format_timestamp localtime (entry_created_at s)], status_of now s))"

text \<open>\<open>str::len\<close> is bytes; \<open>{:<w}\<close> pads to \<open>w\<close> characters.\<close>

definition char_count :: "string \<Rightarrow> nat" where
  "char_count s = length (filter (\<lambda>c. \<not> utf8_cont (of_char c)) s)"

definition pad_right :: "nat \<Rightarrow> string \<Rightarrow> string" where
  "pad_right w s = s @ replicate (w - char_count s) CHR '' ''"

definition column_width :: "nat \<Rightarrow> nat \<Rightarrow> string list list \<Rightarrow> nat" where
  "column_width i least rows = fold max (map (\<lambda>r. length (r ! i)) rows) least"

definition headings :: "string list" where
  "headings = [''ID'', ''Name'', ''PTY'', ''PID'', ''Created'']"

definition table_line :: "nat list \<Rightarrow> string list \<times> string \<Rightarrow> string" where
  "table_line ws = (\<lambda>(cells, status). concat (map2 (\<lambda>w c. pad_right w c @ ''  '') ws cells) @ status)"

definition list_lines :: "(u64 \<Rightarrow> tm option) \<Rightarrow> u64 \<Rightarrow> session_entry list \<Rightarrow> string list" where
  "list_lines localtime now ss =
     (if ss = [] then [''no active sessions'']
      else
        (let rows = map (row_of localtime now) ss;
             ws = map (\<lambda>i. column_width i (length (headings ! i)) (map fst rows)) [0..<5]
         in table_line ws (headings, ''Status'') # map (table_line ws) rows))"

definition list_sessions :: "(u64 \<Rightarrow> tm option) \<Rightarrow> u64 \<Rightarrow> path \<Rightarrow> exchange \<Rightarrow> app_error + outcome" where
  "list_sessions localtime now ctl x =
     try_then (daemon_request ctl x) (\<lambda>f.
       case f of SessionInfo ss \<Rightarrow> Inr (Report (list_lines localtime now ss)) | _ \<Rightarrow> Inl unexpected)"

section \<open>Exit codes\<close>

text \<open>The parent of a daemon reads one byte from the pipe.\<close>

definition daemonize_parent :: "io_error + bytes \<Rightarrow> i32" where
  "daemonize_parent r = (case r of Inr b \<Rightarrow> if length b = 1 then 0 else 1 | Inl e \<Rightarrow> 1)"

section \<open>Lemmas\<close>

lemma char_count_append [simp]: "char_count (s @ t) = char_count s + char_count t"
  by (simp add: char_count_def)

lemma char_count_le: "char_count s \<le> length s"
  by (simp add: char_count_def)

lemma char_count_space [simp]: "char_count (replicate n CHR '' '') = n" "char_count (CHR '' '' # s) = Suc (char_count s)"
  by (simp_all add: char_count_def utf8_cont_def)

lemma char_count_pad: "char_count s \<le> w \<Longrightarrow> char_count (pad_right w s) = w"
  by (simp add: pad_right_def)

lemma fold_max_ge: "(x :: nat) \<le> fold max xs x" "y \<in> set xs \<Longrightarrow> y \<le> fold max xs x"
  by (induction xs arbitrary: x) (auto intro: order_trans [OF max.cobounded1] order_trans [OF max.cobounded2])

lemma char_count_cells:
  "length ws = length cells \<Longrightarrow> (\<And>i. i < length cells \<Longrightarrow> char_count (cells ! i) \<le> ws ! i) \<Longrightarrow>
   char_count (concat (map2 (\<lambda>w c. pad_right w c @ ''  '') ws cells)) = sum_list (map (\<lambda>w. w + 2) ws)"
proof (induction ws cells rule: list_induct2)
  case (Cons w ws c cells)
  have "char_count (cells ! i) \<le> ws ! i" if "i < length cells" for i
    using Cons.prems [of "Suc i"] that by simp
  with Cons.IH Cons.prems [of 0] show ?case by (simp add: char_count_pad)
qed (simp add: char_count_def)

text \<open>
  The columns of the printed table are aligned, also for names that are not ASCII: in every line,
  header included, the status column starts after the same number of characters.
\<close>

theorem list_columns_align:
  assumes "ss \<noteq> []"
  shows "\<exists>w. \<forall>line \<in> set (list_lines localtime now ss). \<exists>left status. line = left @ status \<and> char_count left = w"
proof -
  let ?rows = "map (row_of localtime now) ss"
  let ?ws = "map (\<lambda>i. column_width i (length (headings ! i)) (map fst ?rows)) [0..<5]"
  have len: "length (fst (row_of localtime now s)) = 5" for s
    by (simp add: row_of_def Let_def)
  have cc: "char_count (concat (map2 (\<lambda>w c. pad_right w c @ ''  '') ?ws (fst r))) = sum_list (map (\<lambda>w. w + 2) ?ws)"
    if "r = (headings, ''Status'') \<or> r \<in> set ?rows" for r
  proof (rule char_count_cells)
    show "length ?ws = length (fst r)" using that len by (auto simp: headings_def)
    fix i assume "i < length (fst r)"
    then have i: "i < 5" using that len by (auto simp: headings_def)
    have "length (fst r ! i) \<le> column_width i (length (headings ! i)) (map fst ?rows)"
      using that unfolding column_width_def
    proof (elim disjE)
      assume "r = (headings, ''Status'')"
      then show "length (fst r ! i) \<le> fold max (map (\<lambda>c. length (c ! i)) (map fst ?rows)) (length (headings ! i))"
        by (simp add: fold_max_ge(1))
    next
      assume "r \<in> set ?rows"
      then have "length (fst r ! i) \<in> set (map (\<lambda>c. length (c ! i)) (map fst ?rows))" by auto
      then show "length (fst r ! i) \<le> fold max (map (\<lambda>c. length (c ! i)) (map fst ?rows)) (length (headings ! i))"
        by (rule fold_max_ge(2))
    qed
    with i show "char_count (fst r ! i) \<le> ?ws ! i"
      using char_count_le [of "fst r ! i"] by (simp del: map_map)
  qed
  have lines: "list_lines localtime now ss = table_line ?ws (headings, ''Status'') # map (table_line ?ws) ?rows"
    using assms by (simp only: list_lines_def Let_def if_False)
  show ?thesis
  proof (intro exI [of _ "sum_list (map (\<lambda>w. w + 2) ?ws)"] ballI)
    fix line assume "line \<in> set (list_lines localtime now ss)"
    then obtain r where r: "r = (headings, ''Status'') \<or> r \<in> set ?rows" "line = table_line ?ws r"
      unfolding lines by (metis (no_types, lifting) imageE list.set_map set_ConsD)
    let ?left = "concat (map2 (\<lambda>w c. pad_right w c @ ''  '') ?ws (fst r))"
    have "line = ?left @ snd r" by (simp only: r(2) table_line_def case_prod_beta)
    with cc [OF r(1)] show "\<exists>left status. line = left @ status \<and> char_count left = sum_list (map (\<lambda>w. w + 2) ?ws)"
      by blast
  qed
qed

lemma attach_gives_up_only_on_answers:
  "\<forall>x \<in> set xs. \<not> could_connect x \<Longrightarrow> attach t r n (xs @ ys) = attach t r n ys"
  by (induction xs) auto

text \<open>
  Starting in the background: the parent exits with 0 exactly if the daemon got as far as its socket.
\<close>

lemma parent_learns_readiness:
  "daemonize_parent (if snd (start_daemon w p True sg) then Inr [1] else Inr []) = 0
     \<longleftrightarrow> (\<exists>w1. (case path_parent p of None \<Rightarrow> (Inr (), w\<lparr>umask := 63\<rparr>)
                  | Some q \<Rightarrow> secure_create_dir_all (w\<lparr>umask := 63\<rparr>) q) = (Inr (), w1)
            \<and> fst (bind_unix_listener w1 p) = Inr ())"
  by (auto simp: daemonize_parent_def start_daemon_def Let_def split: prod.splits sum.splits option.splits)

end
