(* ===== verification/Launch.thy ===== *)
theory Launch
  imports Cli Daemon_Props
begin
text \<open>
  \<open>daemonize\<close> of \<open>src/main.rs\<close>: a daemon that goes to the background.  The parent waits on a pipe
  for the byte that \<open>daemon::run\<close> writes once its socket is bound; the child leaves the terminal and
  points its standard descriptors at \<open>/dev/null\<close>.  A descriptor table is a list indexed by the
  descriptor, and the two processes with the pipe between them are a step relation, so that every
  interleaving of parent and child is covered, the child's death at any moment included.
\<close>

section \<open>Descriptors\<close>

datatype open_file = PipeRead | PipeWrite | DevNull | Inherited nat

type_synonym fd_table = "open_file option list"

definition file_at :: "fd_table \<Rightarrow> nat \<Rightarrow> open_file option" where
  "file_at t n = (if n < length t then t ! n else None)"

text \<open>A new descriptor is the lowest one that is free.\<close>

definition lowest_free :: "fd_table \<Rightarrow> nat" where
  "lowest_free t = length (takeWhile (\<lambda>x. x \<noteq> None) t)"

definition set_fd :: "nat \<Rightarrow> open_file \<Rightarrow> fd_table \<Rightarrow> fd_table" where
  "set_fd n f t = (t @ replicate (Suc n - length t) None)[n := Some f]"

definition open_fd :: "open_file \<Rightarrow> fd_table \<Rightarrow> nat \<times> fd_table" where
  "open_fd f t = (lowest_free t, set_fd (lowest_free t) f t)"

definition close_fd :: "nat \<Rightarrow> fd_table \<Rightarrow> fd_table" where
  "close_fd n t = t[n := None]"

definition EBADF :: nat where [simp]: "EBADF = 9"

definition dup2_fd :: "nat \<Rightarrow> nat \<Rightarrow> fd_table \<Rightarrow> io_error + fd_table" where
  "dup2_fd old new t =
     (case file_at t old of
        None \<Rightarrow> Inl (OsError EBADF)
      | Some f \<Rightarrow> Inr (if old = new then t else set_fd new f t))"

definition open_pipe :: "fd_table \<Rightarrow> nat \<times> nat \<times> fd_table" where
  "open_pipe t =
     (case open_fd PipeRead t of (r, t1) \<Rightarrow>
        (case open_fd PipeWrite t1 of (wr, t2) \<Rightarrow> (r, wr, t2)))"

section \<open>\<open>daemonize\<close>\<close>

text \<open>The errors of the calls, and the pid the parent gets from \<open>fork\<close>.\<close>

record daemonize_calls =
  pipe_error :: "io_error option"
  fork_result :: "io_error + nat"
  setsid_error :: "io_error option"
  devnull_error :: "io_error option"
  dup2_error :: "nat \<Rightarrow> io_error option"
  close_error :: "io_error option"

text \<open>\<open>dup2(devnull, 0)?; dup2(devnull, 1)?; dup2(devnull, 2)?\<close>\<close>

fun redirect :: "daemonize_calls \<Rightarrow> nat \<Rightarrow> nat list \<Rightarrow> fd_table \<Rightarrow> (io_error + unit) \<times> fd_table" where
  "redirect c devnull [] t = (Inr (), t)"
| "redirect c devnull (n # ns) t =
     (case dup2_error c n of
        Some e \<Rightarrow> (Inl e, t)
      | None \<Rightarrow>
          (case dup2_fd devnull n t of
             Inl e \<Rightarrow> (Inl e, t)
           | Inr t' \<Rightarrow> redirect c devnull ns t'))"

text \<open>
  The child: the write end it returns, or the error, on which \<open>write_fd\<close> is dropped.  A failing
  \<open>close\<close> still frees its descriptor.
\<close>

definition daemonize_child :: "daemonize_calls \<Rightarrow> nat \<Rightarrow> nat \<Rightarrow> fd_table \<Rightarrow> (io_error + nat) \<times> fd_table" where
  "daemonize_child c read_fd write_fd t =
     (let t1 = close_fd read_fd t;
          fail = (\<lambda>e t. (Inl e, close_fd write_fd t))
      in case setsid_error c of
           Some e \<Rightarrow> fail e t1
         | None \<Rightarrow>
             (case devnull_error c of
                Some e \<Rightarrow> fail e t1
              | None \<Rightarrow>
                  (case open_fd DevNull t1 of (devnull, t2) \<Rightarrow>
                     (case redirect c devnull [0, 1, 2] t2 of
                        (Inl e, t3) \<Rightarrow> fail e t3
                      | (Inr _, t3) \<Rightarrow>
                          if devnull > 2 then
                            (case close_error c of
                               Some e \<Rightarrow> fail e (close_fd devnull t3)
                             | None \<Rightarrow> (Inr write_fd, close_fd devnull t3))
                          else (Inr write_fd, t3)))))"

section \<open>Parent and child\<close>

datatype child_state =
    Redirecting
  | Starting nat               \<comment> \<open>\<open>daemon::run\<close> with this \<open>ready_fd\<close>, before readiness\<close>
  | Serving
  | Gone i32

record launch =
  child :: child_state
  child_fds :: fd_table
  parent_exit :: "i32 option"  \<comment> \<open>\<open>None\<close> while it reads\<close>
  parent_fds :: fd_table
  pipe_bytes :: bytes

text \<open>\<open>pipe\<close> and \<open>fork\<close>, up to the parent's read; \<open>Inl\<close> is the exit code after an error.\<close>

definition daemonize :: "daemonize_calls \<Rightarrow> fd_table \<Rightarrow> i32 + launch" where
  "daemonize c t =
     (case pipe_error c of
        Some e \<Rightarrow> Inl 1
      | None \<Rightarrow>
          (case fork_result c of
             Inl e \<Rightarrow> Inl 1
           | Inr pid \<Rightarrow>
               (case open_pipe t of (read_fd, write_fd, t') \<Rightarrow>
                  Inr \<lparr>child = Redirecting, child_fds = t', parent_exit = None,
                       parent_fds = close_fd write_fd t', pipe_bytes = []\<rparr>)))"

text \<open>
  A one-byte read of the pipe: a byte, the end of file when no process holds the write end, or
  nothing yet.
\<close>

definition pipe_read :: "launch \<Rightarrow> (io_error + bytes) option" where
  "pipe_read s =
     (if pipe_bytes s \<noteq> [] then Some (Inr (take 1 (pipe_bytes s)))
      else if Some PipeWrite \<in> set (child_fds s) \<union> set (parent_fds s) then None
      else Some (Inr []))"

definition child_gone :: "i32 \<Rightarrow> launch \<Rightarrow> launch" where
  "child_gone k s = s\<lparr>child := Gone k, child_fds := []\<rparr>"

text \<open>\<open>f.write_all(&[1])\<close> on the descriptor, then its drop.\<close>

definition signal_ready :: "nat \<Rightarrow> launch \<Rightarrow> launch" where
  "signal_ready fd s =
     s\<lparr>child := Serving, child_fds := close_fd fd (child_fds s),
       pipe_bytes := pipe_bytes s @ (if file_at (child_fds s) fd = Some PipeWrite then [1] else [])\<rparr>"

inductive launch_step :: "daemonize_calls \<Rightarrow> nat \<Rightarrow> nat \<Rightarrow> bool \<Rightarrow> launch \<Rightarrow> launch \<Rightarrow> bool"
  for c read_fd write_fd starts where
  redirected:
    "child s = Redirecting \<Longrightarrow> daemonize_child c read_fd write_fd (child_fds s) = (Inr fd, t) \<Longrightarrow>
     launch_step c read_fd write_fd starts s (s\<lparr>child := Starting fd, child_fds := t\<rparr>)"
| redirect_failed:
    "child s = Redirecting \<Longrightarrow> daemonize_child c read_fd write_fd (child_fds s) = (Inl e, t) \<Longrightarrow>
     launch_step c read_fd write_fd starts s (child_gone 1 s)"
| listening:
    "child s = Starting fd \<Longrightarrow> starts \<Longrightarrow> launch_step c read_fd write_fd starts s (signal_ready fd s)"
| not_listening:
    "child s = Starting fd \<Longrightarrow> \<not> starts \<Longrightarrow> launch_step c read_fd write_fd starts s (child_gone 1 s)"
| child_ends:
    "\<forall>j. child s \<noteq> Gone j \<Longrightarrow> launch_step c read_fd write_fd starts s (child_gone k s)"
| parent_reads:
    "parent_exit s = None \<Longrightarrow> pipe_read s = Some r \<Longrightarrow>
     launch_step c read_fd write_fd starts s
       (s\<lparr>parent_exit := Some (daemonize_parent r), pipe_bytes := drop 1 (pipe_bytes s)\<rparr>)"

text \<open>Where a launch can get from \<open>daemonize\<close>; \<open>starts\<close> says whether \<open>daemon::run\<close> gets to its socket.\<close>

inductive launched :: "daemonize_calls \<Rightarrow> fd_table \<Rightarrow> bool \<Rightarrow> launch \<Rightarrow> bool" for c t starts where
  forked: "daemonize c t = Inr s \<Longrightarrow> launched c t starts s"
| went_on:
    "launched c t starts s \<Longrightarrow> open_pipe t = (read_fd, write_fd, t') \<Longrightarrow>
     launch_step c read_fd write_fd starts s s' \<Longrightarrow> launched c t starts s'"
section \<open>Lemmas on descriptors\<close>

lemma file_at_set_fd [simp]: "file_at (set_fd n f t) m = (if m = n then Some f else file_at t m)"
  by (auto simp: file_at_def set_fd_def nth_append nth_list_update)

lemma file_at_close_fd [simp]: "file_at (close_fd n t) m = (if m = n then None else file_at t m)"
  by (auto simp: file_at_def close_fd_def)

lemma file_at_lowest_free [simp]: "file_at t (lowest_free t) = None"
  using nth_length_takeWhile [of "\<lambda>x. x \<noteq> None" t] by (auto simp: file_at_def lowest_free_def)

lemma in_table: "Some f \<in> set t \<longleftrightarrow> (\<exists>n. file_at t n = Some f)"
proof -
  have "\<exists>n. file_at t n = Some f" if "n < length t" "t ! n = Some f" for n
    using that by (intro exI [of _ n]) (simp add: file_at_def)
  then show ?thesis
    by (fastforce simp: in_set_conv_nth file_at_def split: if_splits)
qed

definition std_open :: "fd_table \<Rightarrow> bool" where
  "std_open t \<longleftrightarrow> (\<forall>n \<in> {0, 1, 2}. \<exists>k. file_at t n = Some (Inherited k))"

lemma std_open_used:
  assumes "std_open t" and "file_at t n = None"
  shows "n \<notin> {0, 1, 2}"
proof
  assume "n \<in> {0, 1, 2}"
  with assms show False unfolding std_open_def by (metis option.distinct(1))
qed

text \<open>A process starts without pipes of this program.\<close>

definition no_pipe :: "fd_table \<Rightarrow> bool" where
  "no_pipe t \<longleftrightarrow> (\<forall>n. file_at t n \<noteq> Some PipeWrite)"

lemma open_pipe_files:
  assumes "open_pipe t = (r, wr, t')"
  shows "r \<noteq> wr" "file_at t r = None" "file_at t wr = None"
    "file_at t' m = (if m = wr then Some PipeWrite else if m = r then Some PipeRead else file_at t m)"
  using assms file_at_lowest_free [of t] file_at_lowest_free [of "set_fd (lowest_free t) PipeRead t"]
  by (auto simp: open_pipe_def open_fd_def simp del: file_at_lowest_free split: if_splits)

lemma redirect_files:
  "redirect c d ns t = (Inr (), t') \<Longrightarrow> file_at t d = Some f \<Longrightarrow>
   file_at t' m = (if m \<in> set ns then Some f else file_at t m)"
proof (induction ns arbitrary: t)
  case (Cons n ns)
  then obtain t1 where "dup2_fd d n t = Inr t1" "redirect c d ns t1 = (Inr (), t')"
    by (auto split: option.splits sum.splits)
  with Cons show ?case
    by (auto simp: dup2_fd_def split: if_splits)
qed simp

text \<open>
  The descriptors of the child once \<open>daemonize\<close> has returned: the standard three are \<open>/dev/null\<close>,
  \<open>write_fd\<close> is still the pipe, its read end is closed, and nothing else has changed.
\<close>

lemma daemonize_child_files:
  assumes "std_open t" and "open_pipe t = (r, wr, t1)" and "daemonize_child c r wr t1 = (Inr fd, t2)"
  shows "fd = wr" "file_at t2 m = (if m \<in> {0, 1, 2} then Some DevNull else if m = wr then Some PipeWrite else file_at t m)"
proof -
  let ?t = "close_fd r t1" and ?d = "lowest_free (close_fd r t1)"
  obtain t3 where red: "redirect c ?d [0, 1, 2] (set_fd ?d DevNull ?t) = (Inr (), t3)"
      and t2: "fd = wr" "t2 = (if ?d > 2 then close_fd ?d t3 else t3)"
    using assms(3)
    by (auto simp: daemonize_child_def open_fd_def Let_def split: option.splits prod.splits sum.splits if_splits)
  show "fd = wr" by (rule t2(1))
  have r: "r \<notin> {0, 1, 2}" "wr \<notin> {0, 1, 2}"
    using std_open_used [OF assms(1)] open_pipe_files(2,3) [OF assms(2)] by blast+
  have base: "file_at ?t n = (if n = wr then Some PipeWrite else file_at t n)" for n
    using open_pipe_files [OF assms(2)] by simp
  have d: "?d \<noteq> wr" "file_at t ?d = None"
    using base [of ?d] file_at_lowest_free [of ?t] by (auto split: if_splits)
  with std_open_used [OF assms(1)] have "?d \<notin> {0, 1, 2}" by blast
  then have big: "?d > 2" by auto
  have files: "file_at t3 m = (if m \<in> {0, 1, 2} then Some DevNull else file_at (set_fd ?d DevNull ?t) m)"
    using redirect_files [OF red, of DevNull m] by simp
  have "file_at t2 m = (if m = ?d then None else file_at t3 m)"
    using t2(2) big by simp
  with files base [of m] big d r
  show "file_at t2 m = (if m \<in> {0, 1, 2} then Some DevNull else if m = wr then Some PipeWrite else file_at t m)"
    by (auto split: if_splits)
qed

section \<open>Every interleaving\<close>

inductive_cases launch_stepE: "launch_step c r wr starts s s'"

definition launch_inv :: "fd_table \<Rightarrow> bool \<Rightarrow> launch \<Rightarrow> bool" where
  "launch_inv t starts s \<longleftrightarrow>
     no_pipe (parent_fds s) \<and>
     (case open_pipe t of (r, wr, t') \<Rightarrow>
        (case child s of
           Redirecting \<Rightarrow> child_fds s = t' \<and> pipe_bytes s = [] \<and> parent_exit s = None
         | Starting fd \<Rightarrow> fd = wr \<and> (\<forall>n. file_at (child_fds s) n = Some PipeWrite \<longleftrightarrow> n = wr)
             \<and> pipe_bytes s = [] \<and> parent_exit s = None
         | Serving \<Rightarrow> starts \<and> no_pipe (child_fds s)
             \<and> (parent_exit s, pipe_bytes s) \<in> {(None, [1]), (Some 0, [])}
         | Gone k \<Rightarrow> child_fds s = []
             \<and> (parent_exit s, pipe_bytes s) \<in> {(None, []), (Some 1, [])} \<union> (if starts then {(None, [1]), (Some 0, [])} else {})))"

lemma pipe_read_iff:
  "pipe_read s = (if pipe_bytes s \<noteq> [] then Some (Inr (take 1 (pipe_bytes s)))
     else if no_pipe (child_fds s) \<and> no_pipe (parent_fds s) then Some (Inr []) else None)"
  by (auto simp: pipe_read_def no_pipe_def in_table)

lemma no_pipe_Nil [simp]: "no_pipe []"
  by (simp add: no_pipe_def file_at_def)

lemma daemonize_parent_simps [simp]: "daemonize_parent (Inr [b]) = 0" "daemonize_parent (Inr []) = 1"
  by (simp_all add: daemonize_parent_def)

lemma launch_inv_start: "no_pipe t \<Longrightarrow> daemonize c t = Inr s \<Longrightarrow> launch_inv t starts s"
  using open_pipe_files(4) [of t]
  by (auto simp: daemonize_def launch_inv_def no_pipe_def split: option.splits sum.splits prod.splits if_splits)

lemma launch_inv_step:
  assumes "std_open t" and "no_pipe t" and "open_pipe t = (r, wr, t')"
    and "launch_inv t starts s" and "launch_step c r wr starts s s'"
  shows "launch_inv t starts s'"
  using assms(5)
proof (cases rule: launch_step.cases)
  case (redirected fd t2)
  with assms have "daemonize_child c r wr t' = (Inr fd, t2)" by (simp add: launch_inv_def)
  note files = daemonize_child_files [OF assms(1,3) this]
  have "wr \<notin> {0, 1, 2}" using std_open_used [OF assms(1)] open_pipe_files(3) [OF assms(3)] by blast
  with redirected assms(2-4) files show ?thesis by (auto simp: launch_inv_def no_pipe_def)
next
  case (listening fd)
  with assms(3,4) show ?thesis by (auto simp: launch_inv_def signal_ready_def no_pipe_def)
next
  case (child_ends k)
  with assms(3,4) show ?thesis
    by (cases "child s") (auto simp: launch_inv_def child_gone_def)
next
  case (parent_reads x)
  with assms(3,4) open_pipe_files(4) [OF assms(3)] show ?thesis
    by (cases "child s") (auto simp: launch_inv_def pipe_read_iff no_pipe_def split: if_splits)
qed (use assms(3,4) in \<open>auto simp: launch_inv_def child_gone_def\<close>)

lemma launched_inv: "launched c t starts s \<Longrightarrow> std_open t \<Longrightarrow> no_pipe t \<Longrightarrow> launch_inv t starts s"
  by (induction rule: launched.induct) (auto intro: launch_inv_start launch_inv_step)


text \<open>Every step of either process brings the launch nearer to its end.\<close>

definition launch_rank :: "launch \<Rightarrow> nat" where
  "launch_rank s =
     (case child s of Redirecting \<Rightarrow> 3 | Starting fd \<Rightarrow> 2 | Serving \<Rightarrow> 1 | Gone k \<Rightarrow> 0)
     + (if parent_exit s = None then 1 else 0)"

lemma launch_step_rank: "launch_step c r wr starts s s' \<Longrightarrow> launch_rank s' < launch_rank s"
  by (erule launch_stepE)
    (auto simp: launch_rank_def child_gone_def signal_ready_def split: child_state.split)

lemma launch_run_rank: "successively (launch_step c r wr starts) (s # ss) \<Longrightarrow> length ss \<le> launch_rank s"
proof (induction ss arbitrary: s)
  case (Cons x ss)
  then show ?case using launch_step_rank [of c r wr starts s x] by fastforce
qed simp

lemma launched_run:
  "launched c t starts s \<Longrightarrow> open_pipe t = (r, wr, t') \<Longrightarrow> successively (launch_step c r wr starts) (s # ss) \<Longrightarrow>
   launched c t starts (last (s # ss))"
proof (induction ss arbitrary: s)
  case (Cons x ss)
  then have "launched c t starts x" by (auto intro: went_on)
  with Cons show ?case by simp
qed simp

lemma waiting_parent_not_stuck:
  assumes "launch_inv t starts s" and "parent_exit s = None"
  shows "\<exists>s'. launch_step c r wr starts s s'"
proof (cases "child s")
  case Redirecting
  obtain x y where "daemonize_child c r wr (child_fds s) = (x, y)" by fastforce
  with Redirecting show ?thesis by (cases x) (blast intro: redirected redirect_failed)+
next
  case (Starting fd)
  then show ?thesis by (cases starts) (blast intro: listening not_listening)+
next
  case Serving
  with assms have "pipe_read s \<noteq> None"
    by (auto simp: launch_inv_def pipe_read_iff split: prod.splits)
  with assms(2) show ?thesis by (blast intro: parent_reads)
next
  case (Gone k)
  with assms have "pipe_read s \<noteq> None"
    by (auto simp: launch_inv_def pipe_read_iff split: prod.splits)
  with assms(2) show ?thesis by (blast intro: parent_reads)
qed

text \<open>A launch in which all goes well.\<close>

definition good_calls :: daemonize_calls where
  "good_calls = \<lparr>pipe_error = None, fork_result = Inr 7, setsid_error = None, devnull_error = None,
     dup2_error = (\<lambda>n. None), close_error = None\<rparr>"

definition std_fds :: fd_table where
  "std_fds = map (Some \<circ> Inherited) [0, 1, 2]"

definition good_launch :: launch where
  "good_launch = \<lparr>child = Redirecting, child_fds = std_fds @ [Some PipeRead, Some PipeWrite], parent_exit = None,
     parent_fds = std_fds @ [Some PipeRead, None], pipe_bytes = []\<rparr>"

definition good_ends :: "launch list" where
  "good_ends =
    [good_launch\<lparr>child := Starting 4, child_fds := [Some DevNull, Some DevNull, Some DevNull, None, Some PipeWrite]\<rparr>,
     good_launch\<lparr>child := Serving, child_fds := [Some DevNull, Some DevNull, Some DevNull, None, None], pipe_bytes := [1]\<rparr>,
     good_launch\<lparr>child := Serving, child_fds := [Some DevNull, Some DevNull, Some DevNull, None, None], parent_exit := Some 0\<rparr>]"

lemma std_fds_ok: "std_open std_fds" "no_pipe std_fds"
  by (auto simp: std_open_def no_pipe_def std_fds_def file_at_def nth_Cons split: nat.split)

lemma std_pipe: "open_pipe std_fds = (3, 4, std_fds @ [Some PipeRead, Some PipeWrite])"
  by (simp add: open_pipe_def open_fd_def lowest_free_def set_fd_def std_fds_def)

lemma good_forked: "daemonize good_calls std_fds = Inr good_launch"
  by (simp add: daemonize_def good_calls_def std_pipe good_launch_def close_fd_def) (simp add: std_fds_def)

lemma good_child: "daemonize_child good_calls 3 4 (child_fds good_launch) =
    (Inr 4, [Some DevNull, Some DevNull, Some DevNull, None, Some PipeWrite])"
  by (simp add: daemonize_child_def good_calls_def good_launch_def std_fds_def close_fd_def open_fd_def
      lowest_free_def set_fd_def dup2_fd_def file_at_def)

lemma good_run: "successively (launch_step good_calls 3 4 True) (good_launch # good_ends)"
proof -
  have s1: "launch_step good_calls 3 4 True good_launch (good_ends ! 0)"
    using redirected [OF _ good_child, of True] by (simp add: good_launch_def good_ends_def)
  have s2: "launch_step good_calls 3 4 True (good_ends ! 0) (good_ends ! 1)"
    using listening [of "good_ends ! 0" 4 True good_calls 3 4]
    by (simp add: good_ends_def signal_ready_def good_launch_def close_fd_def file_at_def)
  have r: "pipe_read (good_ends ! 1) = Some (Inr [1])"
    by (simp add: good_ends_def good_launch_def pipe_read_def)
  have s3: "launch_step good_calls 3 4 True (good_ends ! 1) (good_ends ! 2)"
    using parent_reads [OF _ r, of good_calls 3 4 True]
    by (simp add: good_ends_def good_launch_def)
  show ?thesis using s1 s2 s3 by (simp add: good_ends_def)
qed

section \<open>Properties\<close>



text \<open>
  C28. The launch ends: from any state it reaches, every run of parent and child is over after at
  most four steps, and a run that cannot go on has left the parent with an exit code.
\<close>

theorem daemon_launch_ends:
  assumes "launched c t starts s" and "std_open t" and "no_pipe t" and "open_pipe t = (r, wr, t')"
    and "successively (launch_step c r wr starts) (s # ss)"
  shows "length ss \<le> 4
    \<and> (\<not> (\<exists>s'. launch_step c r wr starts (last (s # ss)) s') \<longrightarrow> parent_exit (last (s # ss)) \<noteq> None)"
proof -
  have "launch_rank s \<le> 4" by (cases "child s") (simp_all add: launch_rank_def)
  with launch_run_rank [OF assms(5)] have "length ss \<le> 4" by simp
  moreover have "launch_inv t starts (last (s # ss))"
    using launched_run [OF assms(1,4,5)] assms(2,3) by (rule launched_inv)
  ultimately show ?thesis using waiting_parent_not_stuck by blast
qed

theorem daemon_launch_ends_witness:
  "parent_exit (last (good_launch # good_ends)) = Some 0 \<and> length good_ends \<le> 4"
  using daemon_launch_ends [OF forked [OF good_forked] std_fds_ok std_pipe good_run]
  by (simp add: good_ends_def)

end
