(* ===== verification/Terminal.thy ===== *)
theory Terminal
  imports Server
begin

text \<open>
  The terminal settings around the client's \<open>run\<close> in \<open>src/client.rs\<close>: \<open>RawModeGuard\<close> and
  \<open>NonBlockGuard\<close>, which change the settings of stdin and put them back when they are dropped, in
  reverse order, on every way out of \<open>run\<close>.  The line settings are a type of their own, and
  \<open>cfmakeraw\<close> and the bits that \<open>OFlag::from_bits_truncate\<close> keeps are arguments.
\<close>

section \<open>The guards\<close>

record 't terminal =
  attrs :: 't          \<comment> \<open>\<open>termios\<close>\<close>
  flags :: u32         \<comment> \<open>file status flags\<close>

text \<open>The errors of the calls on the way in, and whether the two restoring calls succeed.\<close>

record setup_calls =
  tcgetattr_error :: "io_error option"
  tcsetattr_error :: "io_error option"
  getfl_error :: "io_error option"
  setfl_error :: "io_error option"
  asyncfd_error :: "io_error option"
  sigwinch_error :: "io_error option"
  attrs_restored :: bool
  flags_restored :: bool

definition raw_mode_enter :: "('t \<Rightarrow> 't) \<Rightarrow> setup_calls \<Rightarrow> 't terminal \<Rightarrow> (io_error + 't) \<times> 't terminal" where
  "raw_mode_enter makeraw c t =
     (case tcgetattr_error c of
        Some e \<Rightarrow> (Inl e, t)
      | None \<Rightarrow>
          (case tcsetattr_error c of
             Some e \<Rightarrow> (Inl e, t)
           | None \<Rightarrow> (Inr (attrs t), t\<lparr>attrs := makeraw (attrs t)\<rparr>)))"

definition raw_mode_drop :: "setup_calls \<Rightarrow> 't \<Rightarrow> 't terminal \<Rightarrow> 't terminal" where
  "raw_mode_drop c original t = (if attrs_restored c then t\<lparr>attrs := original\<rparr> else t)"

definition non_block_set :: "u32 \<Rightarrow> setup_calls \<Rightarrow> 't terminal \<Rightarrow> (io_error + u32) \<times> 't terminal" where
  "non_block_set known c t =
     (case getfl_error c of
        Some e \<Rightarrow> (Inl e, t)
      | None \<Rightarrow>
          (let original = and (flags t) known
           in case setfl_error c of
                Some e \<Rightarrow> (Inl e, t)
              | None \<Rightarrow> (Inr original, t\<lparr>flags := or original O_NONBLOCK\<rparr>)))"

definition non_block_drop :: "setup_calls \<Rightarrow> u32 \<Rightarrow> 't terminal \<Rightarrow> 't terminal" where
  "non_block_drop c original t = (if flags_restored c then t\<lparr>flags := original\<rparr> else t)"

text \<open>
  \<open>run\<close> around its loop: the result, the settings while the loop runs (if it is reached), and the
  settings after the guards are dropped.
\<close>

definition around_run ::
  "('t \<Rightarrow> 't) \<Rightarrow> u32 \<Rightarrow> setup_calls \<Rightarrow> io_error + i32 \<Rightarrow> 't terminal
    \<Rightarrow> (io_error + i32) \<times> 't terminal option \<times> 't terminal" where
  "around_run makeraw known c looped t =
     (case raw_mode_enter makeraw c t of
        (Inl e, t1) \<Rightarrow> (Inl e, None, t1)
      | (Inr original, t1) \<Rightarrow>
          (case non_block_set known c t1 of
             (Inl e, t2) \<Rightarrow> (Inl e, None, raw_mode_drop c original t2)
           | (Inr fl, t2) \<Rightarrow>
               (let out = (\<lambda>t. raw_mode_drop c original (non_block_drop c fl t))
                in case asyncfd_error c of
                     Some e \<Rightarrow> (Inl e, None, out t2)
                   | None \<Rightarrow>
                       (case sigwinch_error c of
                          Some e \<Rightarrow> (Inl e, None, out t2)
                        | None \<Rightarrow> (looped, Some t2, out t2)))))"

section \<open>Lemmas\<close>

text \<open>
  Every way out of \<open>run\<close> leaves the terminal as it was found, if the restoring calls work and the
  flags were all known ones.
\<close>

theorem terminal_is_restored:
  assumes "attrs_restored c" and "flags_restored c" and "and (flags t) known = flags t"
  shows "snd (snd (around_run makeraw known c looped t)) = t"
  using assms
  by (simp add: around_run_def raw_mode_enter_def non_block_set_def raw_mode_drop_def non_block_drop_def Let_def
      split: option.split)

text \<open>
  \<open>~^Z\<close> stops the process inside the loop, so what the user's shell finds is the terminal still in
  raw mode and its descriptor still non-blocking.
\<close>

theorem suspended_terminal_is_raw:
  assumes "fst (snd (around_run makeraw known c looped t)) = Some t'"
  shows "attrs t' = makeraw (attrs t) \<and> flags t' = or (and (flags t) known) O_NONBLOCK"
  using assms
  by (auto simp: around_run_def raw_mode_enter_def non_block_set_def Let_def split: option.splits)

end
