(* ===== verification/Program.thy ===== *)
theory Program
  imports Cli Launch Terminal
begin
text \<open>
  \<open>src/main.rs\<close> as a whole: the command line as \<open>clap\<close> delivers it, the dispatch of \<open>main\<close> and \<open>run\<close>,
  and the exit code of every way through.  The subcommands are those of \<open>Cli\<close>, the client is the
  machine of \<open>Client\<close> inside the guards of \<open>Terminal\<close>, the daemon that of \<open>Daemon\<close>, and the tunnel
  \<open>run_connect\<close> of \<open>Connect\<close>.  What the operating system, the user and the peers do is a record \<open>host\<close>.
\<close>

section \<open>The command line\<close>

datatype subcommand =
    DaemonCmd bool                         \<comment> \<open>\<open>foreground\<close>\<close>
  | NewSessionCmd "string option" bool     \<comment> \<open>\<open>target\<close>, \<open>no_escape\<close>\<close>
  | AttachCmd string bool bool             \<comment> \<open>\<open>target\<close>, \<open>no_redraw\<close>, \<open>no_escape\<close>\<close>
  | ListSessionsCmd
  | KillSessionCmd string
  | KillServerCmd
  | SocketPathCmd
  | ConnectCmd string bool "string list"   \<comment> \<open>\<open>destination\<close>, \<open>no_daemon_start\<close>, \<open>ssh_options\<close>\<close>

record cli =
  ctl_socket :: "path option"
  verbose :: bool
  subcommand :: subcommand

datatype env_filter = FilterNew string | FilterFromEnv

text \<open>\<open>init_tracing\<close>: what is logged; \<open>rust_log\<close> is \<open>std::env::var("RUST_LOG").ok()\<close>.\<close>

definition init_tracing :: "bool \<Rightarrow> string option \<Rightarrow> env_filter" where
  "init_tracing verb rust_log =
     (if verb \<and> rust_log = None then FilterNew ''gritty=debug'' else FilterFromEnv)"

section \<open>The world around a run\<close>

record 't host =
  host_disk :: world
  host_env :: "string \<Rightarrow> string option"
  exchanges :: "exchange list"             \<comment> \<open>the attempts to talk to the daemon, in turn\<close>
  local_time :: "u64 \<Rightarrow> tm option"
  epoch_now :: u64
  runtime_error :: "io_error option"       \<comment> \<open>\<open>Runtime::new\<close>\<close>
  make_raw :: "'t \<Rightarrow> 't"
  known_flags :: u32
  terminal_calls :: setup_calls
  stdin_terminal :: "'t terminal"
  first_io :: client_io
  client_events :: "(client_io \<times> client_event) list"
  tunnel_calls :: connect_calls
  fork_calls :: daemonize_calls
  descriptors :: fd_table
  parent_read :: "(io_error + bytes) option"  \<comment> \<open>\<open>None\<close>: still blocked\<close>
  signal_error :: "io_error option"
  daemon_events :: "daemon_event list"

text \<open>\<open>gritty::client::run\<close>; \<open>None\<close> while it is running.\<close>

definition client_run ::
  "'t host \<Rightarrow> string \<Rightarrow> bool \<Rightarrow> (string \<times> string) list \<Rightarrow> bool \<Rightarrow> (app_error + i32) option" where
  "client_run h session redraw env no_escape =
     (case fst (around_run (make_raw h) (known_flags h) (terminal_calls h) (Inr 0) (stdin_terminal h)) of
        Inl e \<Rightarrow> Some (Inl (Context [] e))
      | Inr _ \<Rightarrow>
          (case cphase (run_client (client_start (first_io h) session redraw env no_escape) (client_events h)) of
             Finished (Inl e) \<Rightarrow> Some (Inl (Context [] e))
           | Finished (Inr code) \<Rightarrow> Some (Inr code)
           | _ \<Rightarrow> None))"

section \<open>\<open>run\<close>\<close>

text \<open>\<open>Ok(())\<close> with what was reported, \<open>std::process::exit(code)\<close>, or the panic of \<open>unreachable!()\<close>.\<close>

datatype ending = ReturnedOk "string list" | ExitedWith i32 | Panicked

definition exit_with :: "(app_error + i32) option \<Rightarrow> (app_error + ending) option" where
  "exit_with r = map_option (\<lambda>x. try_then x (\<lambda>code. Inr (ExitedWith code))) r"

text \<open>The rest of a subcommand after the daemon's answer.\<close>

definition conclude :: "'t host \<Rightarrow> app_error + outcome \<Rightarrow> (app_error + ending) option" where
  "conclude h r =
     (case r of
        Inl e \<Rightarrow> Some (Inl e)
      | Inr (RunClient session redraw env no_escape) \<Rightarrow> exit_with (client_run h session redraw env no_escape)
      | Inr (Report ls) \<Rightarrow> Some (Inr (ReturnedOk ls))
      | Inr StillWaiting \<Rightarrow> None)"

text \<open>A subcommand that connects once.\<close>

definition once :: "'t host \<Rightarrow> (exchange \<Rightarrow> app_error + outcome) \<Rightarrow> (app_error + ending) option" where
  "once h f = (case exchanges h of [] \<Rightarrow> None | x # xs \<Rightarrow> conclude h (f x))"

definition ctl_path_of :: "'t host \<Rightarrow> cli \<Rightarrow> path" where
  "ctl_path_of h cl =
     (case ctl_socket cl of Some p \<Rightarrow> p | None \<Rightarrow> control_socket_path (host_disk h))"

definition run_command :: "'t host \<Rightarrow> cli \<Rightarrow> (app_error + ending) option" where
  "run_command h cl =
     (let ctl = ctl_path_of h cl
      in case subcommand cl of
           DaemonCmd foreground \<Rightarrow> Some (Inr Panicked)
         | NewSessionCmd target no_escape \<Rightarrow> once h (\<lambda>x. new_session no_escape ctl x (host_env h))
         | AttachCmd target no_redraw no_escape \<Rightarrow>
             conclude h (attach target (\<not> no_redraw) no_escape (exchanges h))
         | ListSessionsCmd \<Rightarrow> once h (list_sessions (local_time h) (epoch_now h) ctl)
         | KillSessionCmd target \<Rightarrow> once h (kill_session target ctl)
         | KillServerCmd \<Rightarrow> once h (kill_server ctl)
         | SocketPathCmd \<Rightarrow> Some (Inr (ReturnedOk [display_path ctl]))
         | ConnectCmd dest no_start opts \<Rightarrow>
             exit_with (fst (run_connect (host_disk h)
               \<lparr>dest_arg = dest, no_daemon_start = no_start, ssh_options = opts\<rparr> (tunnel_calls h))))"

section \<open>\<open>main\<close>\<close>

text \<open>The exit code after \<open>if let Err(e) = rt.block_on(..)\<close>; a panic of the main thread is 101.\<close>

fun code_of :: "app_error + ending \<Rightarrow> i32" where
  "code_of (Inl e) = 1"
| "code_of (Inr (ReturnedOk ls)) = 0"
| "code_of (Inr (ExitedWith code)) = code"
| "code_of (Inr Panicked) = 101"

text \<open>The daemon itself, in the foreground or as the child of \<open>daemonize\<close>.\<close>

definition serve :: "'t host \<Rightarrow> path \<Rightarrow> bool \<Rightarrow> i32 option" where
  "serve h ctl ready_fd =
     (case runtime_error h of
        Some e \<Rightarrow> Some 1
      | None \<Rightarrow>
          (case dphase (run_daemon (fst (start_daemon (host_disk h) ctl ready_fd (signal_error h))) (daemon_events h)) of
             Stopped (Inl e) \<Rightarrow> Some 1
           | Stopped (Inr _) \<Rightarrow> Some 0
           | _ \<Rightarrow> None))"

text \<open>The exit code of the process the user started; \<open>None\<close> while it runs.\<close>

definition main_exit :: "'t host \<Rightarrow> cli \<Rightarrow> i32 option" where
  "main_exit h cl =
     (case subcommand cl of
        DaemonCmd foreground \<Rightarrow>
          if foreground then serve h (ctl_path_of h cl) False
          else (case daemonize (fork_calls h) (descriptors h) of
                  Inl code \<Rightarrow> Some code
                | Inr s \<Rightarrow> map_option daemonize_parent (parent_read h))
      | _ \<Rightarrow>
          (case runtime_error h of
             Some e \<Rightarrow> Some 1
           | None \<Rightarrow> map_option code_of (run_command h cl)))"

text \<open>The child after \<open>daemonize\<close>, whose result is \<open>ready\<close>.\<close>

definition child_exit :: "'t host \<Rightarrow> cli \<Rightarrow> io_error + nat \<Rightarrow> i32 option" where
  "child_exit h cl ready =
     (case ready of Inl e \<Rightarrow> Some 1 | Inr fd \<Rightarrow> serve h (ctl_path_of h cl) True)"

section \<open>Sample runs\<close>

definition sample_host :: "unit host" where
  "sample_host =
     \<lparr>host_disk = sample_world, host_env = (\<lambda>v. None), exchanges = [], local_time = (\<lambda>t. None), epoch_now = 0,
      runtime_error = None, make_raw = (\<lambda>t. t), known_flags = - 1,
      terminal_calls = \<lparr>tcgetattr_error = None, tcsetattr_error = None, getfl_error = None, setfl_error = None,
        asyncfd_error = None, sigwinch_error = None, attrs_restored = True, flags_restored = True\<rparr>,
      stdin_terminal = \<lparr>attrs = (), flags = 0\<rparr>, first_io = calm_at 0, client_events = [],
      tunnel_calls = \<lparr>my_pid = 1, ran_remote = Inl (OsError 2), spawned = Inl (OsError 2), clock = 0, polls = [],
        signals_ready = None\<rparr>,
      fork_calls = good_calls, descriptors = std_fds, parent_read = None, signal_error = None, daemon_events = []\<rparr>"

definition sample_cli :: "subcommand \<Rightarrow> cli" where
  "sample_cli c = \<lparr>ctl_socket = None, verbose = False, subcommand = c\<rparr>"

definition answered_with :: "frame \<Rightarrow> exchange" where
  "answered_with f = \<lparr>could_connect = True, send_error = None, reply = Some (Inr f)\<rparr>"

section \<open>Exit codes\<close>

lemma conclude_simps [simp]:
  "conclude h (Inl e) = Some (Inl e)" "conclude h (Inr (Report ls)) = Some (Inr (ReturnedOk ls))"
  "conclude h (Inr (RunClient t r env n)) = exit_with (client_run h t r env n)"
  "conclude h (Inr StillWaiting) = None"
  by (simp_all add: conclude_def)

text \<open>The frames with which the daemon grants each of the one-answer requests.\<close>

fun grants :: "subcommand \<Rightarrow> frame \<Rightarrow> bool" where
  "grants ListSessionsCmd (SessionInfo ss) = True"
| "grants (KillSessionCmd target) Ok = True"
| "grants KillServerCmd Ok = True"
| "grants _ _ = False"

definition granted :: "subcommand \<Rightarrow> exchange \<Rightarrow> bool" where
  "granted c x \<longleftrightarrow> could_connect x \<and> send_error x = None \<and> (\<exists>f. reply x = Some (Inr f) \<and> grants c f)"

lemma daemon_request_Inr:
  "daemon_request ctl x = Inr f \<longleftrightarrow> could_connect x \<and> send_error x = None \<and> reply x = Some (Inr f)"
  by (cases "reply x" rule: expect_from.cases) (auto simp: daemon_request_def after_send_def split: option.splits)

lemma one_answer_code:
  assumes "\<And>f. if grants cmd f then \<exists>ls. g f = Inr (Report ls) else \<exists>e. g f = Inl e"
  shows "map_option code_of (conclude h (try_then (daemon_request ctl x) g)) = Some (if granted cmd x then 0 else 1)"
proof (cases "daemon_request ctl x")
  case (Inl e)
  then have "\<not> granted cmd x" by (metis granted_def daemon_request_Inr sum.distinct(1))
  with Inl show ?thesis by simp
next
  case (Inr f)
  then have "granted cmd x \<longleftrightarrow> grants cmd f" by (auto simp: granted_def daemon_request_Inr)
  with Inr assms [of f] show ?thesis by (auto split: if_splits)
qed

lemma one_answer_codes:
  "map_option code_of (conclude h (list_sessions lt now ctl x)) = Some (if granted ListSessionsCmd x then 0 else 1)"
  "map_option code_of (conclude h (kill_session t ctl x)) = Some (if granted (KillSessionCmd t) x then 0 else 1)"
  "map_option code_of (conclude h (kill_server ctl x)) = Some (if granted KillServerCmd x then 0 else 1)"
  unfolding list_sessions_def kill_session_def kill_server_def
  by (rule one_answer_code, simp split: frame.split)+



section \<open>The exit code of the shell\<close>

text \<open>A terminal that can be set up.\<close>

definition terminal_ready :: "setup_calls \<Rightarrow> bool" where
  "terminal_ready c \<longleftrightarrow> tcgetattr_error c = None \<and> tcsetattr_error c = None \<and> getfl_error c = None
     \<and> setfl_error c = None \<and> asyncfd_error c = None \<and> sigwinch_error c = None"

lemma terminal_ready_run: "terminal_ready c \<Longrightarrow> fst (around_run mk known c looped t) = looped"
  by (simp add: terminal_ready_def around_run_def raw_mode_enter_def non_block_set_def Let_def)



end
