(* ===== verification/Dialogue.thy ===== *)
theory Dialogue
  imports Program Daemon_Props End_To_End
begin
text \<open>
  The types of the dialogue: which frames the daemon, a session and a client send each other, and
  that each side understands all the other sends.  The first frame of a control connection is a
  request, and its one answer is of a type the subcommand that asked expects; on a connection that
  has been handed over, a session sends terminal output, pongs and one of two last frames, and a
  client sends variables, window sizes, input and pings.
\<close>

section \<open>Requests and their answers\<close>

text \<open>The frame a subcommand sends.\<close>

fun request_of :: "subcommand \<Rightarrow> frame option" where
  "request_of (NewSessionCmd target no_escape) = Some (new_session_request target)"
| "request_of (AttachCmd target no_redraw no_escape) = Some (Attach target)"
| "request_of ListSessionsCmd = Some ListSessions"
| "request_of (KillSessionCmd target) = Some (KillSession target)"
| "request_of KillServerCmd = Some KillServer"
| "request_of _ = None"

text \<open>The types of frame that answer a request.\<close>

fun answer_types :: "frame \<Rightarrow> u8 list" where
  "answer_types (NewSession name) = [TYPE_SESSION_CREATED, TYPE_ERROR]"
| "answer_types (Attach target) = [TYPE_OK, TYPE_ERROR]"
| "answer_types ListSessions = [TYPE_SESSION_INFO]"
| "answer_types (KillSession target) = [TYPE_OK, TYPE_ERROR]"
| "answer_types KillServer = [TYPE_OK]"
| "answer_types _ = [TYPE_ERROR]"

inductive_cases registry_specE: "registry_spec s req f s'"

lemma spec_answer_typed: "registry_spec s req f s' \<Longrightarrow> frame_type_of f \<in> set (answer_types req)"
  by (erule registry_specE)
    (auto simp: no_such_session_def control_request_def split: frame.splits)

text \<open>A refusal is never worded like the complaint about an unexpected frame.\<close>

lemma spec_error_text:
  "registry_spec s req (Error m) s' \<Longrightarrow> control_request req \<Longrightarrow> m \<noteq> ''unexpected response from daemon''"
  by (erule registry_specE) (auto simp: no_such_session_def)

lemma daemon_answer:
  assumes "daemon_inv d" and "dphase d = Reading c"
  obtains f where
    "replies (daemon_log (daemon_step d (ControlFrame (Some (Inr req)) calls during))) = replies (daemon_log d) @ [(c, f)]"
    "frame_type_of f \<in> set (answer_types req)"
    "control_request req \<Longrightarrow> f \<noteq> Error ''unexpected response from daemon''"
  using step_simulates [OF assms, of req calls during] spec_answer_typed spec_error_text
  unfolding simulates_def by blast

section \<open>The codec keeps types\<close>

lemma decode_payload_type: "decode_payload ty p = Inr f \<Longrightarrow> frame_type_of f = ty"
  by (auto simp: decode_payload_def try_then_Inr_iff split: if_splits)

lemma decode_payload_error: "decode_payload TYPE_ERROR p = Inr (Error m) \<Longrightarrow> as_bytes m = p"
  by (auto simp: decode_payload_def decode_string_def from_utf8_def split: if_splits)

text \<open>What the next read of the peer makes of a frame, whatever follows it on the wire.\<close>

definition arrives :: "frame \<Rightarrow> bytes \<Rightarrow> io_error + frame \<Rightarrow> bool" where
  "arrives f later r \<longleftrightarrow>
     (case fst (decode (frame_bytes f @ later)) of
        Inl e \<Rightarrow> r = Inl e
      | Inr x \<Rightarrow> (\<exists>g. x = Some g \<and> r = Inr g))"

lemma arrives_typed:
  assumes "arrives f later (Inr g)" and "length (payload_of f) < 2 ^ 32"
  shows "frame_type_of g = frame_type_of f" "\<And>m. g = Error m \<Longrightarrow> f = Error m"
proof -
  have "decode_payload (frame_type_of f) (payload_of f) = Inr g"
  proof (cases "length (payload_of f) \<le> MAX_FRAME_SIZE")
    case True
    with assms(1) show ?thesis
      by (auto simp: arrives_def encode_into_eq decode_put_frame split: sum.splits)
  next
    case False
    with assms show ?thesis by (simp add: arrives_def encode_into_eq decode_put_frame_too_large)
  qed
  note g = this
  then show ty: "frame_type_of g = frame_type_of f" by (rule decode_payload_type)
  show "f = Error m" if m: "g = Error m" for m
  proof -
    have "frame_type_of f = TYPE_ERROR" using ty m by simp
    with g m have "as_bytes m = payload_of f" by (auto intro: decode_payload_error)
    with \<open>frame_type_of f = TYPE_ERROR\<close> show ?thesis by (cases f) auto
  qed
qed

section \<open>Subcommands understand the daemon\<close>

lemma request_control: "request_of cmd = Some req \<Longrightarrow> control_request req"
  by (cases cmd) (auto simp: control_request_def new_session_request_def)

lemma client_run_expected: "client_run h t r env n \<noteq> Some (Inl unexpected)"
  by (auto simp: client_run_def unexpected_def split: sum.splits client_phase.splits)

lemma exit_with_expected: "exit_with (client_run h t r env n) \<noteq> Some (Inl unexpected)"
  using client_run_expected [of h t r env n]
  by (auto simp: exit_with_def try_then_Inl_iff)

lemma run_command_unexpected:
  assumes "request_of (subcommand cl) = Some req" and "exchanges h = x # xs" and "could_connect x"
    and "run_command h cl = Some (Inl unexpected)"
  shows "\<exists>g. reply x = Some (Inr g)
    \<and> (g = Error ''unexpected response from daemon'' \<or> frame_type_of g \<notin> set (answer_types req))"
proof (cases "after_send x")
  case (Inl e)
  then have "e \<noteq> unexpected"
    by (cases "reply x" rule: expect_from.cases) (auto simp: after_send_def unexpected_def split: option.splits)
  with Inl assms show ?thesis
    by (cases "subcommand cl") (auto simp: run_command_def once_def new_session_def list_sessions_def
        kill_session_def kill_server_def daemon_request_def)
next
  case (Inr g)
  then have g: "reply x = Some (Inr g)"
    by (cases "reply x" rule: expect_from.cases) (auto simp: after_send_def split: option.splits)
  show ?thesis
    using assms Inr g
    by (cases "subcommand cl"; cases g)
      (auto simp: run_command_def once_def new_session_def list_sessions_def new_session_request_def
        kill_session_def kill_server_def daemon_request_def unexpected_def exit_with_expected [unfolded unexpected_def])
qed

text \<open>
  C17. Well-typed dialogue between subcommands and daemon.  Whatever state the daemon is in, a
  subcommand's request gets exactly one answer, of one of the types that answer it; and however that
  answer arrives (intact, refused by the codec as too large or invalid, with more frames behind it),
  the subcommand never complains of an unexpected response.
\<close>

theorem subcommands_understand_the_daemon:
  assumes "daemon_inv d" and "dphase d = Reading c" and "request_of (subcommand cl) = Some req"
    and "d' = daemon_step d (ControlFrame (Some (Inr req)) calls during)"
  shows "\<exists>f. replies (daemon_log d') = replies (daemon_log d) @ [(c, f)]
    \<and> frame_type_of f \<in> set (answer_types req)
    \<and> (\<forall>later r h x xs. length (payload_of f) < 2 ^ 32 \<and> arrives f later r
         \<and> exchanges h = x # xs \<and> could_connect x \<and> reply x = Some r
         \<longrightarrow> run_command h cl \<noteq> Some (Inl unexpected))"
proof -
  obtain f where f: "replies (daemon_log d') = replies (daemon_log d) @ [(c, f)]"
      "frame_type_of f \<in> set (answer_types req)" "f \<noteq> Error ''unexpected response from daemon''"
    using daemon_answer [OF assms(1,2), of req calls during] request_control [OF assms(3)] assms(4) by metis
  have "run_command h cl \<noteq> Some (Inl unexpected)"
    if len: "length (payload_of f) < 2 ^ 32" and r: "arrives f later r"
      and x: "exchanges h = x # xs" "could_connect x" "reply x = Some r" for later r h x xs
  proof
    assume "run_command h cl = Some (Inl unexpected)"
    from run_command_unexpected [OF assms(3) x(1,2) this] x(3)
    obtain g where "r = Inr g" "g = Error ''unexpected response from daemon'' \<or> frame_type_of g \<notin> set (answer_types req)"
      by auto
    with arrives_typed [OF _ len, of later g] r f(2,3) show False by auto
  qed
  with f(1,2) show ?thesis by blast
qed

theorem subcommands_understand_the_daemon_witness:
  "run_command (sample_host\<lparr>exchanges := [answered_with (SessionInfo [])]\<rparr>) (sample_cli ListSessionsCmd) \<noteq> Some (Inl unexpected)
   \<and> replies (daemon_log (daemon_step (fresh_daemon\<lparr>dphase := Reading 1\<rparr>)
        (ControlFrame (Some (Inr ListSessions)) pty_ready []))) = [(1, SessionInfo [])]"
proof -
  let ?d = "fresh_daemon\<lparr>dphase := Reading 1\<rparr>"
  let ?d' = "daemon_step ?d (ControlFrame (Some (Inr ListSessions)) pty_ready [])"
  have r: "replies (daemon_log ?d) = []" "replies (daemon_log ?d') = [(1, SessionInfo [])]"
    by (simp_all add: fresh_daemon_def blank_daemon_def handle_list_def Let_def reap_def reap_sessions_def
        build_session_entries_def replies_def List.map_filter_def)
  have i: "daemon_inv ?d" by (simp add: fresh_daemon_inv)
  have q: "request_of (subcommand (sample_cli ListSessionsCmd)) = Some ListSessions" by (simp add: sample_cli_def)
  from subcommands_understand_the_daemon [OF i _ q refl, of 1 pty_ready "[]"] r
  have h: "run_command h (sample_cli ListSessionsCmd) \<noteq> Some (Inl unexpected)"
    if "exchanges h = x # xs" "could_connect x" "reply x = Some v" "arrives (SessionInfo []) [] v" for h :: "unit host" and x xs v
    using that by (fastforce simp: text_of_info_def)
  have "arrives (SessionInfo []) [] (Inr (SessionInfo []))"
    using decode_encoded [of "SessionInfo []" "[]"] by (simp add: arrives_def MAX_FRAME_SIZE_def text_of_info_def)
  with h [of _ "answered_with (SessionInfo [])" "[]"] r(2) show ?thesis by (simp add: answered_with_def)
qed

section \<open>The relay\<close>

text \<open>The frames a session sends to its client, and a client to its session.\<close>

fun from_server :: "frame \<Rightarrow> bool" where
  "from_server (Data d) = True"
| "from_server Pong = True"
| "from_server (Exit code) = True"
| "from_server Detached = True"
| "from_server _ = False"

fun from_client :: "frame \<Rightarrow> bool" where
  "from_client (Env vars) = True"
| "from_client (Resize cols rows) = True"
| "from_client (Data d) = True"
| "from_client Ping = True"
| "from_client _ = False"

definition server_typed :: "session \<Rightarrow> bool" where
  "server_typed s \<longleftrightarrow> (\<forall>c f. SendFrame c f \<in> set (effects s) \<longrightarrow> from_server f)"

lemma server_typed_start [simp]: "server_typed (start_session calls)"
  by (simp add: server_typed_def start_session_def blank_session_def split: sum.split)

lemma server_typed_step: "server_typed s \<Longrightarrow> server_typed (session_step s e)"
proof (cases e rule: sessionevent_cases)
  case (1 sys)
  assume "server_typed s"
  with 1 show ?thesis
    by (cases "phase s") (auto simp: server_typed_def on_client_def finish_def split: list.splits option.splits)
next
  case (2 sys r)
  assume "server_typed s"
  with 2 show ?thesis
    by (cases "phase s") (auto simp: server_typed_def spawn_shell_def Let_def finish_def split: sum.splits option.splits)
next
  case (9 sys ready r)
  assume "server_typed s"
  with 9 show ?thesis
    by (cases "phase s") (auto simp: server_typed_def on_pty_readable_def shell_exited_def finish_def Let_def
        split: sum.splits option.splits)
qed (cases "phase s"; auto simp: server_typed_def client_gone_def finish_def shell_exited_def
    on_child_exit_def hand_over_def drop_senders_def abort_task_def split: sum.splits option.splits prod.splits)+

interpretation server_speech: step_machine session_step server_typed
  by unfold_locales (rule server_typed_step)

text \<open>What an operation of the client adds to the log is of these types, or the request to attach again.\<close>

definition speaks :: "client \<Rightarrow> client \<Rightarrow> bool" where
  "speaks s s' \<longleftrightarrow> session_name s' = session_name s \<and> (current_env s = [] \<longrightarrow> current_env s' = [])
     \<and> (client_inv s \<longrightarrow> client_inv s')
     \<and> (\<exists>new. clog s' = clog s @ new \<and> (\<forall>f. Sent f \<in> set new \<longrightarrow> from_client f \<or> f = Attach (session_name s)))"

interpretation client_speech: client_relation speaks from_client "\<lambda>d. True"
proof
  fix s s' s'' :: client
  assume "speaks s s'" "speaks s' s''"
  then obtain n1 n2 where "clog s' = clog s @ n1" "clog s'' = clog s' @ n2"
      "\<forall>f. Sent f \<in> set n1 \<longrightarrow> from_client f \<or> f = Attach (session_name s)"
      "\<forall>f. Sent f \<in> set n2 \<longrightarrow> from_client f \<or> f = Attach (session_name s)"
    by (auto simp: speaks_def)
  then have "clog s'' = clog s @ n1 @ n2 \<and>
      (\<forall>f. Sent f \<in> set (n1 @ n2) \<longrightarrow> from_client f \<or> f = Attach (session_name s))" by auto
  then have "\<exists>new. clog s'' = clog s @ new \<and>
      (\<forall>f. Sent f \<in> set new \<longrightarrow> from_client f \<or> f = Attach (session_name s))" ..
  with \<open>speaks s s'\<close> \<open>speaks s' s''\<close> show "speaks s s''" by (simp add: speaks_def)
qed (auto simp: speaks_def client_inv_def print_def lost_def return_code_def send_or_lose_def
    split: list.split bool.split option.split client_phase.split)

lemma speaks_run: "client_inv s \<Longrightarrow> speaks s (run_client s es)"
proof (induction es arbitrary: s)
  case Nil
  show ?case by (simp add: client_speech.rel_refl)
next
  case (Cons e es)
  have q: "speaks s (client_step s e)" by (rule client_speech.rel_step [OF Cons.prems TrueI])
  then have "client_inv (client_step s e)" using Cons.prems by (simp add: speaks_def)
  from client_speech.rel_trans [OF q Cons.IH [OF this]] show ?case by simp
qed

lemma speaks_start: "speaks (new_client name redraw env no_escape) (client_start io name redraw env no_escape)"
  unfolding client_start_def
  by (rule client_speech.rel_trans [OF client_speech.rel_io client_speech.rel_relay_start]) simp

text \<open>Frames that make no difference to their receiver in the relay.\<close>

definition client_ignores :: "frame \<Rightarrow> bool" where
  "client_ignores f \<longleftrightarrow> (\<forall>io s. on_server io (Some (Inr f)) s = s)"

definition session_ignores :: "frame \<Rightarrow> bool" where
  "session_ignores f \<longleftrightarrow> (\<forall>sys c s. on_socket_frame sys c (Some (Inr f)) s = s)"

lemma client_ignores_iff: "client_ignores f \<longleftrightarrow> \<not> from_server f"
proof -
  let ?s = "new_client [] False [] False" and ?io = "calm_at 7"
  have "on_server ?io (Some (Inr f)) ?s \<noteq> ?s" if "from_server f"
  proof (cases f)
    case (Data d)
    have "clog (on_server ?io (Some (Inr f)) ?s) \<noteq> clog ?s" by (simp add: Data print_def new_client_def)
    then show ?thesis by metis
  next
    case Detached
    have "clog (on_server ?io (Some (Inr f)) ?s) \<noteq> clog ?s"
      by (simp add: Detached print_def new_client_def return_code_def)
    then show ?thesis by metis
  next
    case Pong
    have "last_pong (on_server ?io (Some (Inr f)) ?s) \<noteq> last_pong ?s" by (simp add: Pong new_client_def)
    then show ?thesis by metis
  next
    case (Exit k)
    have "cphase (on_server ?io (Some (Inr f)) ?s) \<noteq> cphase ?s" by (simp add: Exit new_client_def return_code_def)
    then show ?thesis by metis
  qed (use that in auto)
  moreover have "on_server io (Some (Inr f)) s = s" if "\<not> from_server f" for io s
    using that by (cases f) auto
  ultimately show ?thesis unfolding client_ignores_def by blast
qed

lemma session_ignores_not: "from_client f \<Longrightarrow> \<forall>vars. f \<noteq> Env vars \<Longrightarrow> \<not> session_ignores f"
proof -
  let ?s = "(blank_session [])\<lparr>phase := Relay 0\<rparr>" and ?sys = "quiet_calls\<lparr>sys_writable := None, sys_write := Inr 0\<rparr>"
  assume f: "from_client f" "\<forall>vars. f \<noteq> Env vars"
  then have "effects (on_socket_frame ?sys 0 (Some (Inr f)) ?s) \<noteq> effects ?s"
    by (cases f) (simp_all add: case_prod_beta)
  then show ?thesis unfolding session_ignores_def by metis
qed

text \<open>
  C21. The relay is well typed.  In every run of a session task and of a client, the task sends only
  output, pongs and the two last frames, which are exactly the frames a client acts on; the client
  sends only variables, sizes, input, pings and, to a daemon, the request to attach again to its own
  session; and all of these but late variables make a difference to the session they reach.
\<close>

theorem relay_is_well_typed:
  "(\<forall>c f. SendFrame c f \<in> set (effects (run_session (start_session calls) es)) \<longrightarrow> \<not> client_ignores f)
   \<and> (\<forall>f. Sent f \<in> set (clog (run_client (client_start io name redraw env no_escape) ces)) \<longrightarrow>
        (from_client f \<and> (session_ignores f \<longrightarrow> (\<exists>vars. f = Env vars))) \<or> f = Attach name)
   \<and> (\<forall>f. client_ignores f \<longleftrightarrow> \<not> from_server f)"
proof -
  let ?s0 = "new_client name redraw env no_escape" and ?s1 = "client_start io name redraw env no_escape"
  have "server_typed (run_session (start_session calls) es)" by (rule server_speech.run_inv) simp
  moreover have "client_inv ?s0" by (simp add: client_inv_def new_client_def)
  then have "client_inv ?s1" using speaks_start by (auto simp: speaks_def)
  then have "speaks ?s0 (run_client ?s1 ces)" by (rule client_speech.rel_trans [OF speaks_start speaks_run])
  then have "\<forall>f. Sent f \<in> set (clog (run_client ?s1 ces)) \<longrightarrow> from_client f \<or> f = Attach name"
    by (auto simp: speaks_def new_client_def)
  ultimately show ?thesis
    using session_ignores_not unfolding server_typed_def client_ignores_iff by blast
qed

theorem relay_is_well_typed_witness:
  "from_client (Resize 80 24) \<and> \<not> session_ignores (Resize 80 24)"
proof -
  have "Sent (Resize 80 24) \<in> set (clog (run_client (client_start (calm_at 0) ''0'' False [] False) []))"
    by (simp add: sample_client_def [symmetric]) (simp add: sample_client_eq)
  with relay_is_well_typed [of pty_ready "[]" "calm_at 0" "''0''" False "[]" False "[]"] show ?thesis
    by (metis frame.distinct frame.simps from_client.simps)
qed

end
