(* ===== verification/System.thy ===== *)
theory System
  imports Custody Dialogue
begin
text \<open>
  The whole system: any number of \<open>gritty\<close> processes, of any users, the daemon with all its session
  tasks, and a byte stream in each direction of every connection between them.  A \<open>move\<close> is one step
  of one of them or the arrival of some bytes; \<open>system_step\<close> makes it, with the definitions of the other
  theories for what the program does.  Processes start subcommands, connect, send their request, read
  the answer and become clients; lost clients connect again.  Sends may fail half way, connections may
  break, system calls may fail, and everything may be interleaved.
\<close>

declare hand_over_def [simp del] drop_senders_def [simp del] abort_task_def [simp del]

section \<open>Processes\<close>

datatype stage =
    Waiting conn                  \<comment> \<open>the request is sent, the answer not yet read\<close>
  | Working client conn           \<comment> \<open>\<open>client::run\<close>; the connection it relays on, or relayed on last\<close>
  | Redialing client conn         \<comment> \<open>in the reconnect loop, \<open>Attach\<close> sent on a new connection\<close>
  | Over

record process =
  puid :: nat
  pcmd :: subcommand
  penv :: "string \<Rightarrow> string option"
  stage :: stage

text \<open>What a subcommand does with the first frame that comes back (or does not).\<close>

definition response_of :: "path \<Rightarrow> process \<Rightarrow> (io_error + frame) option \<Rightarrow> app_error + outcome" where
  "response_of ctl p r =
     (let x = \<lparr>could_connect = True, send_error = None, reply = r\<rparr>
      in case pcmd p of
           NewSessionCmd target no_escape \<Rightarrow> new_session no_escape ctl x (penv p)
         | AttachCmd target no_redraw no_escape \<Rightarrow> attach target (\<not> no_redraw) no_escape [x]
         | ListSessionsCmd \<Rightarrow> list_sessions (\<lambda>t. None) 0 ctl x
         | KillSessionCmd target \<Rightarrow> kill_session target ctl x
         | KillServerCmd \<Rightarrow> kill_server ctl x
         | _ \<Rightarrow> Inl unexpected)"

text \<open>The frames a client has tried to send, whether or not the send succeeded.\<close>

definition tried :: "client_effect list \<Rightarrow> frame list" where
  "tried es = List.map_filter (\<lambda>e. case e of Sent f \<Rightarrow> Some f | SendFailed f \<Rightarrow> Some f | _ \<Rightarrow> None) es"

lemma tried_simps [simp]:
  "tried [] = []" "tried (es @ fs) = tried es @ tried fs" "tried (Sent f # es) = f # tried es"
  "tried (SendFailed f # es) = f # tried es" "tried (Printed d # es) = tried es"
  "tried (PrintFailed d # es) = tried es" "tried (SuspendSelf # es) = tried es"
  by (simp_all add: tried_def List.map_filter_def)

definition new_frames :: "client \<Rightarrow> client \<Rightarrow> frame list" where
  "new_frames cl cl' = tried (drop (length (clog cl)) (clog cl'))"

section \<open>The state and its moves\<close>

record system =
  hub :: daemon
  procs :: "process list"
  backlog :: "conn list"             \<comment> \<open>connected, not yet accepted\<close>
  next_conn :: conn
  dialer :: "conn \<Rightarrow> nat"            \<comment> \<open>the process at the other end\<close>
  posted :: "conn \<Rightarrow> frame list"     \<comment> \<open>what that process has sent\<close>
  ups :: "conn \<Rightarrow> channel"           \<comment> \<open>towards the daemon or the task\<close>
  downs :: "conn \<Rightarrow> channel"         \<comment> \<open>towards the process\<close>

datatype move =
    Start nat subcommand "string \<Rightarrow> string option"     \<comment> \<open>a user runs a subcommand that asks the daemon\<close>
  | ArriveUp conn nat
  | ArriveDown conn nat
  | AcceptNext "nat option"                              \<comment> \<open>\<open>accept\<close>, and the error of \<open>peer_cred\<close>\<close>
  | AcceptFails io_error
  | TellToStop                                           \<comment> \<open>\<open>SIGTERM\<close> or \<open>SIGINT\<close>\<close>
  | ReadRequest pty_calls "(u32 \<times> syscalls \<times> event) list"
  | LoseRequest "io_error option"                        \<comment> \<open>end of file, or an error\<close>
  | TaskReads u32 syscalls                               \<comment> \<open>a task takes a frame\<close>
  | TaskMoves u32 syscalls event                         \<comment> \<open>any other step of a task\<close>
  | GetAnswer nat client_io
  | GiveUp nat                                           \<comment> \<open>no answer, or the process is killed\<close>
  | ClientReads nat client_io                            \<comment> \<open>a client takes a frame\<close>
  | ClientMoves nat client_io client_event               \<comment> \<open>any other step of a client\<close>
  | Redial nat
  | Conclude nat client_io "io_error + bytes"            \<comment> \<open>the answer to \<open>Attach\<close> is read\<close>
  | ConcludeBadly nat client_io "io_error + bytes" bool "io_error option"

abbreviation put_process :: "nat \<Rightarrow> stage \<Rightarrow> system \<Rightarrow> system" where
  "put_process p st s \<equiv> s\<lparr>procs := (procs s)[p := (procs s ! p)\<lparr>stage := st\<rparr>]\<rparr>"

definition post :: "conn \<Rightarrow> frame list \<Rightarrow> system \<Rightarrow> system" where
  "post c fs s = s\<lparr>posted := (posted s)(c := posted s c @ fs)\<rparr>"

text \<open>A new connection of process \<open>p\<close>, with its first frame.\<close>

definition dial :: "nat \<Rightarrow> frame \<Rightarrow> system \<Rightarrow> system" where
  "dial p req s =
     s\<lparr>next_conn := next_conn s + 1, backlog := backlog s @ [next_conn s],
       dialer := (dialer s)(next_conn s := p), posted := (posted s)(next_conn s := [req])\<rparr>"

abbreviation tell :: "daemon_event \<Rightarrow> system \<Rightarrow> system" where
  "tell e s \<equiv> s\<lparr>hub := daemon_step (hub s) e\<rparr>"

abbreviation take_up :: "conn \<Rightarrow> system \<Rightarrow> system" where
  "take_up c s \<equiv> s\<lparr>ups := (ups s)(c := take_frame (ups s c))\<rparr>"

abbreviation take_down :: "conn \<Rightarrow> system \<Rightarrow> system" where
  "take_down c s \<equiv> s\<lparr>downs := (downs s)(c := take_frame (downs s c))\<rparr>"

text \<open>The step of a client: what it sends goes out on connection \<open>c\<close>.\<close>

definition advance :: "nat \<Rightarrow> client \<Rightarrow> conn \<Rightarrow> nat \<Rightarrow> client_io \<times> client_event \<Rightarrow> system \<Rightarrow> system" where
  "advance p cl c skip e s =
     (let cl' = client_step cl e
      in put_process p (Working cl' c) (post c (drop skip (new_frames cl cl')) s))"

text \<open>The events of a client that take no frame; an attempt that gets no connection is one of them.\<close>

fun client_frameless :: "client_event \<Rightarrow> bool" where
  "client_frameless (ServerFrame (Some (Inr f))) = False"
| "client_frameless (Attempt a) = (peeked a = Inr [0x03] \<or> \<not> connected a)"
| "client_frameless _ = True"

section \<open>The step\<close>

definition stage_of :: "nat \<Rightarrow> system \<Rightarrow> stage" where
  "stage_of p s = (if p < length (procs s) then stage (procs s ! p) else Over)"

fun system_step :: "system \<Rightarrow> move \<Rightarrow> system" where
  "system_step s (Start u cmd env) =
     (case request_of cmd of
        None \<Rightarrow> s
      | Some req \<Rightarrow>
          (dial (length (procs s)) req s)
            \<lparr>procs := procs s @ [\<lparr>puid = u, pcmd = cmd, penv = env, stage = Waiting (next_conn s)\<rparr>]\<rparr>)"
| "system_step s (ArriveUp c n) = s\<lparr>ups := (ups s)(c := arrive (posted s c) n (ups s c))\<rparr>"
| "system_step s (ArriveDown c n) = s\<lparr>downs := (downs s)(c := arrive (outbox c (hub s)) n (downs s c))\<rparr>"
| "system_step s (AcceptNext err) =
     (case backlog s of
        [] \<Rightarrow> s
      | c # cs \<Rightarrow>
          if dphase (hub s) = Accepting then
            tell (AcceptConn (Inr c)
              (case err of None \<Rightarrow> Inr (puid (procs s ! dialer s c)) | Some e \<Rightarrow> Inl (OsError e)))
              (s\<lparr>backlog := cs\<rparr>)
          else s)"
| "system_step s (AcceptFails e) = tell (AcceptConn (Inl e) (Inr 0)) s"
| "system_step s TellToStop = tell StopSignal s"
| "system_step s (ReadRequest calls during) =
     (case dphase (hub s) of
        Reading c \<Rightarrow>
          (case next_frame (ups s c) of
             Some f \<Rightarrow>
               if list_all (\<lambda>(i, sys, ev). frameless ev) during
               then tell (ControlFrame (Some (Inr f)) calls during) (take_up c s)
               else s
           | None \<Rightarrow> s)
      | _ \<Rightarrow> s)"
| "system_step s (LoseRequest e) = tell (ControlFrame (map_option Inl e) pty_ready []) s"
| "system_step s (TaskReads i sys) =
     (case map_of (sessions (hub s)) i of
        None \<Rightarrow> s
      | Some st \<Rightarrow>
          (case reading_conn (phase (task st)) of
             None \<Rightarrow> s
           | Some c \<Rightarrow>
               (case next_frame (ups s c) of
                  Some f \<Rightarrow>
                    (case dphase (hub s) of
                       Stopped r \<Rightarrow> s
                     | _ \<Rightarrow> tell (TaskEvent i (sys, task_event (phase (task st)) f)) (take_up c s))
                | None \<Rightarrow> s)))"
| "system_step s (TaskMoves i sys ev) = (if frameless ev then tell (TaskEvent i (sys, ev)) s else s)"
| "system_step s (GetAnswer p io) =
     (case stage_of p s of
        Waiting c \<Rightarrow>
          (case next_frame (downs s c) of
             Some f \<Rightarrow>
               (case response_of (ctl_path (hub s)) (procs s ! p) (Some (Inr f)) of
                  Inr (RunClient session redraw env no_escape) \<Rightarrow>
                    (let cl = client_start io session redraw env no_escape
                     in put_process p (Working cl c) (post c (tried (clog cl)) (take_down c s)))
                | _ \<Rightarrow> put_process p Over (take_down c s))
           | None \<Rightarrow> s)
      | _ \<Rightarrow> s)"
| "system_step s (GiveUp p) = (if p < length (procs s) then put_process p Over s else s)"
| "system_step s (ClientReads p io) =
     (case stage_of p s of
        Working cl c \<Rightarrow>
          (case next_frame (downs s c) of
             Some f \<Rightarrow>
               if cphase cl = Relaying
               then advance p cl c 0 (io, ServerFrame (Some (Inr f))) (take_down c s)
               else s
           | None \<Rightarrow> s)
      | _ \<Rightarrow> s)"
| "system_step s (ClientMoves p io ev) =
     (case stage_of p s of
        Working cl c \<Rightarrow> if client_frameless ev then advance p cl c 0 (io, ev) s else s
      | _ \<Rightarrow> s)"
| "system_step s (Redial p) =
     (case stage_of p s of
        Working cl c \<Rightarrow>
          if cphase cl = Lost
          then put_process p (Redialing cl (next_conn s)) (dial p (Attach (session_name cl)) s)
          else s
      | _ \<Rightarrow> s)"
| "system_step s (Conclude p io peek) =
     (case stage_of p s of
        Redialing cl c \<Rightarrow>
          (case next_frame (downs s c) of
             Some f \<Rightarrow>
               if peek \<noteq> Inr [0x03]
               then advance p cl c 1
                 (io, Attempt \<lparr>peeked = peek, connected = True, attach_sent = True, answered = Some (Inr f)\<rparr>)
                 (take_down c s)
               else s
           | None \<Rightarrow> s)
      | _ \<Rightarrow> s)"
| "system_step s (ConcludeBadly p io peek sent e) =
     (case stage_of p s of
        Redialing cl c \<Rightarrow>
          if peek \<noteq> Inr [0x03]
          then advance p cl c 1
            (io, Attempt \<lparr>peeked = peek, connected = True, attach_sent = sent, answered = map_option Inl e\<rparr>) s
          else s
      | _ \<Rightarrow> s)"

abbreviation run_system :: "system \<Rightarrow> move list \<Rightarrow> system" where
  "run_system \<equiv> run_steps system_step"

text \<open>A daemon that has just been started, and nobody else.\<close>

definition new_system :: "daemon \<Rightarrow> system" where
  "new_system d =
     \<lparr>hub = d, procs = [], backlog = [], next_conn = 0, dialer = (\<lambda>c. 0), posted = (\<lambda>c. []),
      ups = (\<lambda>c. idle_channel), downs = (\<lambda>c. idle_channel)\<rparr>"

end
