(* ===== verification/Display.thy ===== *)
theory Display
  imports System
begin
text \<open>
  What a client prints, told apart by its source: output that it read on one of its connections, or a
  message of its own.  \<open>says\<close>: a step that prints only messages; \<open>displayed\<close>: the chunks printed so far,
  each with its source, against the frames read on each connection.
\<close>

declare hand_over_def [simp del] drop_senders_def [simp del] abort_task_def [simp del]

section \<open>What a client prints\<close>

definition chunks_printed :: "client_effect list \<Rightarrow> bytes list" where
  "chunks_printed es = [d. Printed d \<leftarrow> es]"

lemma chunks_printed_simps [simp]:
  "chunks_printed [] = []" "chunks_printed (es @ fs) = chunks_printed es @ chunks_printed fs"
  "chunks_printed (Printed d # es) = d # chunks_printed es" "chunks_printed (PrintFailed d # es) = chunks_printed es"
  by (simp_all add: chunks_printed_def)

text \<open>Apart from the session's output a client prints only messages of its own.\<close>

definition says :: "client \<Rightarrow> client \<Rightarrow> bool" where
  "says s s' \<longleftrightarrow> (current_env s = [] \<longrightarrow> current_env s' = []) \<and> session_name s' = session_name s
     \<and> (client_inv s \<longrightarrow> client_inv s')
     \<and> (\<exists>new. clog s' = clog s @ new \<and> (\<forall>b. Printed b \<in> set new \<longrightarrow> own_message b))"

lemma says_lost: "says s (lost s)"
  by (auto simp: says_def lost_def print_def client_inv_def own_message_def split: list.split option.split)

interpretation own_voice: client_relation says "\<lambda>f. True" own_message
proof
  fix s s' s'' :: client
  assume "says s s'" "says s' s''"
  then obtain n1 n2 where "clog s' = clog s @ n1" "clog s'' = clog s' @ n2"
      "\<forall>b. Printed b \<in> set n1 \<longrightarrow> own_message b" "\<forall>b. Printed b \<in> set n2 \<longrightarrow> own_message b"
    by (auto simp: says_def)
  then have "clog s'' = clog s @ n1 @ n2 \<and> (\<forall>b. Printed b \<in> set (n1 @ n2) \<longrightarrow> own_message b)" by auto
  then have "\<exists>new. clog s'' = clog s @ new \<and> (\<forall>b. Printed b \<in> set new \<longrightarrow> own_message b)" ..
  with \<open>says s s'\<close> \<open>says s' s''\<close> show "says s s''" by (simp add: says_def)
next
  fix s f
  have "says s (clog_add (SendFailed f) s\<lparr>send_results := bs\<rparr>)" for bs by (simp add: says_def client_inv_def)
  then have "says s (lost (clog_add (SendFailed f) s\<lparr>send_results := bs\<rparr>))" for bs
    using says_lost [of "clog_add (SendFailed f) s\<lparr>send_results := bs\<rparr>"] by (auto simp: says_def)
  then show "says s (send_or_lose f s)"
    by (auto simp: send_or_lose_def says_def client_inv_def split: list.split bool.split)
qed (auto simp: says_lost, auto simp: says_def client_inv_def print_def return_code_def
    split: list.split option.split client_phase.split)

lemma says_step:
  "client_inv s \<Longrightarrow> \<forall>d. snd e \<noteq> ServerFrame (Some (Inr (Data d))) \<Longrightarrow> says s (client_step s e)"
  by (rule own_voice.rel_step) auto

lemma says_start: "says (new_client name redraw env no_escape) (client_start io name redraw env no_escape)"
  unfolding client_start_def
  by (rule own_voice.rel_trans [OF own_voice.rel_io own_voice.rel_relay_start]) simp

text \<open>A frame of output is printed, or printing fails and the client ends.\<close>

lemma client_prints_data:
  assumes "cphase cl = Relaying" and "cl' = client_step cl (io, ServerFrame (Some (Inr (Data d))))"
  shows "(clog cl' = clog cl @ [Printed d] \<and> cphase cl' = Relaying)
    \<or> (clog cl' = clog cl @ [PrintFailed d] \<and> cphase cl' \<noteq> Relaying \<and> cphase cl' \<noteq> Lost)"
    "client_inv cl \<Longrightarrow> client_inv cl'" "session_name cl' = session_name cl"
  using assms by (auto simp: print_def client_inv_def split: list.split option.split)

text \<open>Only an answered attempt brings a client back into the relay loop.\<close>

lemma frameless_relaying:
  assumes "client_frameless ev" and "cphase (client_step cl (io, ev)) = Relaying"
  shows "cphase cl = Relaying"
proof (cases ev)
  case (Attempt a)
  with assms show ?thesis
    by (auto simp: on_attempt_def return_code_def print_def split: if_splits list.splits option.splits)
qed (use assms in \<open>auto split: if_splits\<close>)

lemma attempt_relaying:
  assumes "cphase cl = Lost" and "cphase (client_step cl (io, Attempt a)) = Relaying"
  shows "answered a = Some (Inr Ok)"
  using assms
  by (auto simp: on_attempt_def Let_def return_code_def print_def
      split: if_splits list.splits option.splits sum.splits frame.splits)

text \<open>
  The chunks printed with their source: a connection of \<open>M\<close>, or the client itself.  \<open>D c\<close> are the
  frames read on \<open>c\<close>; on the connection \<open>live\<close> all output read has been printed.
\<close>

definition displayed :: "(conn \<Rightarrow> frame list) \<Rightarrow> conn set \<Rightarrow> client \<Rightarrow> conn option \<Rightarrow> bool" where
  "displayed D M cl live \<longleftrightarrow>
     (\<exists>ws. map snd ws = chunks_printed (clog cl) \<and> (\<forall>b. (None, b) \<in> set ws \<longrightarrow> own_message b)
        \<and> (\<forall>c. Some c \<in> fst ` set ws \<longrightarrow> c \<in> M) \<and> (\<forall>c. prefix (from_conn (Some c) ws) (data_in (D c)))
        \<and> (\<forall>c. live = Some c \<longrightarrow> from_conn (Some c) ws = data_in (D c)))"

lemma displayed_cong:
  assumes "displayed D M cl live" and "clog cl' = clog cl" and "M \<subseteq> M'" and "\<And>c. c \<in> M \<Longrightarrow> data_in (D' c) = data_in (D c)"
    and "live' = None \<or> (live' = live \<and> set_option live \<subseteq> M)"
  shows "displayed D' M' cl' live'"
proof -
  obtain ws where ws: "map snd ws = chunks_printed (clog cl)" "\<forall>b. (None, b) \<in> set ws \<longrightarrow> own_message b"
      "\<forall>c. Some c \<in> fst ` set ws \<longrightarrow> c \<in> M" "\<forall>c. prefix (from_conn (Some c) ws) (data_in (D c))"
      "\<forall>c. live = Some c \<longrightarrow> from_conn (Some c) ws = data_in (D c)"
    using assms(1) unfolding displayed_def by blast
  have "from_conn (Some c) ws = []" if "c \<notin> M" for c
    using ws(3) that by (force simp: from_conn_def filter_empty_conv)
  then have "prefix (from_conn (Some c) ws) (data_in (D' c))" for c
    using ws(4) assms(4) by (cases "c \<in> M") auto
  with ws assms(2,3,4,5) show ?thesis unfolding displayed_def by (intro exI [of _ ws]) auto
qed

lemma displayed_says:
  assumes "displayed D M cl live" and "says cl cl'"
  shows "displayed D M cl' live"
proof -
  obtain ws where ws: "map snd ws = chunks_printed (clog cl)" "\<forall>b. (None, b) \<in> set ws \<longrightarrow> own_message b"
      "\<forall>c. Some c \<in> fst ` set ws \<longrightarrow> c \<in> M" "\<forall>c. prefix (from_conn (Some c) ws) (data_in (D c))"
      "\<forall>c. live = Some c \<longrightarrow> from_conn (Some c) ws = data_in (D c)"
    using assms(1) unfolding displayed_def by blast
  obtain new where new: "clog cl' = clog cl @ new" "\<forall>b. Printed b \<in> set new \<longrightarrow> own_message b"
    using assms(2) unfolding says_def by blast
  let ?vs = "map (Pair (None :: conn option)) (chunks_printed new)"
  have "own_message b" if "b \<in> set (chunks_printed new)" for b
    using that new(2) by (auto simp: chunks_printed_def split: client_effect.splits)
  moreover have "from_conn (Some c) ?vs = []" for c by (simp add: from_conn_def filter_empty_conv)
  ultimately show ?thesis
    using ws new(1) unfolding displayed_def by (intro exI [of _ "ws @ ?vs"]) (auto simp: comp_def)
qed

lemma displayed_data:
  assumes "displayed D M cl (Some c)" and "clog cl' = clog cl @ [Printed d]" and "c \<in> M"
  shows "displayed (D(c := D c @ [Data d])) M cl' (Some c)"
proof -
  obtain ws where ws: "map snd ws = chunks_printed (clog cl)" "\<forall>b. (None, b) \<in> set ws \<longrightarrow> own_message b"
      "\<forall>c. Some c \<in> fst ` set ws \<longrightarrow> c \<in> M" "\<forall>c. prefix (from_conn (Some c) ws) (data_in (D c))"
      "from_conn (Some c) ws = data_in (D c)"
    using assms(1) unfolding displayed_def by blast
  then show ?thesis
    using assms(2,3) unfolding displayed_def by (intro exI [of _ "ws @ [(Some c, d)]"]) auto
qed

lemma displayed_unprinted:
  assumes "displayed D M cl live" and "chunks_printed (clog cl') = chunks_printed (clog cl)"
  shows "displayed (D(c := D c @ fs)) M cl' None"
  using assms unfolding displayed_def by (elim exE conjE, intro exI conjI) (auto intro: prefix_order.trans)

lemma displayed_fresh:
  assumes "says cl0 cl" and "clog cl0 = []" and "data_in (D c) = []"
  shows "displayed D M cl (Some c)"
proof -
  have "displayed D M cl0 (Some c)"
    using assms(2,3) unfolding displayed_def by (intro exI [of _ "[]"]) simp
  from displayed_says [OF this assms(1)] show ?thesis .
qed

lemma displayed_again:
  assumes "displayed D M cl None" and "data_in (D c) = []"
  shows "displayed D M cl (Some c)"
  using assms unfolding displayed_def by (elim exE conjE, intro exI conjI) (auto, metis prefix_Nil)


text \<open>What a client's step does to what it shows.\<close>

lemma displayed_None: "displayed D M cl live \<Longrightarrow> displayed D M cl None"
  by (erule displayed_cong) auto

lemma displayed_taken:
  assumes "displayed D M cl live" and "\<not> is_data f"
  shows "displayed (D(c := D c @ [f])) M cl live"
proof -
  have "data_in ((D(c := D c @ [f])) x) = data_in (D x)" for x using assms(2) by (cases f) (simp_all add: is_data_def data_in_def)
  with assms(1) show ?thesis by (simp add: displayed_def)
qed

lemma says_inv: "says s s' \<Longrightarrow> client_inv s \<Longrightarrow> client_inv s'"
  by (simp add: says_def)

lemma shown_read:
  assumes "client_inv cl" "cphase cl = Relaying" "displayed D M cl (Some c)" "c \<in> M"
    and cl': "cl' = client_step cl (io, ServerFrame (Some (Inr f)))"
  shows "client_inv cl' \<and> displayed (D(c := D c @ [f])) M cl' (if cphase cl' = Relaying then Some c else None)"
proof (cases "is_data f")
  case True
  then obtain d where f: "f = Data d" by (auto simp: is_data_def)
  note p = client_prints_data [OF assms(2) cl' [unfolded f]]
  from p(1) show ?thesis
  proof
    assume "clog cl' = clog cl @ [Printed d] \<and> cphase cl' = Relaying"
    with displayed_data [OF assms(3) _ assms(4), of cl' d] p(2) [OF assms(1)] f show ?thesis by simp
  next
    assume a: "clog cl' = clog cl @ [PrintFailed d] \<and> cphase cl' \<noteq> Relaying \<and> cphase cl' \<noteq> Lost"
    then have "chunks_printed (clog cl') = chunks_printed (clog cl)" by simp
    from displayed_unprinted [OF assms(3) this] a p(2) [OF assms(1)] show ?thesis by simp
  qed
next
  case False
  then have s: "says cl cl'" unfolding cl' using assms(1) by (intro says_step) (auto simp: is_data_def)
  have "displayed (D(c := D c @ [f])) M cl' (Some c)"
    by (rule displayed_says [OF displayed_taken [OF assms(3) False] s])
  with says_inv [OF s assms(1)] displayed_None show ?thesis by auto
qed

lemma shown_move:
  assumes "client_inv cl" "displayed D M cl (if cphase cl = Relaying then Some c else None)"
    and "client_frameless ev" and cl': "cl' = client_step cl (io, ev)"
  shows "client_inv cl' \<and> displayed D M cl' (if cphase cl' = Relaying then Some c else None)"
proof -
  have s: "says cl cl'" unfolding cl' using assms(1,3) by (intro says_step) auto
  have "displayed D M cl' (if cphase cl = Relaying then Some c else None)" by (rule displayed_says [OF assms(2) s])
  moreover have "cphase cl = Relaying" if "cphase cl' = Relaying"
    using frameless_relaying [OF assms(3)] that cl' by simp
  ultimately show ?thesis using says_inv [OF s assms(1)] displayed_None by (auto split: if_splits)
qed

lemma shown_attempt:
  assumes "client_inv cl" "cphase cl = Lost" "displayed D M cl None" "D c = []"
    and cl': "cl' = client_step cl (io, Attempt a)"
    and fs: "fs = (case answered a of Some (Inr f) \<Rightarrow> [f] | _ \<Rightarrow> [])"
  shows "client_inv cl' \<and> displayed (D(c := D c @ fs)) M cl' (if cphase cl' = Relaying then Some c else None)"
proof -
  let ?D = "D(c := D c @ fs)"
  have s: "says cl cl'" unfolding cl' using assms(1) by (intro says_step) auto
  have none: "displayed ?D M cl None" by (rule displayed_unprinted [OF assms(3) refl])
  have "displayed ?D M cl' (Some c)" if "cphase cl' = Relaying"
  proof -
    have "answered a = Some (Inr Ok)" using attempt_relaying [OF assms(2)] that cl' by blast
    then have "data_in (?D c) = []" using assms(4) fs by (simp add: data_in_def)
    from displayed_says [OF displayed_again [OF none this] s] show ?thesis .
  qed
  with says_inv [OF s assms(1)] displayed_says [OF none s] show ?thesis by auto
qed

lemma shown_start:
  assumes "cl = client_start io name redraw env no_escape" and "data_in (D c) = []"
  shows "client_inv cl \<and> displayed D M cl (if cphase cl = Relaying then Some c else None)"
proof -
  have s: "says (new_client name redraw env no_escape) cl" unfolding assms(1) by (rule says_start)
  have "displayed D M cl (Some c)" by (rule displayed_fresh [of _ _ D c, OF s _ assms(2)]) (simp add: new_client_def)
  moreover have "client_inv cl" by (rule says_inv [OF s]) (simp add: client_inv_def new_client_def)
  ultimately show ?thesis using displayed_None by auto
qed

end
