(* ===== verification/System_Inv.thy ===== *)
theory System_Inv
  imports Display
begin
text \<open>
  The invariant of the system (\<open>system_ok\<close>): connections belong to one process each, what has been read
  in each direction is a prefix of what was sent, the daemon has custody of the connections accepted,
  and every process has the right connection and shows only what it read.  Every move keeps it.
\<close>

declare hand_over_def [simp del] drop_senders_def [simp del] abort_task_def [simp del]

section \<open>The invariant of the system\<close>

abbreviation user :: "system \<Rightarrow> conn \<Rightarrow> nat" where
  "user s c \<equiv> puid (procs s ! dialer s c)"

abbreviation heard :: "system \<Rightarrow> conn \<Rightarrow> frame list" where
  "heard s c \<equiv> taken (ups s c)"

abbreviation got :: "system \<Rightarrow> conn \<Rightarrow> frame list" where
  "got s c \<equiv> taken (downs s c)"

definition reached :: "system \<Rightarrow> conn set" where
  "reached s = {c. c < next_conn s \<and> c \<notin> set (backlog s)}"

definition mine :: "system \<Rightarrow> nat \<Rightarrow> conn set" where
  "mine s p = {c. c < next_conn s \<and> dialer s c = p}"

definition conns_ok :: "system \<Rightarrow> bool" where
  "conns_ok s \<longleftrightarrow> distinct (backlog s) \<and> (\<forall>c \<in> set (backlog s). c < next_conn s)
     \<and> (\<forall>c < next_conn s. dialer s c < length (procs s))
     \<and> (\<forall>c \<ge> next_conn s. posted s c = [] \<and> got s c = [])"

definition flows_ok :: "system \<Rightarrow> bool" where
  "flows_ok s \<longleftrightarrow>
     (\<forall>c. ((\<forall>f \<in> set (posted s c). fits f) \<longrightarrow> channel_ok (posted s c) (ups s c))
        \<and> ((\<forall>f \<in> set (outbox c (hub s)). fits f) \<longrightarrow> channel_ok (outbox c (hub s)) (downs s c)))"

definition hub_ok :: "system \<Rightarrow> bool" where
  "hub_ok s \<longleftrightarrow> custody (reached s) (user s) (heard s) (hub s)"

fun stage_ok :: "system \<Rightarrow> nat \<Rightarrow> stage \<Rightarrow> bool" where
  "stage_ok s p (Waiting c) = (c \<in> mine s p \<and> got s c = [])"
| "stage_ok s p (Working cl c) = (c \<in> mine s p \<and> client_inv cl
     \<and> displayed (got s) (mine s p) cl (if cphase cl = Relaying then Some c else None))"
| "stage_ok s p (Redialing cl c) = (c \<in> mine s p \<and> client_inv cl \<and> cphase cl = Lost \<and> got s c = []
     \<and> displayed (got s) (mine s p) cl None)"
| "stage_ok s p Over = True"

definition system_ok :: "system \<Rightarrow> bool" where
  "system_ok s \<longleftrightarrow> conns_ok s \<and> flows_ok s \<and> hub_ok s \<and> (\<forall>p. stage_ok s p (stage_of p s))"

lemma stage_ok_cong:
  assumes "stage_ok s p st" and "mine s p \<subseteq> mine s' p" and "\<And>c. c \<in> mine s p \<Longrightarrow> got s' c = got s c"
  shows "stage_ok s' p st"
proof -
  have d: "displayed (got s') (mine s' p) cl live" if "displayed (got s) (mine s p) cl live" "set_option live \<subseteq> mine s p" for cl live
    using that assms(2,3) by (intro displayed_cong [OF that(1)]) auto
  show ?thesis
    using assms by (cases st) (auto intro!: d split: if_splits)
qed

lemma custody_cong:
  assumes "custody A u T d" and "\<And>c. c \<in> A \<Longrightarrow> u' c = u c"
  shows "custody A u' T d"
proof -
  have "c \<in> A" if "s \<in> set (all_tasks d)" "c \<in> seen s" for s c
  proof -
    have "owners c (all_tasks d) \<noteq> 0" using that by (auto simp: owners_zero)
    with assms(1) show ?thesis by (force simp: custody_def given_def split: if_splits)
  qed
  moreover have "c \<in> A" if "dphase d = Reading c" for c
    using assms(1) that by (simp add: custody_def given_def)
  ultimately have "\<forall>s \<in> set (all_tasks d). task_ok u' T d s" "\<And>c. dphase d = Reading c \<Longrightarrow> u' c = u c"
    using assms unfolding custody_def by (auto simp: task_ok_def entrusted_def)
  with assms(1) show ?thesis unfolding custody_def by simp
qed

lemma channel_ok_prefix_mono:
  "prefix fs gs \<Longrightarrow> (\<forall>f \<in> set fs. fits f) \<longrightarrow> channel_ok fs ch \<Longrightarrow> (\<forall>f \<in> set gs. fits f) \<longrightarrow> channel_ok gs ch"
  by (auto simp: prefix_def channel_ok_post)

lemma user_put_process [simp]:
  "puid ((procs s)[p := (procs s ! p)\<lparr>stage := st\<rparr>] ! q) = puid (procs s ! q)"
  by (cases "p < length (procs s)"; cases "p = q") (auto simp: list_update_beyond)

lemma stage_of_put [simp]:
  "stage_of q (put_process p st s) = (if q = p \<and> p < length (procs s) then st else stage_of q s)"
  by (simp add: stage_of_def)

section \<open>Every move keeps it\<close>

lemma system_okD:
  assumes "system_ok s"
  shows "conns_ok s" "flows_ok s" "hub_ok s" "stage_ok s p (stage_of p s)"
  using assms by (simp_all add: system_ok_def)

lemma channel_ok_next:
  assumes "(\<forall>f \<in> set fs. fits f) \<longrightarrow> channel_ok fs ch" and "w = ch \<or> w = take_frame ch"
  shows "(\<forall>f \<in> set fs. fits f) \<longrightarrow> channel_ok fs w"
  using assms channel_ok_take by auto

text \<open>A step of the daemon or of a task.\<close>

lemma hub_move:
  assumes ok: "system_ok s" and s': "s' = s\<lparr>hub := d', backlog := b, ups := w\<rparr>"
    and "custody (reached s') (user s) (\<lambda>c. taken (w c)) d'"
    and out: "\<And>c. prefix (outbox c (hub s)) (outbox c d')"
    and "distinct b" "set b \<subseteq> set (backlog s)" and w: "\<And>c. w c = ups s c \<or> w c = take_frame (ups s c)"
  shows "system_ok s'"
proof -
  have "conns_ok s'" using system_okD(1) [OF ok] assms(5,6) by (auto simp: conns_ok_def s')
  moreover have "flows_ok s'"
  proof -
    have "(\<forall>f \<in> set (posted s c). fits f) \<longrightarrow> channel_ok (posted s c) (w c)"
      "(\<forall>f \<in> set (outbox c d'). fits f) \<longrightarrow> channel_ok (outbox c d') (downs s c)" for c
    proof -
      note f = system_okD(2) [OF ok, unfolded flows_ok_def, THEN spec, of c]
      show "(\<forall>f \<in> set (posted s c). fits f) \<longrightarrow> channel_ok (posted s c) (w c)"
        by (rule channel_ok_next [OF f [THEN conjunct1] w])
      show "(\<forall>f \<in> set (outbox c d'). fits f) \<longrightarrow> channel_ok (outbox c d') (downs s c)"
        by (rule channel_ok_prefix_mono [OF out f [THEN conjunct2]])
    qed
    then show ?thesis by (simp add: flows_ok_def s')
  qed
  moreover have "hub_ok s'" using assms(3) by (simp add: hub_ok_def s')
  moreover have "stage_ok s' p (stage_of p s')" for p
  proof -
    have "stage_of p s' = stage_of p s" by (simp add: stage_of_def s')
    then show ?thesis using stage_ok_cong [OF system_okD(4) [OF ok, of p], of s'] by (simp add: s' mine_def)
  qed
  ultimately show ?thesis by (simp add: system_ok_def)
qed

lemma reached_simps [simp]:
  "reached (tell e s) = reached s" "reached (take_up c s) = reached s" "reached (put_process p st s) = reached s"
  "reached (post c fs s) = reached s" "reached (take_down c s) = reached s"
  by (simp_all add: reached_def post_def)

lemma quiet_move:
  assumes "system_ok s" and "\<not> framed_event e" and "accepted_conns e = []"
  shows "system_ok (tell e s)"
proof (rule hub_move [OF assms(1), where d' = "daemon_step (hub s) e" and b = "backlog s" and w = "ups s"])
  have c: "custody (reached s) (user s) (heard s) (hub s)" using system_okD(3) [OF assms(1)] by (simp add: hub_ok_def)
  show "custody (reached (tell e s)) (user s) (heard s) (daemon_step (hub s) e)"
    using custody_quiet [OF c assms(2,3)] by simp
  show "prefix (outbox x (hub s)) (outbox x (daemon_step (hub s) e))" for x
    by (rule outbox_quiet [OF c custody_quiet [OF c assms(2,3)] assms(2)])
qed (use system_okD(1) [OF assms(1)] in \<open>simp_all add: conns_ok_def\<close>)

lemma accept_move:
  assumes "system_ok s" and "backlog s = c # cs" and "cred = Inr (user s c) \<or> (\<exists>e. cred = Inl e)"
  shows "system_ok (tell (AcceptConn (Inr c) cred) (s\<lparr>backlog := cs\<rparr>))" (is "system_ok ?s'")
proof (rule hub_move [OF assms(1), where d' = "daemon_step (hub s) (AcceptConn (Inr c) cred)" and b = cs and w = "ups s"])
  note k = system_okD(1) [OF assms(1), unfolded conns_ok_def]
  have c: "custody (reached s) (user s) (heard s) (hub s)" using system_okD(3) [OF assms(1)] by (simp add: hub_ok_def)
  have a: "reached ?s' = insert c (reached s)" "c \<notin> reached s"
    using k assms(2) by (auto simp: reached_def)
  from custody_accept [OF c a(2) assms(3)]
  show n: "custody (reached ?s') (user s) (heard s) (daemon_step (hub s) (AcceptConn (Inr c) cred))"
    by (simp only: a(1))
  show "prefix (outbox x (hub s)) (outbox x (daemon_step (hub s) (AcceptConn (Inr c) cred)))" for x
    by (rule outbox_quiet [OF c n]) simp
qed (use system_okD(1) [OF assms(1)] assms(2) in \<open>auto simp: conns_ok_def\<close>)

lemma taken_at:
  assumes "next_frame (ups s c) = Some f"
  shows "(\<lambda>x. taken (((ups s)(c := take_frame (ups s c))) x)) = (heard s)(c := heard s c @ [f])"
  using taken_take_frame [OF assms] by auto

lemma request_move:
  assumes "system_ok s" and "dphase (hub s) = Reading c" and f: "next_frame (ups s c) = Some f"
    and "list_all (\<lambda>(i, sys, ev). frameless ev) during"
  shows "system_ok (tell (ControlFrame (Some (Inr f)) calls during) (take_up c s))"
proof (rule hub_move [OF assms(1), where d' = "daemon_step (hub s) (ControlFrame (Some (Inr f)) calls during)"
      and b = "backlog s" and w = "(ups s)(c := take_frame (ups s c))"])
  have k: "custody (reached s) (user s) (heard s) (hub s)" using system_okD(3) [OF assms(1)] by (simp add: hub_ok_def)
  have q: "quietly_during during" using assms(4) by (auto simp: list_all_iff)
  show "custody (reached (tell (ControlFrame (Some (Inr f)) calls during) (take_up c s))) (user s)
      (\<lambda>x. taken (((ups s)(c := take_frame (ups s c))) x)) (daemon_step (hub s) (ControlFrame (Some (Inr f)) calls during))"
    unfolding taken_at [OF f] using custody_request [OF k assms(2) q refl] by (simp add: reached_def)
  show "prefix (outbox x (hub s)) (outbox x (daemon_step (hub s) (ControlFrame (Some (Inr f)) calls during)))" for x
    by (rule outbox_request [OF k assms(2) q refl])
qed (use system_okD(1) [OF assms(1)] in \<open>simp_all add: conns_ok_def\<close>)

lemma task_move:
  assumes "system_ok s" and m: "map_of (sessions (hub s)) i = Some st" "reading_conn (phase (task st)) = Some c"
    and f: "next_frame (ups s c) = Some f" and run: "\<forall>r. dphase (hub s) \<noteq> Stopped r"
  shows "system_ok (tell (TaskEvent i (sys, task_event (phase (task st)) f)) (take_up c s))"
proof (rule hub_move [OF assms(1), where d' = "daemon_step (hub s) (TaskEvent i (sys, task_event (phase (task st)) f))"
      and b = "backlog s" and w = "(ups s)(c := take_frame (ups s c))"])
  have k: "custody (reached s) (user s) (heard s) (hub s)" using system_okD(3) [OF assms(1)] by (simp add: hub_ok_def)
  show "custody (reached (tell (TaskEvent i (sys, task_event (phase (task st)) f)) (take_up c s))) (user s)
      (\<lambda>x. taken (((ups s)(c := take_frame (ups s c))) x)) (daemon_step (hub s) (TaskEvent i (sys, task_event (phase (task st)) f)))"
    unfolding taken_at [OF f] using custody_frame [OF k m run refl] by (simp add: reached_def)
  show "prefix (outbox x (hub s)) (outbox x (daemon_step (hub s) (TaskEvent i (sys, task_event (phase (task st)) f))))" for x
    by (rule outbox_frame [OF k m run refl])
qed (use system_okD(1) [OF assms(1)] in \<open>simp_all add: conns_ok_def\<close>)

text \<open>Bytes arrive.\<close>

lemma taken_arrive [simp]: "taken (arrive fs n ch) = taken ch"
  by (simp add: arrive_def Let_def)

lemma taken_same: "(\<lambda>x. taken ((w(c := arrive fs n (w c))) x)) = (\<lambda>x. taken (w x))"
  by auto

lemma arrive_move:
  assumes "system_ok s" and "s' = system_step s (ArriveUp c n) \<or> s' = system_step s (ArriveDown c n)"
  shows "system_ok s'"
proof -
  have t: "got s' = got s" "heard s' = heard s" "user s' = user s" "reached s' = reached s" "mine s' = mine s"
    "hub s' = hub s" "stage_of p s' = stage_of p s" for p
    using assms(2) by (auto simp: reached_def mine_def stage_of_def)
  have "conns_ok s'" using system_okD(1) [OF assms(1)] t(1) assms(2) unfolding conns_ok_def by (elim disjE) simp_all
  moreover have "posted s' = posted s" "hub s' = hub s"
    "\<And>x. ups s' x = ups s x \<or> (\<exists>n. ups s' x = arrive (posted s x) n (ups s x))"
    "\<And>x. downs s' x = downs s x \<or> (\<exists>n. downs s' x = arrive (outbox x (hub s)) n (downs s x))"
    using assms(2) by (elim disjE; force)+
  then have "flows_ok s'"
    using system_okD(2) [OF assms(1)] unfolding flows_ok_def
    by (intro allI conjI impI) (metis channel_ok_arrive, metis channel_ok_arrive)
  moreover have "hub_ok s'" using system_okD(3) [OF assms(1)] unfolding hub_ok_def t(2-4,6) .
  moreover have "stage_ok s' p (stage_of p s')" for p
    unfolding t(7) by (rule stage_ok_cong [OF system_okD(4) [OF assms(1)]]) (simp_all only: t(5) order_refl fun_cong [OF t(1)])
  ultimately show ?thesis by (simp add: system_ok_def)
qed

text \<open>A process moves: it takes at most one frame from connection \<open>c\<close> of its own, and posts on it.\<close>

lemma process_move:
  assumes ok: "system_ok s" and c: "c \<in> mine s p" and w: "w = downs s c \<or> w = take_frame (downs s c)"
    and s': "s' = put_process p st (post c fs (s\<lparr>downs := (downs s)(c := w)\<rparr>))"
    and st: "p < length (procs s) \<Longrightarrow> stage_ok s' p st"
  shows "system_ok s'"
proof -
  note k = system_okD [OF ok]
  have m: "mine s' = mine s" "reached s' = reached s" "user s' = user s" "heard s' = heard s" "hub s' = hub s"
    by (auto simp: s' mine_def reached_def post_def)
  have g: "got s' x = got s x" if "x \<noteq> c" for x using that by (simp add: s' post_def)
  have "conns_ok s'" using k(1) c by (auto simp: conns_ok_def s' post_def mine_def)
  moreover have "flows_ok s'"
    unfolding flows_ok_def
  proof (intro allI conjI)
    fix x
    note f = k(2) [unfolded flows_ok_def, THEN spec, of x]
    have "prefix (posted s x) (posted s' x)" "ups s' x = ups s x" by (simp_all add: s' post_def)
    with f [THEN conjunct1] show "(\<forall>f \<in> set (posted s' x). fits f) \<longrightarrow> channel_ok (posted s' x) (ups s' x)"
      using channel_ok_prefix_mono by metis
    have "downs s' x = downs s x \<or> downs s' x = take_frame (downs s x)" using w by (auto simp: s' post_def)
    with f [THEN conjunct2] show "(\<forall>f \<in> set (outbox x (hub s')). fits f) \<longrightarrow> channel_ok (outbox x (hub s')) (downs s' x)"
      unfolding m by (rule channel_ok_next)
  qed
  moreover have "hub_ok s'" using k(3) unfolding hub_ok_def m .
  moreover have "stage_ok s' q (stage_of q s')" for q
  proof (cases "q = p")
    case True
    have "stage_of p s' = (if p < length (procs s) then st else Over)" by (simp add: s' post_def stage_of_def)
    with st True show ?thesis by simp
  next
    case False
    have "stage_of q s' = stage_of q s" using False by (simp add: s' post_def stage_of_def)
    moreover have "x \<noteq> c" if "x \<in> mine s q" for x using that c False by (auto simp: mine_def)
    ultimately show ?thesis using stage_ok_cong [OF k(4) [of q], of s'] g m(1) by simp
  qed
  ultimately show ?thesis by (simp add: system_ok_def)
qed

text \<open>A process opens a connection.\<close>

lemma dial_move:
  assumes ok: "system_ok s" and s': "s' = (dial p req s)\<lparr>procs := ps\<rparr>"
    and ps: "length (procs s) \<le> length ps" "p < length ps" "\<And>q. q < length (procs s) \<Longrightarrow> puid (ps ! q) = puid (procs s ! q)"
    and other: "\<And>q. q \<noteq> p \<Longrightarrow> stage_of q s' = stage_of q s" and st: "stage_ok s' p (stage (ps ! p))"
  shows "system_ok s'"
proof -
  note k = system_okD [OF ok]
  note cn = k(1) [unfolded conns_ok_def]
  have r: "reached s' = reached s" "heard s' = heard s" "hub s' = hub s" "got s' = got s"
    by (auto simp: s' reached_def dial_def)
  have "conns_ok s'" using cn ps(1,2) by (fastforce simp: conns_ok_def s' dial_def less_Suc_eq)
  moreover have "flows_ok s'"
    unfolding flows_ok_def
  proof (intro allI conjI)
    fix x
    note f = k(2) [unfolded flows_ok_def, THEN spec, of x]
    have "posted s (next_conn s) = []" using cn by simp
    then have "prefix (posted s x) (posted s' x)" "ups s' x = ups s x" by (simp_all add: s' dial_def)
    with f [THEN conjunct1] show "(\<forall>f \<in> set (posted s' x). fits f) \<longrightarrow> channel_ok (posted s' x) (ups s' x)"
      using channel_ok_prefix_mono by metis
    show "(\<forall>f \<in> set (outbox x (hub s')). fits f) \<longrightarrow> channel_ok (outbox x (hub s')) (downs s' x)"
      using f [THEN conjunct2] by (simp add: s' dial_def)
  qed
  moreover have "hub_ok s'"
    unfolding hub_ok_def r
  proof (rule custody_cong)
    show "custody (reached s) (user s) (heard s) (hub s)" using k(3) by (simp add: hub_ok_def)
    fix x assume "x \<in> reached s"
    then have "x < next_conn s" by (simp add: reached_def)
    with cn have "dialer s x < length (procs s)" by simp
    with \<open>x < next_conn s\<close> show "user s' x = user s x" using ps(3) by (simp add: s' dial_def)
  qed
  moreover have "stage_ok s' q (stage_of q s')" for q
  proof (cases "q = p")
    case True
    with st ps(2) show ?thesis by (simp add: stage_of_def s')
  next
    case False
    have "mine s q \<subseteq> mine s' q" by (auto simp: mine_def s' dial_def)
    from stage_ok_cong [OF k(4) [of q] this] show ?thesis using r(4) other [OF False] by (simp add: fun_cong [OF r(4)])
  qed
  ultimately show ?thesis by (simp add: system_ok_def)
qed

lemma start_move: "system_ok s \<Longrightarrow> system_ok (system_step s (Start u cmd env))"
proof (cases "request_of cmd")
  case (Some req)
  assume ok: "system_ok s"
  note cn = system_okD(1) [OF ok, unfolded conns_ok_def]
  show ?thesis
    by (rule dial_move [OF ok, where p = "length (procs s)" and req = req
          and ps = "procs s @ [\<lparr>puid = u, pcmd = cmd, penv = env, stage = Waiting (next_conn s)\<rparr>]"])
      (use Some cn in \<open>auto simp: stage_of_def mine_def dial_def nth_append\<close>)
qed simp

lemma redial_move: "system_ok s \<Longrightarrow> system_ok (system_step s (Redial p))"
proof -
  assume ok: "system_ok s"
  note cn = system_okD(1) [OF ok, unfolded conns_ok_def]
  have "system_ok (put_process p (Redialing cl (next_conn s)) (dial p (Attach (session_name cl)) s))"
    if st: "stage_of p s = Working cl c" and l: "cphase cl = Lost" for cl c
  proof (rule dial_move [OF ok, where p = p and req = "Attach (session_name cl)"
        and ps = "(procs s)[p := (procs s ! p)\<lparr>stage := Redialing cl (next_conn s)\<rparr>]"])
    let ?s' = "put_process p (Redialing cl (next_conn s)) (dial p (Attach (session_name cl)) s)"
    have p: "p < length (procs s)" using st by (auto simp: stage_of_def split: if_splits)
    then show "p < length ((procs s)[p := (procs s ! p)\<lparr>stage := Redialing cl (next_conn s)\<rparr>])" by simp
    have k: "client_inv cl" "displayed (got s) (mine s p) cl None"
      using system_okD(4) [OF ok, of p] st l by simp_all
    have "displayed (got s) (mine ?s' p) cl None"
      by (rule displayed_cong [OF k(2)]) (auto simp: mine_def dial_def)
    then show "stage_ok ?s' p (stage ((procs s)[p := (procs s ! p)\<lparr>stage := Redialing cl (next_conn s)\<rparr>] ! p))"
      using p k(1) l cn by (simp add: mine_def dial_def)
  qed (simp_all add: dial_def stage_of_def)
  then show ?thesis using ok by (auto split: stage.split)
qed
lemma post_nothing: "put_process p st s = put_process p st (post c [] (s\<lparr>downs := (downs s)(c := downs s c)\<rparr>))"
  by (simp add: post_def)

lemma got_taken:
  assumes "next_frame (downs s c) = Some f"
  shows "got (put_process p st (post c fs (take_down c s))) = (got s)(c := got s c @ [f])"
  using taken_take_frame [OF assms] by (auto simp: post_def)

lemma mine_put [simp]: "mine (put_process p st (post c fs (s\<lparr>downs := w\<rparr>))) q = mine s q"
  by (simp add: mine_def post_def)

lemma response_no_data:
  assumes "response_of ctl p (Some (Inr f)) = Inr (RunClient session redraw env no_escape)"
  shows "\<not> is_data f"
proof
  assume "is_data f"
  then obtain d where "f = Data d" by (auto simp: is_data_def)
  with assms show False
    by (cases "pcmd p") (simp_all add: response_of_def Let_def new_session_def list_sessions_def kill_session_def
        kill_server_def daemon_request_def after_send_def)
qed

lemma answer_move: "system_ok s \<Longrightarrow> system_ok (system_step s (GetAnswer p io))"
proof -
  assume ok: "system_ok s"
  have "system_ok (case response_of (ctl_path (hub s)) (procs s ! p) (Some (Inr f)) of
        Inr (RunClient session redraw env no_escape) \<Rightarrow>
          (let cl = client_start io session redraw env no_escape
           in put_process p (Working cl c) (post c (tried (clog cl)) (take_down c s)))
      | _ \<Rightarrow> put_process p Over (take_down c s))"
    if st: "stage_of p s = Waiting c" and f: "next_frame (downs s c) = Some f" for c f
  proof -
    have c: "c \<in> mine s p" "got s c = []" using system_okD(4) [OF ok, of p] st by simp_all
    have gone: "system_ok (put_process p Over (take_down c s))"
      by (rule process_move [OF ok c(1), where w = "take_frame (downs s c)" and st = Over and fs = "[]"]) (simp_all add: post_def)
    have run: "system_ok (put_process p (Working cl c) (post c (tried (clog cl)) (take_down c s)))"
      if "\<not> is_data f" and cl: "cl = client_start io session redraw env no_escape" for cl session redraw env no_escape
    proof (rule process_move [OF ok c(1) disjI2 [OF refl] refl])
      have d: "data_in (((got s)(c := got s c @ [f])) c) = []"
        using that(1) c(2) by (cases f) (simp_all add: data_in_def is_data_def)
      show "stage_ok (put_process p (Working cl c) (post c (tried (clog cl)) (take_down c s))) p (Working cl c)"
        using shown_start [where D = "(got s)(c := got s c @ [f])" and c = c, OF cl d] c(1)
        unfolding stage_ok.simps got_taken [OF f] mine_put by blast
    qed
    from gone run response_no_data show ?thesis by (auto simp: Let_def split: sum.split outcome.split)
  qed
  then show ?thesis using ok by (auto split: stage.split option.split)
qed

lemma client_move:
  assumes ok: "system_ok s" and c: "c \<in> mine s p" and w: "w = downs s c \<or> w = take_frame (downs s c)"
    and D: "(\<lambda>x. taken (((downs s)(c := w)) x)) = D"
    and cl: "client_inv (client_step cl e) \<and>
      displayed D (mine s p) (client_step cl e) (if cphase (client_step cl e) = Relaying then Some c else None)"
  shows "system_ok (advance p cl c k e (s\<lparr>downs := (downs s)(c := w)\<rparr>))"
  unfolding advance_def Let_def
proof (rule process_move [OF ok c w refl])
  let ?s' = "put_process p (Working (client_step cl e) c)
    (post c (drop k (new_frames cl (client_step cl e))) (s\<lparr>downs := (downs s)(c := w)\<rparr>))"
  have "got ?s' = D" using D by (simp add: post_def)
  then show "stage_ok ?s' p (Working (client_step cl e) c)"
    using c cl unfolding stage_ok.simps mine_put by simp
qed

lemma taken_down: "next_frame (downs s c) = Some f \<Longrightarrow>
    (\<lambda>x. taken (((downs s)(c := take_frame (downs s c))) x)) = (got s)(c := got s c @ [f])"
  using taken_take_frame by fastforce

lemma advance_same: "advance p cl c k e s = advance p cl c k e (s\<lparr>downs := (downs s)(c := downs s c)\<rparr>)"
  by simp

lemma read_move: "system_ok s \<Longrightarrow> system_ok (system_step s (ClientReads p io))"
proof -
  assume ok: "system_ok s"
  have "system_ok (advance p cl c 0 (io, ServerFrame (Some (Inr f))) (take_down c s))"
    if st: "stage_of p s = Working cl c" and f: "next_frame (downs s c) = Some f" and r: "cphase cl = Relaying" for cl c f
  proof (rule client_move [OF ok _ disjI2 [OF refl] taken_down [OF f]])
    show "c \<in> mine s p" using system_okD(4) [OF ok, of p] st by simp
    show "client_inv (client_step cl (io, ServerFrame (Some (Inr f)))) \<and>
        displayed ((got s)(c := got s c @ [f])) (mine s p) (client_step cl (io, ServerFrame (Some (Inr f))))
         (if cphase (client_step cl (io, ServerFrame (Some (Inr f)))) = Relaying then Some c else None)"
      by (rule shown_read [OF _ r _ _ refl]) (use system_okD(4) [OF ok, of p] st r in simp_all)
  qed
  then show ?thesis using ok by (auto split: stage.split option.split)
qed

lemma own_move: "system_ok s \<Longrightarrow> system_ok (system_step s (ClientMoves p io ev))"
proof -
  assume ok: "system_ok s"
  have "system_ok (advance p cl c 0 (io, ev) s)"
    if st: "stage_of p s = Working cl c" and f: "client_frameless ev" for cl c
    unfolding advance_same [of p cl c 0 "(io, ev)" s]
    by (rule client_move [OF ok _ disjI1 [OF refl] _ shown_move [OF _ _ f refl]])
      (use system_okD(4) [OF ok, of p] st in auto)
  then show ?thesis using ok by (auto split: stage.split)
qed

lemma conclude_move:
  assumes ok: "system_ok s"
  shows "system_ok (system_step s (Conclude p io peek))" "system_ok (system_step s (ConcludeBadly p io peek sent e))"
proof -
  have k: "client_inv cl \<and> cphase cl = Lost \<and> c \<in> mine s p \<and> got s c = [] \<and> displayed (got s) (mine s p) cl None"
    if "stage_of p s = Redialing cl c" for cl c
    using system_okD(4) [OF ok, of p] that by simp
  have "system_ok (advance p cl c 1 (io, Attempt a) (take_down c s))"
    if st: "stage_of p s = Redialing cl c" and f: "next_frame (downs s c) = Some f" and a: "answered a = Some (Inr f)" for cl c f a
    by (rule client_move [OF ok _ disjI2 [OF refl] taken_down [OF f] shown_attempt [where a = a, OF _ _ _ _ refl]])
      (use k [OF st] a in simp_all)
  then show "system_ok (system_step s (Conclude p io peek))" using ok by (auto split: stage.split option.split)
  have "system_ok (advance p cl c 1 (io, Attempt a) s)"
    if st: "stage_of p s = Redialing cl c" and a: "answered a = map_option Inl e" for cl c a
  proof -
    have s: "client_inv (client_step cl (io, Attempt a)) \<and> displayed ((got s)(c := got s c @ [])) (mine s p)
        (client_step cl (io, Attempt a)) (if cphase (client_step cl (io, Attempt a)) = Relaying then Some c else None)"
      by (rule shown_attempt [where a = a, OF _ _ _ _ refl]) (use k [OF st] a in \<open>auto split: option.split\<close>)
    show ?thesis
      unfolding advance_same [of p cl c 1 "(io, Attempt a)" s]
      by (rule client_move [OF ok _ disjI1 [OF refl] _ s]) (use k [OF st] in auto)
  qed
  then show "system_ok (system_step s (ConcludeBadly p io peek sent e))" using ok by (auto split: stage.split)
qed

lemma arrive_moves:
  "system_ok s \<Longrightarrow> system_ok (system_step s (ArriveUp c n))" "system_ok s \<Longrightarrow> system_ok (system_step s (ArriveDown c n))"
  using arrive_move by blast+

lemma system_ok_step: "system_ok s \<Longrightarrow> system_ok (system_step s m)"
proof (cases m)
  case (AcceptNext err)
  assume ok: "system_ok s"
  have "system_ok (tell (AcceptConn (Inr c) (case err of None \<Rightarrow> Inr (user s c) | Some e \<Rightarrow> Inl (OsError e)))
      (s\<lparr>backlog := cs\<rparr>))" if "backlog s = c # cs" for c cs
    by (rule accept_move [OF ok that]) (simp split: option.split)
  then show ?thesis using ok AcceptNext by (auto split: list.split simp del: daemon_step.simps)
next
  case (ReadRequest calls during)
  assume ok: "system_ok s"
  from ok request_move [OF ok] show ?thesis
    unfolding ReadRequest by (simp del: daemon_step.simps split: daemon_phase.split option.split)
next
  case (TaskReads i sys)
  assume ok: "system_ok s"
  from ok task_move [OF ok] show ?thesis
    unfolding TaskReads by (auto simp del: daemon_step.simps split: daemon_phase.split option.split)
next
  case (GiveUp p)
  assume ok: "system_ok s"
  have "system_ok (put_process p Over s)" if p: "p < length (procs s)"
  proof -
    let ?s' = "put_process p Over s"
    have "stage_of q ?s' = (if q = p then Over else stage_of q s)" for q using p by simp
    moreover have "stage_ok ?s' q (stage_of q s)" for q
      by (rule stage_ok_cong [OF system_okD(4) [OF ok]]) (simp_all add: mine_def)
    moreover have "conns_ok ?s'" "flows_ok ?s'" "hub_ok ?s'"
      using system_okD(1-3) [OF ok] by (simp_all add: conns_ok_def flows_ok_def hub_ok_def reached_def)
    ultimately show ?thesis by (simp add: system_ok_def)
  qed
  with ok GiveUp show ?thesis by simp
next
  case (LoseRequest e)
  assume "system_ok s"
  then have "system_ok (tell (ControlFrame (map_option Inl e) pty_ready []) s)"
    by (rule quiet_move) (cases e; simp)+
  with LoseRequest show ?thesis by (simp del: daemon_step.simps)
next
  case (TaskMoves i sys ev)
  assume ok: "system_ok s"
  from ok quiet_move [OF ok, of "TaskEvent i (sys, ev)"] TaskMoves show ?thesis by (simp del: daemon_step.simps)
next
  case (AcceptFails e)
  assume ok: "system_ok s"
  from quiet_move [OF ok, of "AcceptConn (Inl e) (Inr 0)"] AcceptFails show ?thesis by (simp del: daemon_step.simps)
next
  case TellToStop
  assume ok: "system_ok s"
  from quiet_move [OF ok, of StopSignal] TellToStop show ?thesis by (simp del: daemon_step.simps)
qed (simp_all only: arrive_moves start_move redial_move answer_move read_move own_move conclude_move)

interpretation whole_system: step_machine system_step system_ok
  by unfold_locales (rule system_ok_step)

abbreviation start_hub :: "world \<Rightarrow> path \<Rightarrow> bool \<Rightarrow> io_error option \<Rightarrow> system" where
  "start_hub w ctl fd sg \<equiv> new_system (fst (start_daemon w ctl fd sg))"

lemma system_ok_start: "system_ok (start_hub w ctl fd sg)"
proof -
  let ?s = "start_hub w ctl fd sg"
  have "conns_ok ?s" by (simp add: conns_ok_def new_system_def idle_channel_def)
  moreover have "flows_ok ?s" by (simp add: flows_ok_def new_system_def)
  moreover have "hub_ok ?s"
    using custody_start [OF refl, of "user ?s" _ w ctl fd sg] by (simp add: hub_ok_def new_system_def reached_def idle_channel_def)
  ultimately show ?thesis by (simp add: system_ok_def stage_of_def new_system_def)
qed

lemma system_ok_reachable: "system_ok (run_system (start_hub w ctl fd sg) ms)"
  by (rule whole_system.run_inv [OF system_ok_start])

text \<open>The daemon keeps its user.\<close>

lemma uid_start: "uid (disk (fst (start_daemon w ctl fd sg))) = uid w"
proof -
  have dir: "uid w2 = uid w1" if "secure_create_dir_all w1 p = (r, w2)" for w1 w2 p r
    using fresh_dirs_only_uid [OF secure_create_frame, of w1 p] that by simp
  have bound: "uid w2 = uid w1" if "bind_unix_listener w1 p = (r, w2)" for w1 w2 p r
    using only_changes_fields [OF bind_unix_listener_spec(1) [of p w1]] that by simp
  have written: "uid w2 = uid w1" if "write_file w1 p = Inr w2" for w1 w2 p
    using that by (auto simp: write_file_def split: option.splits node.splits if_splits)
  have "disk (blank_daemon v ctl) = v" for v by (simp add: blank_daemon_def)
  then show ?thesis
    by (auto simp: start_daemon_def Let_def next_round_fields dest!: dir bound written
        split: option.split prod.split sum.split)
qed

lemma uid_hub_step: "uid (disk (hub (system_step s m))) = uid (disk (hub s))"
  by (cases m) (auto simp del: daemon_step.simps simp: Let_def dial_def post_def advance_def
      split: option.split list.split daemon_phase.split stage.split sum.split outcome.split)

lemma uid_reachable: "uid (disk (hub (run_system (start_hub w ctl fd sg) ms))) = uid w"
proof -
  have "uid (disk (hub (run_system s ms))) = uid (disk (hub s))" for s
    by (induction ms arbitrary: s) (simp_all del: system_step.simps add: uid_hub_step)
  then show ?thesis by (simp add: new_system_def uid_start)
qed

end
