(* ===== verification/System_Run.thy ===== *)
theory System_Run
  imports System
begin
text \<open>
  One run of the whole system, computed step by step: a user starts \<open>gritty new\<close>, types \<open>ls\<close>, and the
  shell's output comes back, with the bytes arriving in pieces.
\<close>

declare hand_over_def [simp del] drop_senders_def [simp del] abort_task_def [simp del]

definition sample_moves :: "move list" where
  "sample_moves =
     [Start 1000 (NewSessionCmd None False) (\<lambda>x. None), ArriveUp 0 100, AcceptNext None, ReadRequest pty_ready [],
      TaskMoves 0 quiet_calls ClientRecv, ArriveDown 0 100, GetAnswer 0 (calm_at 0), ArriveUp 0 100,
      TaskReads 0 quiet_calls, ClientMoves 0 (calm_at 1) (StdinReady None (Inr [0x6C, 0x73])), ArriveUp 0 3,
      ArriveUp 0 100, TaskReads 0 quiet_calls, TaskMoves 0 quiet_calls (PtyReadable None (Inr [0x6F, 0x6B])),
      ArriveDown 0 6, ArriveDown 0 100, ClientReads 0 (calm_at 2)]"

text \<open>Where it ends.\<close>

definition sample_task :: session where
  "sample_task =
     \<lparr>phase = Relay 0, client_rx = [], senders_gone = False,
      metadata_slot = Some \<lparr>pty_path = ''/dev/pts/3'', shell_pid = 42, created_at = 1000, attached = True, last_heartbeat = 0\<rparr>,
      pgid = Some 42, tty_name = ''/dev/pts/3'', finished = False,
      effects =
        [SpawnShell \<lparr>program = ''/bin/bash'', args = [''-l''], current_dir = Some ''/root'', env_vars = []\<rparr>,
         PtyWrite [0x6C, 0x73], SendFrame 0 (Data [0x6F, 0x6B])]\<rparr>"

definition sample_relay :: client where
  "sample_relay =
     \<lparr>cphase = Relaying, session_name = ''0'', current_env = [], current_redraw = False,
      escape = Some \<lparr>esc_state = Normal\<rparr>, last_pong = 0, send_results = [], print_results = [],
      clog = [Sent (Resize 80 24), Sent (Data [0x6C, 0x73]), Printed [0x6F, 0x6B]]\<rparr>"

definition sample_system :: system where
  "sample_system =
     \<lparr>hub = fresh_daemon\<lparr>sessions := [(0, \<lparr>task = sample_task, sname = None\<rparr>)], next_id := 1,
              daemon_log := [Reply 0 (SessionCreated ''0'')]\<rparr>,
      procs = [\<lparr>puid = 1000, pcmd = NewSessionCmd None False, penv = (\<lambda>x. None), stage = Working sample_relay 0\<rparr>],
      backlog = [], next_conn = 1, dialer = (\<lambda>c. 0)(0 := 0),
      posted = (\<lambda>c. [])(0 := [NewSession [], Resize 80 24, Data [0x6C, 0x73]]),
      ups = (\<lambda>c. idle_channel)
        (0 := \<lparr>arrived = 21, buffer = [], taken = [NewSession [], Resize 80 24, Data [0x6C, 0x73]]\<rparr>),
      downs = (\<lambda>c. idle_channel)(0 := \<lparr>arrived = 13, buffer = [], taken = [SessionCreated ''0'', Data [0x6F, 0x6B]]\<rparr>)\<rparr>"

lemma sample_strings:
  "show_nat 0 = ''0''" "(of_char (CHR ''0'') :: 8 word) = 0x30" "from_utf8 [] = Inr []" "from_utf8 [0x30] = Inr ''0''"
proof -
  show z: "show_nat 0 = ''0''" by code_simp
  show c: "(of_char (CHR ''0'') :: 8 word) = 0x30" by simp
  show "from_utf8 [] = Inr []" by (simp add: from_utf8_Inr)
  have "as_bytes (show_u32 0) = [0x30]" by (simp add: show_u32_def as_bytes_def z)
  then show "from_utf8 [0x30] = Inr ''0''"
    using from_utf8_Inr [of "[0x30]" "show_u32 0"] rust_str_show(1) [of 0] by (simp add: show_u32_def z)
qed

lemmas system_eval = new_system_def dial_def post_def advance_def new_frames_def tried_def arrive_def
  idle_channel_def next_frame_def take_frame_def stage_of_def response_of_def Let_def
  outbox_def replies_to_def session_out_def all_tasks_def frames_to_def List.map_filter_def

lemmas codec_eval = put_frame_def u32_to_be_def u16_to_be_def u32_from_be_def get_u16_def u16_from_be_def decode_def
  decode_payload_def decode_string_def MAX_FRAME_SIZE_def encode_str_def encode_empty_def as_bytes_def
  show_u32_def sample_strings

lemmas daemon_eval = fresh_daemon_def blank_daemon_def verify_peer_uid_def handle_new_session_def name_taken_def
  next_round_def reap_def reap_sessions_def reaped_def forget_def insert_session_def run_task_def run_tasks_def
  update_task_def hand_off_def hand_over_def dlog_def pty_ready_start

lemmas task_eval = blank_session_def on_client_def quiet_calls_def spawn_shell_def emit_def set_attached_def
  env_of_first_frame_def shell_command_of_def on_pty_readable_def

lemmas client_eval = new_session_request_def new_session_def daemon_request_def after_send_def collect_env_vars_def
  client_start_def relay_start_def with_io_def new_client_def send_size_def send_or_lose_def clog_add_def calm_at_def
  on_stdin_def esc_process_def new_processor_def flush_data_def apply_action_def print_def

lemma sample_ran: "run_system (new_system fresh_daemon) sample_moves = sample_system"
  by (simp add: sample_moves_def sample_system_def sample_task_def sample_relay_def
      system_eval codec_eval daemon_eval task_eval client_eval)
    (simp add: eval_nat_numeral)

lemma sample_started: "run_system (new_system (fst (start_daemon sample_world sample_ctl fd None))) sample_moves = sample_system"
  using sample_ran by (simp add: sample_start fresh_daemon_def)

lemma sample_sent:
  "posted sample_system c = (if c = 0 then [NewSession [], Resize 80 24, Data [0x6C, 0x73]] else [])"
  "outbox c (hub sample_system) = (if c = 0 then [SessionCreated ''0'', Data [0x6F, 0x6B]] else [])"
  "stage_of 0 sample_system = Working sample_relay 0" "all_tasks (hub sample_system) = [sample_task]"
  "puid (procs sample_system ! dialer sample_system c) = 1000"
  by (auto simp: sample_system_def system_eval fresh_daemon_def blank_daemon_def sample_task_def)

lemma sample_fits: "\<forall>f \<in> set (posted sample_system c) \<union> set (outbox c (hub sample_system)). fits f"
  by (auto simp: sample_sent fits_def codec_eval)

lemma sample_logs: "pty_chunks (effects sample_task) = [[0x6C, 0x73]]" "clog sample_relay = [Sent (Resize 80 24), Sent (Data [0x6C, 0x73]), Printed [0x6F, 0x6B]]"
  by (simp_all add: sample_task_def sample_relay_def)

end
