(* ===== verification/System_Props.thy ===== *)
theory System_Props
  imports System_Inv System_Run
begin
text \<open>What the invariant of the system gives: who writes to a shell, and what a client shows.\<close>

declare hand_over_def [simp del] drop_senders_def [simp del] abort_task_def [simp del]

section \<open>Who writes to a shell\<close>

lemma flow_carries:
  assumes "conns_ok s" "flows_ok s" and "\<forall>f \<in> set (posted s c). fits f"
  obtains fs where "prefix fs (posted s c)" "carries fs (heard s c)"
  using assms(2,3) channel_ok_prefix unfolding flows_ok_def by metis

lemma carried_asks: "carried f = Inr g \<Longrightarrow> g = NewSession x \<or> g = Attach x \<Longrightarrow> \<exists>y. f = NewSession y \<or> f = Attach y"
  using decode_payload_canonical [of "frame_type_of f" "payload_of f" g] by (cases f) (auto simp: carried_def)

lemma carries_asks:
  assumes "asks_session gs" and "carries fs gs" and "prefix fs hs"
  shows "asks_session hs"
proof -
  obtain g x later where "gs = g # later" "g = NewSession x \<or> g = Attach x" using assms(1) by (auto simp: asks_session_def)
  moreover from this assms(2) obtain f fs' where "fs = f # fs'" "carried f = Inr g" by (auto simp: list_all2_Cons2)
  ultimately show ?thesis using assms(3) carried_asks by (fastforce simp: asks_session_def prefix_def)
qed

lemma carries_data_in:
  assumes "list_emb prefix xs (data_in gs)" and "carries fs gs" and "prefix fs hs"
  shows "list_emb prefix xs (data_in hs)"
proof -
  have "data_in gs = data_in fs" using carries_Data [OF assms(2)] by (simp add: data_in_def)
  with assms(1,3) show ?thesis by (auto simp: prefix_def intro: list_emb_prefix)
qed

text \<open>
  C1. Whatever the processes on the machine do, what reaches a shell's terminal comes, chunk by chunk,
  from \<open>Data\<close> frames that processes of the daemon's own user sent, on connections whose first frame
  asked for a session and whose first answer granted one; per connection the frames are in the
  order sent, some may be missing (a lost connection), and one may be cut short (a failing write).
\<close>

theorem only_own_processes_feed_shells:
  assumes "s = run_system (start_hub w ctl fd sg) ms" and "\<forall>c. \<forall>f \<in> set (posted s c). fits f"
    and "t \<in> set (all_tasks (hub s))"
  shows "\<exists>ws. map snd ws = pty_chunks (effects t) \<and>
    (\<forall>(c, b) \<in> set ws. c \<in> seen t \<and> user s c = uid w \<and> asks_session (posted s c)
       \<and> (\<exists>g gs. outbox c (hub s) = g # gs \<and> grants_session g)
       \<and> list_emb prefix (from_conn c ws) (data_in (posted s c)))"
proof -
  have ok: "system_ok s" "uid (disk (hub s)) = uid w"
    using system_ok_reachable uid_reachable unfolding assms(1) by blast+
  note k = system_okD [OF ok(1)]
  have cu: "custody (reached s) (user s) (heard s) (hub s)" using k(3) by (simp add: hub_ok_def)
  then have t: "fed (heard s) t" "\<forall>c \<in> seen t. entrusted (user s) (heard s) (hub s) c"
    using assms(3) by (auto simp: custody_def task_ok_def)
  obtain ws where ws: "map snd ws = pty_chunks (effects t)" "fst ` set ws \<subseteq> seen t"
      "\<And>c. list_emb prefix (from_conn c ws) (data_in (heard s c))"
    using t(1) unfolding fed_def by blast
  have "c \<in> seen t \<and> user s c = uid w \<and> asks_session (posted s c) \<and> (\<exists>g gs. outbox c (hub s) = g # gs \<and> grants_session g)
      \<and> list_emb prefix (from_conn c ws) (data_in (posted s c))" if "(c, b) \<in> set ws" for c b
  proof -
    have c: "c \<in> seen t" using that ws(2) by force
    obtain g where "grants_session g" "outbox c (hub s) = g # frames_to c (effects t)"
      by (rule outbox_owned [OF cu assms(3) c])
    moreover have "entrusted (user s) (heard s) (hub s) c" using t(2) c by blast
    moreover obtain fs where f: "prefix fs (posted s c)" "carries fs (heard s c)"
      using flow_carries [OF k(1,2)] assms(2) by blast
    ultimately show ?thesis
      using c carries_asks [OF _ f(2,1)] carries_data_in [OF ws(3) f(2,1)] ok(2) by (auto simp: entrusted_def)
  qed
  with ws(1) show ?thesis by (intro exI [of _ ws]) auto
qed

theorem only_own_processes_feed_shells_witness:
  "\<exists>ws. map snd ws = [[0x6C, 0x73]] \<and>
    (\<forall>(c, b) \<in> set ws. c \<in> seen sample_task \<and> user sample_system c = uid sample_world \<and> asks_session (posted sample_system c)
       \<and> (\<exists>g gs. outbox c (hub sample_system) = g # gs \<and> grants_session g)
       \<and> list_emb prefix (from_conn c ws) (data_in (posted sample_system c)))"
proof -
  have "\<forall>c. \<forall>f \<in> set (posted sample_system c). fits f" using sample_fits by blast
  from only_own_processes_feed_shells [OF sample_started [symmetric] this, of sample_task] show ?thesis
    unfolding sample_logs(1) sample_sent(4) by simp
qed

section \<open>What a client shows\<close>

lemma got_data_owned:
  assumes "custody A u T d" and "prefix xs (data_in gs)" and "carries fs gs" and "prefix fs (outbox c d)" and "xs \<noteq> []"
  obtains t where "t \<in> set (all_tasks d)" "c \<in> seen t" "prefix xs (data_in (frames_to c (effects t)))"
proof -
  have "data_in gs = data_in fs" using carries_Data [OF assms(3)] by (simp add: data_in_def)
  with assms(2,4) have x: "prefix xs (data_in (outbox c d))" by (auto simp: prefix_def)
  have "\<exists>t \<in> set (all_tasks d). c \<in> seen t"
  proof (rule ccontr)
    assume none: "\<not> ?thesis"
    have "session_out c (all_tasks d) = []"
      using session_out_none [OF custody_sends_own [OF assms(1)], of c] none by (simp add: owners_zero)
    moreover have "\<forall>r \<in> set (replies_to c d). \<not> is_data r" using assms(1) by (auto simp: custody_def replies_to_def)
    then have "data_in (replies_to c d) = []" by (auto simp: data_in_def is_data_def split: frame.splits)
    ultimately show False using x assms(5) by (simp add: outbox_def)
  qed
  then obtain t where t: "t \<in> set (all_tasks d)" "c \<in> seen t" by blast
  obtain g where "grants_session g" "outbox c d = g # frames_to c (effects t)" by (rule outbox_owned [OF assms(1) t])
  moreover have "data_in [g] = []" using calculation(1) by (cases g) (auto simp: data_in_def grants_session_def)
  then have "data_in (g # gs) = data_in gs" for gs using data_in_simps(2) [of "[g]" gs] by simp
  ultimately show thesis using that t x by simp
qed

text \<open>
  C3. Everything a client prints is a message of its own (\<open>[detached]\<close>, \<open>[reconnecting...]\<close>, the
  escape help, ...) or output of a session: the chunks it printed from one of its connections are,
  in order and from the first on without a gap, the \<open>Data\<close> frames that one session task sent on
  this connection.  Nothing of another process's connection appears.
\<close>

theorem clients_show_their_session:
  assumes "s = run_system (start_hub w ctl fd sg) ms" and "\<forall>c. \<forall>f \<in> set (outbox c (hub s)). fits f"
    and "stage_of p s = Working cl c0"
  shows "\<exists>ws. map snd ws = chunks_printed (clog cl) \<and> (\<forall>b. (None, b) \<in> set ws \<longrightarrow> own_message b) \<and>
    (\<forall>c b. (Some c, b) \<in> set ws \<longrightarrow> dialer s c = p \<and>
       (\<exists>t \<in> set (all_tasks (hub s)). c \<in> seen t
          \<and> prefix (from_conn (Some c) ws) (data_in (frames_to c (effects t)))))"
proof -
  have ok: "system_ok s" using system_ok_reachable unfolding assms(1) by blast
  note k = system_okD [OF ok]
  have cu: "custody (reached s) (user s) (heard s) (hub s)" using k(3) by (simp add: hub_ok_def)
  have "\<exists>live. displayed (got s) (mine s p) cl live" using k(4) [of p] assms(3) by auto
  then obtain ws where ws: "map snd ws = chunks_printed (clog cl)" "\<forall>b. (None, b) \<in> set ws \<longrightarrow> own_message b"
      "\<forall>c. Some c \<in> fst ` set ws \<longrightarrow> c \<in> mine s p" "\<And>c. prefix (from_conn (Some c) ws) (data_in (got s c))"
    unfolding displayed_def by blast
  have "dialer s c = p \<and> (\<exists>t \<in> set (all_tasks (hub s)). c \<in> seen t
      \<and> prefix (from_conn (Some c) ws) (data_in (frames_to c (effects t))))" if w: "(Some c, b) \<in> set ws" for c b
  proof -
    have "c \<in> mine s p" using ws(3) w by force
    then have "dialer s c = p" by (simp add: mine_def)
    moreover have "from_conn (Some c) ws \<noteq> []" using w by (force simp: from_conn_def filter_empty_conv)
    moreover have "channel_ok (outbox c (hub s)) (downs s c)" using k(2) assms(2) by (simp add: flows_ok_def)
    then obtain fs where "prefix fs (outbox c (hub s))" "carries fs (got s c)" by (rule channel_ok_prefix)
    ultimately show ?thesis using got_data_owned [OF cu ws(4)] by blast
  qed
  with ws(1,2) show ?thesis by (intro exI [of _ ws]) auto
qed

theorem clients_show_their_session_witness:
  "\<exists>ws. map snd ws = [[0x6F, 0x6B]] \<and> (\<forall>b. (None, b) \<in> set ws \<longrightarrow> own_message b) \<and>
    (\<forall>c b. (Some c, b) \<in> set ws \<longrightarrow> dialer sample_system c = 0 \<and> c \<in> seen sample_task
       \<and> prefix (from_conn (Some c) ws) (data_in (frames_to c (effects sample_task))))"
proof -
  have "\<forall>c. \<forall>f \<in> set (outbox c (hub sample_system)). fits f" using sample_fits by blast
  moreover have "chunks_printed (clog sample_relay) = [[0x6F, 0x6B]]" by (simp add: sample_relay_def chunks_printed_def)
  ultimately show ?thesis
    using clients_show_their_session [OF sample_started [symmetric] _ sample_sent(3)] by (simp add: sample_sent(4))
qed

end
