(* ===== verification/Keystrokes.thy ===== *)
theory Keystrokes
  imports System_Props
begin
text \<open>
  Where a shell's input comes from.  Followed through the client, the streams, the daemon and the
  task: apart from the \<open>^L\<close> a client sends to have the screen redrawn, a shell reads only what was
  typed, in the order typed and nothing twice, in a client that its own user runs.
\<close>

declare hand_over_def [simp del] drop_senders_def [simp del] abort_task_def [simp del]

section \<open>What the escape processor holds back\<close>

text \<open>Input without the chunks that ask for a redraw.\<close>

definition typed_part :: "bytes list \<Rightarrow> bytes" where
  "typed_part ds = concat (filter (\<lambda>d. d \<noteq> [0x0C]) ds)"

lemma typed_part_simps [simp]:
  "typed_part [] = []" "typed_part (xs @ ys) = typed_part xs @ typed_part ys" "typed_part [[0x0C]] = []"
  by (simp_all add: typed_part_def)

lemma subseq_after: "subseq xs ys \<Longrightarrow> subseq (zs @ xs) (zs @ ys)"
  by (intro list_emb_append_mono) simp_all

lemma typed_part_concat: "subseq (typed_part ds) (concat ds)"
  by (induction ds) (auto simp: typed_part_def intro: list_emb_append2 subseq_after)

lemma typed_part_emb: "list_emb prefix xs ys \<Longrightarrow> subseq (typed_part xs) (typed_part ys)"
proof (induction rule: list_emb.induct)
  case (list_emb_Cons xs ys y)
  then show ?case by (auto simp: typed_part_def intro: list_emb_append2)
next
  case (list_emb_Cons2 x y xs ys)
  then have "subseq x y" by (simp add: prefix_imp_subseq)
  with list_emb_Cons2 show ?case
    by (auto simp: typed_part_def prefix_Cons intro: list_emb_append2 list_emb_append_mono)
qed (simp add: typed_part_def)

fun hold :: "escape_state \<Rightarrow> bytes" where
  "hold AfterTilde = [b_tilde]"
| "hold _ = []"

lemma esc_byte_subseq: "subseq (sent_bytes (snd (esc_byte st b)) @ hold (fst (esc_byte st b))) (hold st @ [b])"
  by (cases st) auto

lemma esc_spec_subseq: "subseq (sent_bytes (snd (esc_spec st bs)) @ hold (fst (esc_spec st bs))) (hold st @ bs)"
proof (induction bs arbitrary: st)
  case (Cons b bs)
  let ?st = "fst (esc_byte st b)" and ?evs = "snd (esc_byte st b)"
  have "subseq (sent_bytes ?evs @ hold ?st @ bs) (hold st @ [b] @ bs)"
    using list_emb_append_mono [OF esc_byte_subseq, of bs bs] by simp
  moreover have "subseq (sent_bytes ?evs @ sent_bytes (snd (esc_spec ?st bs)) @ hold (fst (esc_spec ?st bs)))
      (sent_bytes ?evs @ hold ?st @ bs)"
    using subseq_after [OF Cons [of ?st]] by simp
  moreover have "subseq (sent_bytes ?evs @ hold ?st) (hold st @ b # bs)"
    using list_emb_append_mono [OF esc_byte_subseq [of st b], of "[]" bs] by simp
  ultimately show ?case by (auto simp: case_prod_beta intro: subseq_order.trans)
qed simp

definition held :: "client \<Rightarrow> bytes" where
  "held cl = (case cphase cl of Finished r \<Rightarrow> []
     | _ \<Rightarrow> (case escape cl of Some p \<Rightarrow> hold (esc_state p) | None \<Rightarrow> []))"

lemma held_cong: "cphase s' = cphase s \<Longrightarrow> escape s' = escape s \<Longrightarrow> held s' = held s"
  unfolding held_def by (cases "cphase s") simp_all

lemma held_simps [simp]:
  "held (clog_add e s) = held s" "held (s\<lparr>send_results := bs\<rparr>) = held s" "held (s\<lparr>print_results := rs\<rparr>) = held s"
  "held (s\<lparr>last_pong := t\<rparr>) = held s" "held (with_io io s) = held s" "held (s\<lparr>cphase := Finished r\<rparr>) = []"
  by (rule held_cong; simp)+ (simp add: held_def)

section \<open>What a client sends as input\<close>

abbreviation input_of :: "frame list \<Rightarrow> bytes" where
  "input_of fs \<equiv> typed_part (data_in fs)"

text \<open>In a step in which the bytes \<open>k\<close> are read from the keyboard.\<close>

definition types :: "bytes \<Rightarrow> client \<Rightarrow> client \<Rightarrow> bool" where
  "types k cl cl' \<longleftrightarrow>
     (\<exists>new. clog cl' = clog cl @ new \<and> subseq (input_of (tried new) @ held cl') (held cl @ k))"

lemma types_trans:
  assumes "types k s s'" and "types k' s' s''"
  shows "types (k @ k') s s''"
proof -
  obtain n m where n: "clog s' = clog s @ n" "subseq (input_of (tried n) @ held s') (held s @ k)"
    and m: "clog s'' = clog s' @ m" "subseq (input_of (tried m) @ held s'') (held s' @ k')"
    using assms unfolding types_def by blast
  have "subseq (input_of (tried n) @ input_of (tried m) @ held s'') (input_of (tried n) @ held s' @ k')"
    by (rule subseq_after [OF m(2)])
  moreover have "subseq (input_of (tried n) @ held s' @ k') (held s @ k @ k')"
    using list_emb_append_mono [OF n(2), of k' k'] by simp
  ultimately have "subseq (input_of (tried (n @ m)) @ held s'') (held s @ k @ k')"
    by (auto intro: subseq_order.trans)
  with n(1) m(1) show ?thesis unfolding types_def by (intro exI [of _ "n @ m"]) simp
qed

lemmas types_then = types_trans [of "[]" _ _ "[]", simplified]

lemma types_log:
  assumes "clog s' = clog s @ new" and "data_in (tried new) \<in> {[], [[0x0C]]}" and "held s' = held s \<or> held s' = []"
  shows "types [] s s'"
  using assms unfolding types_def by (intro exI [of _ new]) auto

lemma types_refl [simp]: "types [] s s"
  by (rule types_log [of _ _ "[]"]) simp_all

lemma types_print: "types [] s (print d s)"
  by (auto simp: print_def held_def split: list.split option.split
      intro: types_log [of _ _ "[Printed d]"] types_log [of _ _ "[PrintFailed d]"])

lemma types_finish: "types [] s (s\<lparr>cphase := Finished r\<rparr>)" "types [] s (return_code k s)"
  "types [] s (s\<lparr>last_pong := t\<rparr>)" "types [] s (with_io io s)" "types [] s (clog_add SuspendSelf s)"
  by (auto simp: return_code_def held_def split: client_phase.split
      intro: types_log [of _ _ "[]"] types_log [of _ _ "[SuspendSelf]"])

lemma types_phase:
  assumes "cphase s = Relaying \<or> cphase s = Lost" and "cphase s' \<in> {Relaying, Lost}"
    and "clog s' = clog s" and "escape s' = escape s"
  shows "types [] s s'"
  using assms by (intro types_log [of _ _ "[]"]) (auto simp: held_def)

lemma types_lost: "cphase s = Relaying \<Longrightarrow> types [] s (lost s)"
  unfolding lost_def by (rule types_then [OF types_phase types_print]) simp_all

lemma types_send:
  assumes "data_in [f] \<in> {[], [[0x0C]]}"
  shows "types [] s (send_or_lose f s)"
proof (cases "cphase s = Relaying")
  case True
  let ?s = "\<lambda>bs. (clog_add (SendFailed f) s)\<lparr>send_results := bs\<rparr>"
  have "types [] s ((clog_add (Sent f) s)\<lparr>send_results := bs\<rparr>)" "types [] s (?s bs)" for bs
    using assms types_log [of _ s "[Sent f]"] types_log [of _ s "[SendFailed f]"] by simp_all
  moreover have "types [] (?s bs) (lost (?s bs))" for bs using True by (intro types_lost) simp
  ultimately show ?thesis using True by (auto simp: send_or_lose_def intro: types_then split: list.split bool.split)
qed (simp add: send_or_lose_def)

lemma types_send_size: "types [] s (send_size io s)"
  by (auto simp: send_size_def data_in_def intro: types_send split: prod.split)

lemma types_relay_start: "types [] s (relay_start io s)"
proof -
  define s1 where "s1 = (if current_env s \<noteq> [] then send_or_lose (Env (current_env s)) s else s)"
  define s2 where "s2 = send_size io s1"
  define s3 where "s3 = (if current_redraw s2 then send_or_lose (Data [0x0C]) s2 else s2)"
  have "types [] s s1" using types_send [of "Env (current_env s)" s] by (simp add: s1_def data_in_def)
  moreover have "types [] s1 s2" unfolding s2_def by (rule types_send_size)
  moreover have "types [] s2 s3" using types_send [of "Data [0x0C]" s2] by (simp add: s3_def data_in_def)
  moreover have "types [] s3 (if cphase s3 = Relaying then s3\<lparr>last_pong := io_now io\<rparr> else s3)"
    by (simp add: types_finish)
  ultimately have "types [] s (if cphase s3 = Relaying then s3\<lparr>last_pong := io_now io\<rparr> else s3)"
    by (blast intro: types_then)
  then show ?thesis unfolding relay_start_def Let_def s3_def s2_def s1_def .
qed

lemma types_server: "cphase s = Relaying \<Longrightarrow> types [] s (on_server io r s)"
  by (cases "(io, r, s)" rule: on_server.cases)
    (auto intro: types_then [OF types_print types_finish(2)] simp: types_print types_finish types_lost)

lemma types_tick: "cphase s = Relaying \<Longrightarrow> types [] s (on_tick io s)"
  by (simp add: on_tick_def types_lost types_send data_in_def)

lemma types_attempt:
  assumes "cphase s = Lost"
  shows "types [] s (on_attempt io a s)"
proof -
  let ?s1 = "clog_add (Sent (Attach (session_name s))) s"
  have s1: "types [] s ?s1"
    by (rule types_log [of _ _ "[Sent (Attach (session_name s))]"]) (simp_all add: data_in_def)
  have f: "types [] s (clog_add (SendFailed (Attach (session_name s))) s)"
    by (rule types_log [of _ _ "[SendFailed (Attach (session_name s))]"]) (simp_all add: data_in_def)
  let ?s2 = "print (text_bytes ''[reconnected]'') ?s1"
  have p: "types [] s (print b ?s1)" for b by (rule types_then [OF s1 types_print])
  have "types [] s (relay_start io (?s2\<lparr>cphase := Relaying, current_redraw := True\<rparr>))" if "\<forall>r. cphase ?s2 \<noteq> Finished r"
  proof -
    have "cphase ?s2 = Relaying \<or> cphase ?s2 = Lost" using that by (cases "cphase ?s2") auto
    then have "types [] ?s2 (?s2\<lparr>cphase := Relaying, current_redraw := True\<rparr>)"
      by (intro types_phase) simp_all
    with p show ?thesis by (blast intro: types_then types_relay_start)
  qed
  moreover have "types [] s (return_code k (print b t))" if "types [] s t" for k b t
    using that by (blast intro: types_then types_print types_finish(2))
  ultimately show ?thesis
    using s1 f p by (auto simp: on_attempt_def Let_def split: option.split sum.split frame.split client_phase.split)
qed

lemma types_suspend: "types [] s (send_size io (clog_add SuspendSelf s))"
  by (rule types_then [OF types_finish(5) types_send_size])

text \<open>The bytes a step reads from the keyboard.\<close>

definition keys_in :: "client_event \<Rightarrow> bytes" where
  "keys_in ev = (case ev of StdinReady None (Inr buf) \<Rightarrow> buf | _ \<Rightarrow> [])"

text \<open>The actions of one read: what is sent is a prefix of what the processor lets through.\<close>

definition relays :: "bytes \<Rightarrow> client \<Rightarrow> client \<Rightarrow> bool" where
  "relays d s s' \<longleftrightarrow> escape s' = escape s \<and> (cphase s' = Relaying \<longrightarrow> cphase s = Relaying)
     \<and> (\<exists>new. clog s' = clog s @ new \<and> prefix (concat (data_in (tried new))) d
          \<and> (cphase s' = Relaying \<longrightarrow> concat (data_in (tried new)) = d))"

lemma relays_trans:
  assumes "relays d s s'" and "relays d' s' s''" and "cphase s' \<noteq> Relaying \<Longrightarrow> s'' = s'"
  shows "relays (d @ d') s s''"
proof (cases "cphase s' = Relaying")
  case True
  obtain n m where "clog s' = clog s @ n" "concat (data_in (tried n)) = d" "clog s'' = clog s' @ m"
      "prefix (concat (data_in (tried m))) d'" "cphase s'' = Relaying \<longrightarrow> concat (data_in (tried m)) = d'"
    using assms(1,2) True unfolding relays_def by blast
  with assms(1,2) show ?thesis unfolding relays_def by (auto intro!: exI [of _ "n @ m"])
next
  case False
  with assms(1,3) show ?thesis unfolding relays_def by (auto intro: prefix_prefix)
qed

lemma relays_lost: "relays [] s (lost s)"
  by (auto simp: relays_def lost_def print_def split: list.split option.split)

lemma relays_quiet:
  "clog s' = clog s @ new \<Longrightarrow> data_in (tried new) = [] \<Longrightarrow> escape s' = escape s \<Longrightarrow>
   cphase s' = Relaying \<longrightarrow> cphase s = Relaying \<Longrightarrow> relays [] s s'"
  by (auto simp: relays_def)

lemma lost_not_relaying [simp]: "cphase (lost s) \<noteq> Relaying"
  by (simp add: lost_def print_def split: list.split option.split)

lemma relays_send: "cphase s = Relaying \<Longrightarrow> relays (concat (data_in [f])) s (send_or_lose f s)"
proof -
  assume r: "cphase s = Relaying"
  let ?s = "\<lambda>bs. (clog_add (SendFailed f) s)\<lparr>send_results := bs\<rparr>"
  have "relays (concat (data_in [f])) s ((clog_add (Sent f) s)\<lparr>send_results := bs\<rparr>)" for bs
    using r by (auto simp: relays_def clog_add_def)
  moreover have "relays (concat (data_in [f])) s (lost (?s bs))" for bs
  proof -
    from relays_lost [of "?s bs"] obtain new where
      "clog (lost (?s bs)) = clog (?s bs) @ new" "concat (data_in (tried new)) = []" "escape (lost (?s bs)) = escape s"
      by (auto simp: relays_def clog_add_def)
    then show ?thesis
      using data_in_simps(2) [of "[f]" "tried new"] by (auto simp: relays_def clog_add_def)
  qed
  ultimately show ?thesis using r by (auto simp: send_or_lose_def split: list.split bool.split)
qed

lemma relays_size: "cphase s = Relaying \<Longrightarrow> relays [] s (send_size io s)"
  using relays_send [of s "Resize c r" for c r] by (auto simp: send_size_def data_in_def split: prod.split)

lemma relays_action: "relays (sent_bytes (events_of a)) s (apply_action io a s)"
proof (cases "cphase s = Relaying")
  case True
  have p: "relays [] s (print d s)" "relays [] s (return_code k (print d s))" for d k
    by (auto simp: relays_def print_def return_code_def split: list.split option.split client_phase.split)
  have "relays [] s (send_size io (clog_add SuspendSelf s))"
    using relays_trans [OF relays_quiet [of "clog_add SuspendSelf s" s "[SuspendSelf]"] relays_size [of "clog_add SuspendSelf s" io]]
      True by simp
  then show ?thesis
    using True relays_send [OF True, of "Data d" for d] p sent_bytes_Byte [of _ "[]"]
    by (cases a) (auto simp: apply_action_def relays_def split: option.split)
next
  case False
  then show ?thesis by (simp add: apply_action_def relays_def)
qed

lemma relays_actions: "relays (sent_bytes (flatten actions)) s (fold (apply_action io) actions s)"
proof (induction actions arbitrary: s)
  case Nil
  then show ?case by (simp add: relays_def)
next
  case (Cons a as)
  have "fold (apply_action io) as s' = s'" if "cphase s' \<noteq> Relaying" for s'
    using that by (induction as) (simp_all add: apply_action_def)
  with relays_trans [OF relays_action [of a s io] Cons [of "apply_action io a s"]] show ?case by simp
qed

lemma types_stdin:
  assumes "cphase s = Relaying"
  shows "types (keys_in (StdinReady ready r)) s (on_stdin io ready r s)"
proof (cases "ready = None \<and> (\<exists>buf. r = Inr buf \<and> buf \<noteq> [])")
  case True
  then obtain buf where r: "ready = None" "r = Inr buf" "buf \<noteq> []" by auto
  show ?thesis
  proof (cases "escape s")
    case None
    from relays_send [OF assms, of "Data buf"] obtain new where new: "clog (send_or_lose (Data buf) s) = clog s @ new"
        "prefix (concat (data_in (tried new))) buf" "escape (send_or_lose (Data buf) s) = None"
      using None by (auto simp: relays_def)
    then have "held (send_or_lose (Data buf) s) = []" "held s = []" using None by (simp_all add: held_def split: client_phase.split)
    moreover have "subseq (input_of (tried new)) buf"
      using new(2) typed_part_concat [of "data_in (tried new)"] prefix_imp_subseq subseq_order.trans by blast
    ultimately show ?thesis using r None new(1) by (simp add: types_def on_stdin_def keys_in_def)
  next
    case (Some p)
    let ?p = "snd (esc_process p buf)"
    let ?t = "fold (apply_action io) (fst (esc_process p buf)) (s\<lparr>escape := Some ?p\<rparr>)"
    from relays_actions [of "fst (esc_process p buf)" "s\<lparr>escape := Some ?p\<rparr>" io] obtain new where
      new: "clog ?t = clog s @ new" "prefix (concat (data_in (tried new))) (sent_bytes (snd (esc_spec (esc_state p) buf)))"
        "escape ?t = Some ?p"
      by (auto simp: relays_def esc_process_flatten)
    have h: "held ?t = hold (esc_state ?p) \<or> held ?t = []" "held s = hold (esc_state p)"
      using new(3) Some assms by (auto simp: held_def split: client_phase.split)
    have "subseq (input_of (tried new)) (sent_bytes (snd (esc_spec (esc_state p) buf)))"
      using new(2) typed_part_concat [of "data_in (tried new)"] prefix_imp_subseq subseq_order.trans by blast
    then have "subseq (input_of (tried new) @ held ?t) (sent_bytes (snd (esc_spec (esc_state p) buf)) @ hold (esc_state ?p))"
      using h(1) by (elim disjE) (simp_all add: list_emb_append_mono list_emb_prefix)
    also have "subseq \<dots> (hold (esc_state p) @ buf)"
      using esc_spec_subseq [of "esc_state p" buf] by (simp add: esc_process_state)
    finally have "subseq (input_of (tried new) @ held ?t) (held s @ buf)" by (simp add: h(2))
    with new(1) r Some show ?thesis by (auto simp: types_def on_stdin_def keys_in_def case_prod_beta)
  qed
next
  case False
  then have "types [] s (on_stdin io ready r s)" 
    by (auto simp: on_stdin_def types_finish split: option.split sum.split list.split)
  then show ?thesis by (auto simp: types_def intro: subseq_order.trans)
qed

lemma types_step: "types (if cphase s = Relaying then keys_in ev else []) s (client_step s (io, ev))"
proof -
  have w: "types k s s'" if "types k (with_io io s) s'" for k s'
    using types_trans [OF types_finish(4) that] by simp
  show ?thesis
    by (cases ev) (auto simp: keys_in_def intro!: w types_stdin [unfolded keys_in_def, simplified] types_server types_tick types_attempt types_send_size)
qed

lemma types_start: "types [] (new_client name redraw env no_escape) (client_start io name redraw env no_escape)"
  unfolding client_start_def by (rule types_then [OF types_finish(4) types_relay_start])

section \<open>What a process sends as input\<close>

text \<open>The connections of a process in the order it opened them, and the input it sent on them.\<close>

definition conns_of :: "nat \<Rightarrow> system \<Rightarrow> conn list" where
  "conns_of p s = filter (\<lambda>c. dialer s c = p) [0..<next_conn s]"

definition input_by :: "nat \<Rightarrow> system \<Rightarrow> bytes" where
  "input_by p s = concat (map (\<lambda>c. input_of (posted s c)) (conns_of p s))"

definition held_by :: "nat \<Rightarrow> system \<Rightarrow> bytes" where
  "held_by p s = (case stage_of p s of Working cl c \<Rightarrow> held cl | Redialing cl c \<Rightarrow> held cl | _ \<Rightarrow> [])"

text \<open>The keys a move reads from the terminal of process \<open>p\<close>, and those of a run.\<close>

fun keys_of_move :: "nat \<Rightarrow> system \<Rightarrow> move \<Rightarrow> bytes" where
  "keys_of_move p s (ClientMoves q io ev) =
     (case stage_of q s of Working cl c \<Rightarrow> if q = p \<and> cphase cl = Relaying then keys_in ev else [] | _ \<Rightarrow> [])"
| "keys_of_move p s _ = []"

fun keystrokes :: "nat \<Rightarrow> system \<Rightarrow> move list \<Rightarrow> bytes" where
  "keystrokes p s [] = []"
| "keystrokes p s (m # ms) = keys_of_move p s m @ keystrokes p (system_step s m) ms"

text \<open>A process sends on the connection it opened last.\<close>

fun seat :: "stage \<Rightarrow> conn option" where
  "seat (Waiting c) = Some c"
| "seat (Working cl c) = Some c"
| "seat (Redialing cl c) = Some c"
| "seat Over = None"

definition seated :: "system \<Rightarrow> bool" where
  "seated s \<longleftrightarrow> (\<forall>p c. seat (stage_of p s) = Some c \<longrightarrow> (\<exists>cs. conns_of p s = cs @ [c]))"

text \<open>From \<open>s\<close> to \<open>s'\<close> the process sends no input but what was held back and the keys \<open>k\<close>.\<close>

definition types_on :: "nat \<Rightarrow> bytes \<Rightarrow> system \<Rightarrow> system \<Rightarrow> bool" where
  "types_on p k s s' \<longleftrightarrow> subseq (input_by p s' @ held_by p s') (input_by p s @ held_by p s @ k)"

lemma types_on_trans:
  assumes "types_on p k s s'" and "types_on p k' s' s''"
  shows "types_on p (k @ k') s s''"
proof -
  have "subseq ((input_by p s' @ held_by p s') @ k') ((input_by p s @ held_by p s @ k) @ k')"
    using assms(1) by (simp add: types_on_def del: append_assoc)
  with assms(2) show ?thesis unfolding types_on_def by (auto intro: subseq_order.trans)
qed

lemma types_on_same: "input_by p s' = input_by p s \<Longrightarrow> held_by p s' = held_by p s \<Longrightarrow> types_on p k s s'"
  using list_emb_prefix [of "(=)" "input_by p s @ held_by p s" "input_by p s @ held_by p s" k]
  by (simp add: types_on_def)

lemma untouched:
  assumes "seated s" and "posted s' = posted s" "dialer s' = dialer s" "next_conn s' = next_conn s" "procs s' = procs s"
  shows "seated s' \<and> types_on p k s s'"
proof -
  have "conns_of q s' = conns_of q s" "stage_of q s' = stage_of q s" for q
    using assms by (simp_all add: conns_of_def stage_of_def)
  with assms(1,2) show ?thesis
    using types_on_same [of p s' s k] by (simp add: seated_def input_by_def held_by_def)
qed

lemma conns_of_put [simp]: "conns_of q (put_process p st (post c fs (s\<lparr>downs := w\<rparr>))) = conns_of q s"
  by (simp add: conns_of_def post_def)

text \<open>A process moves, and posts on its connection.\<close>

lemma process_types:
  assumes "seated s" and c: "seat (stage_of p s) = Some c" and st: "seat st \<in> {None, Some c}"
    and s': "s' = put_process p st (post c fs (s\<lparr>downs := w\<rparr>))"
    and t: "subseq (input_of fs @ (case st of Working cl c \<Rightarrow> held cl | Redialing cl c \<Rightarrow> held cl | _ \<Rightarrow> [])) (held_by p s @ k)"
  shows "seated s' \<and> types_on q (if q = p then k else []) s s'"
proof -
  have p: "p < length (procs s)" using c by (auto simp: stage_of_def split: if_splits)
  have stage: "stage_of x s' = (if x = p then st else stage_of x s)" for x
    using p by (simp add: s' post_def stage_of_def)
  have conns: "conns_of x s' = conns_of x s" for x by (simp add: s')
  have posts: "posted s' x = (if x = c then posted s c @ fs else posted s x)" for x by (simp add: s' post_def)
  obtain cs where cs: "conns_of p s = cs @ [c]" using assms(1) c unfolding seated_def by blast
  have "distinct (conns_of p s)" by (simp add: conns_of_def)
  then have new: "c \<notin> set cs" using cs by simp
  have "c \<in> set (conns_of p s)" using cs by simp
  then have "dialer s c = p" by (simp add: conns_of_def)
  then have other: "c \<notin> set (conns_of x s)" if "x \<noteq> p" for x using that by (auto simp: conns_of_def)
  have same: "map (\<lambda>x. input_of (posted s' x)) cs = map (\<lambda>x. input_of (posted s x)) cs"
    using new by (auto simp: posts)
  have "input_by p s' = input_by p s @ input_of fs"
    unfolding input_by_def conns cs map_append same by (simp add: posts)
  moreover have "input_by x s' = input_by x s" if "x \<noteq> p" for x
    using other [OF that] by (auto simp: input_by_def conns posts intro!: arg_cong [of _ _ concat])
  ultimately have "types_on q (if q = p then k else []) s s'"
    using subseq_after [OF t] by (simp add: types_on_def held_by_def stage)
  moreover have "seated s'" using assms(1) st cs by (auto simp: seated_def conns stage)
  ultimately show ?thesis by blast
qed

text \<open>A process opens a connection.\<close>

lemma dial_types:
  assumes "seated s" and ok: "conns_ok s" and s': "s' = (dial p req s)\<lparr>procs := ps\<rparr>" and req: "data_in [req] = []"
    and other: "\<And>x. x \<noteq> p \<Longrightarrow> stage_of x s' = stage_of x s" and st: "seat (stage_of p s') = Some (next_conn s)"
    and h: "held_by p s' = held_by p s"
  shows "seated s' \<and> types_on q k s s'"
proof -
  have conns: "conns_of x s' = conns_of x s @ (if x = p then [next_conn s] else [])" for x
    by (auto simp: s' dial_def conns_of_def intro: filter_cong)
  have posts: "posted s' x = (if x = next_conn s then [req] else posted s x)" for x by (simp add: s' dial_def)
  have "c \<noteq> next_conn s" if "c \<in> set (conns_of x s)" for c x using that by (simp add: conns_of_def)
  then have old: "map (\<lambda>c. input_of (posted s' c)) (conns_of x s) = map (\<lambda>c. input_of (posted s c)) (conns_of x s)" for x
    by (auto simp: posts)
  have "input_of (posted s' (next_conn s)) = []" using req by (simp add: posts)
  then have "input_by x s' = input_by x s" for x unfolding input_by_def conns map_append old by simp
  moreover have "held_by x s' = held_by x s" for x
    using h other by (cases "x = p") (simp_all add: held_by_def)
  ultimately have "types_on q k s s'" by (rule types_on_same)
  moreover have "seated s'"
    unfolding seated_def
  proof (intro allI impI)
    fix x c assume "seat (stage_of x s') = Some c"
    then show "\<exists>cs. conns_of x s' = cs @ [c]"
      using assms(1) st other by (cases "x = p") (auto simp: conns seated_def)
  qed
  ultimately show ?thesis by blast
qed

lemma new_frames_types:
  assumes "types k cl cl'"
  shows "subseq (input_of (drop n (new_frames cl cl')) @ held cl') (held cl @ k)"
proof -
  obtain new where new: "clog cl' = clog cl @ new" "subseq (input_of (tried new) @ held cl') (held cl @ k)"
    using assms unfolding types_def by blast
  have "input_of fs = input_of (take n fs) @ input_of (drop n fs)" for fs
    using data_in_simps(2) [of "take n fs" "drop n fs"] by (simp flip: typed_part_simps(2))
  then have "subseq (input_of (drop n (tried new)) @ held cl') (input_of (tried new) @ held cl')"
    using list_emb_append2 [of "(=)"] by (metis append_assoc subseq_order.refl)
  from subseq_order.trans [OF this new(2)] show ?thesis by (simp add: new_frames_def new(1))
qed

lemma advance_types:
  assumes "seated s" and "stage_of p s = Working cl c \<or> stage_of p s = Redialing cl c"
    and "types k cl (client_step cl e)"
  shows "seated (advance p cl c n e (s\<lparr>downs := w\<rparr>))
    \<and> types_on q (if q = p then k else []) s (advance p cl c n e (s\<lparr>downs := w\<rparr>))"
  unfolding advance_def Let_def
  by (rule process_types [OF assms(1) _ _ refl])
    (use assms(2) new_frames_types [OF assms(3)] in \<open>auto simp: held_by_def\<close>)

text \<open>Every move.\<close>

lemma request_no_data: "request_of cmd = Some req \<Longrightarrow> data_in [req] = []"
  by (cases cmd) (auto simp: data_in_def new_session_request_def)

lemma step_types:
  assumes ok: "system_ok s" and se: "seated s"
  shows "seated (system_step s m) \<and> types_on p (keys_of_move p s m) s (system_step s m)"
proof -
  note u = untouched [OF se]
  have u0: "seated s \<and> types_on p k s s" for k using u by simp
  have adv: "seated (advance q cl c n e (s\<lparr>downs := w\<rparr>)) \<and> types_on p (if p = q then k else []) s (advance q cl c n e (s\<lparr>downs := w\<rparr>))"
    if "stage_of q s = Working cl c \<or> stage_of q s = Redialing cl c" "types k cl (client_step cl e)" for q cl c n e w k
    by (rule advance_types [OF se that])
  show ?thesis
  proof (cases m)
    case (Start u cmd env)
    have "seated (system_step s m) \<and> types_on p [] s (system_step s m)" if r: "request_of cmd = Some req" for req
      using Start r
      by (intro dial_types [OF se system_okD(1) [OF ok] _ request_no_data [OF r]])
        (auto simp: stage_of_def held_by_def dial_def nth_append split: stage.split)
    with Start u0 show ?thesis by (cases "request_of cmd") simp_all
  next
    case (GetAnswer q io)
    have "seated (put_process q (Working cl c) (post c (tried (clog cl)) (s\<lparr>downs := w\<rparr>)))
        \<and> types_on p (if p = q then [] else []) s (put_process q (Working cl c) (post c (tried (clog cl)) (s\<lparr>downs := w\<rparr>)))"
      if st: "stage_of q s = Waiting c" and cl: "cl = client_start io session redraw env no_escape"
      for c cl session redraw env no_escape w
    proof (rule process_types [OF se _ _ refl])
      have "held (new_client session redraw env no_escape) = []" "clog (new_client session redraw env no_escape) = []"
        by (simp_all add: held_def new_client_def new_processor_def)
      then show "subseq (input_of (tried (clog cl)) @ (case Working cl c of Working cl c \<Rightarrow> held cl | Redialing cl c \<Rightarrow> held cl | _ \<Rightarrow> []))
          (held_by q s @ [])"
        using types_start [of session redraw env no_escape io] st by (simp add: types_def cl held_by_def)
    qed (use st in simp_all)
    moreover have "seated (put_process q Over (s\<lparr>downs := w\<rparr>)) \<and> types_on p (if p = q then [] else []) s (put_process q Over (s\<lparr>downs := w\<rparr>))"
      if "stage_of q s = Waiting c" for c w
      using process_types [OF se, of q c Over "put_process q Over (s\<lparr>downs := w\<rparr>)" "[]" w "[]" p] that
      by (simp add: post_def held_by_def)
    ultimately show ?thesis
      using GetAnswer u0 by (auto simp: Let_def split: stage.split option.split sum.split outcome.split)
  next
    case (GiveUp q)
    show ?thesis
    proof (cases "seat (stage_of q s)")
      case None
      then have "stage_of q s = Over" by (cases "stage_of q s") simp_all
      then have "stage_of x (put_process q Over s) = stage_of x s" for x by simp
      with se u0 GiveUp show ?thesis
        by (auto simp: seated_def types_on_def conns_of_def input_by_def held_by_def)
    next
      case (Some c)
      from process_types [OF se Some, of Over "put_process q Over s" "[]" "downs s" "[]" p] GiveUp u0
      show ?thesis by (simp add: post_def)
    qed
  next
    case (Redial q)
    have "seated (put_process q (Redialing cl (next_conn s)) (dial q (Attach (session_name cl)) s))
        \<and> types_on p [] s (put_process q (Redialing cl (next_conn s)) (dial q (Attach (session_name cl)) s))"
      if st: "stage_of q s = Working cl c" for cl c
    proof -
      have "q < length (procs s)" using st by (simp add: stage_of_def split: if_splits)
      with st show ?thesis
        by (intro dial_types [OF se system_okD(1) [OF ok], where p = q and req = "Attach (session_name cl)"
              and ps = "(procs s)[q := (procs s ! q)\<lparr>stage := Redialing cl (next_conn s)\<rparr>]"])
          (auto simp: dial_def stage_of_def held_by_def data_in_def)
    qed
    with Redial u0 show ?thesis by (auto split: stage.split)
  next
    case (ClientReads q io)
    have "types [] cl (client_step cl (io, ServerFrame r))" for cl r
      using types_step [of cl "ServerFrame r" io] by (simp add: keys_in_def split: if_splits)
    with ClientReads u0 adv [where k = "[]"] show ?thesis by (auto simp del: client_step.simps split: stage.split option.split)
  next
    case (ClientMoves q io ev)
    show ?thesis
    proof (cases "\<exists>cl c. stage_of q s = Working cl c")
      case True
      then obtain cl c where st: "stage_of q s = Working cl c" by blast
      from adv [OF disjI1 [OF st] types_step [of cl ev io], of 0 "downs s"] ClientMoves u0 st show ?thesis
        by (auto simp del: client_step.simps split: if_splits)
    next
      case False
      with ClientMoves u0 show ?thesis by (auto split: stage.split)
    qed
  next
    case (Conclude q io peek)
    have "types [] cl (client_step cl (io, Attempt a))" for cl a
      using types_step [of cl "Attempt a" io] by (simp add: keys_in_def split: if_splits)
    with Conclude u0 adv [where k = "[]"] show ?thesis by (auto simp del: client_step.simps split: stage.split option.split)
  next
    case (ConcludeBadly q io peek sent e)
    have "types [] cl (client_step cl (io, Attempt a))" for cl a
      using types_step [of cl "Attempt a" io] by (simp add: keys_in_def split: if_splits)
    with ConcludeBadly u0 adv [where k = "[]" and w = "downs s"] show ?thesis
      by (auto simp del: client_step.simps split: stage.split)
  qed (use u in \<open>auto simp del: daemon_step.simps split: list.split daemon_phase.split option.split\<close>)
qed

lemma run_types:
  assumes "system_ok s" and "seated s"
  shows "types_on p (keystrokes p s ms) s (run_system s ms)"
  using assms
proof (induction ms arbitrary: s)
  case Nil
  then show ?case by (simp add: types_on_same)
next
  case (Cons m ms)
  have "types_on p (keystrokes p (system_step s m) ms) (system_step s m) (run_system (system_step s m) ms)"
    using Cons step_types system_ok_step by blast
  with types_on_trans step_types [OF Cons.prems, of m p] show ?case by (auto simp del: system_step.simps)
qed

lemma seated_start: "seated (start_hub w ctl fd sg)" "input_by p (start_hub w ctl fd sg) = []" "held_by p (start_hub w ctl fd sg) = []"
  by (simp_all add: seated_def stage_of_def new_system_def input_by_def conns_of_def held_by_def)

text \<open>
  Whatever happens, the input a client sends over all its connections, in order, is what its user
  typed with parts left out: nothing is added, repeated or exchanged.
\<close>

lemma clients_send_only_keystrokes:
  "subseq (input_by p (run_system (start_hub w ctl fd sg) ms)) (keystrokes p (start_hub w ctl fd sg) ms)"
proof -
  have "subseq (input_by p (run_system (start_hub w ctl fd sg) ms) @ held_by p (run_system (start_hub w ctl fd sg) ms))
      (keystrokes p (start_hub w ctl fd sg) ms)"
    using run_types [OF system_ok_start seated_start(1), of p w ctl fd sg ms] by (simp add: types_on_def seated_start(2,3))
  moreover have "subseq xs (xs @ ys)" for xs ys :: bytes by (intro list_emb_prefix) simp
  ultimately show ?thesis using subseq_order.trans by blast
qed

lemma sent_is_input:
  assumes "conns_ok s"
  shows "subseq (input_of (posted s c)) (input_by (dialer s c) s)"
proof (cases "c < next_conn s")
  case True
  then have "c \<in> set (conns_of (dialer s c) s)" by (simp add: conns_of_def)
  then obtain as bs where "conns_of (dialer s c) s = as @ c # bs" by (meson split_list)
  then show ?thesis
    using list_emb_append2 [OF list_emb_prefix [OF subseq_order.refl [of "input_of (posted s c)"]]] by (simp add: input_by_def)
next
  case False
  with assms show ?thesis by (simp add: conns_ok_def)
qed


text \<open>In the sample run the user typed \<open>ls\<close>.\<close>

lemma sample_keys: "keystrokes 0 (new_system fresh_daemon) sample_moves = [0x6C, 0x73]"
  by (simp add: sample_moves_def system_eval codec_eval daemon_eval task_eval client_eval keys_in_def)


end
