(* ===== verification/Identity.thy ===== *)
theory Identity
  imports Custody
begin
text \<open>
  Which session a connection belongs to: a live session holds only connections whose first frame
  created it or asked for it by its name or number, and that were told so.
\<close>

declare hand_over_def [simp del] drop_senders_def [simp del] abort_task_def [simp del]

section \<open>How the table changes\<close>

text \<open>Every session of \<open>ss'\<close> was in \<open>ss\<close> under the same id and name, and got at most the connections \<open>C i\<close>.\<close>

definition kept :: "(u32 \<Rightarrow> conn set) \<Rightarrow> sessions \<Rightarrow> sessions \<Rightarrow> bool" where
  "kept C ss ss' \<longleftrightarrow>
     (\<forall>i st'. map_of ss' i = Some st' \<longrightarrow>
        (\<exists>st. map_of ss i = Some st \<and> sname st' = sname st \<and> seen (task st') \<subseteq> seen (task st) \<union> C i))"

abbreviation nobody :: "u32 \<Rightarrow> conn set" where
  "nobody \<equiv> \<lambda>i. {}"

lemma keptD: "kept C ss ss' \<Longrightarrow> map_of ss' i = Some st' \<Longrightarrow>
    \<exists>st. map_of ss i = Some st \<and> sname st' = sname st \<and> seen (task st') \<subseteq> seen (task st) \<union> C i"
  unfolding kept_def by blast

lemma kept_refl [simp]: "kept C ss ss"
  by (auto simp: kept_def)

lemma kept_nil [simp]: "kept C ss []"
  by (simp add: kept_def)

lemma kept_both:
  assumes "kept C ss ts" and "kept D ts us"
  shows "kept (\<lambda>i. C i \<union> D i) ss us"
  unfolding kept_def
proof (intro allI impI)
  fix i st' assume "map_of us i = Some st'"
  then obtain st1 where 1: "map_of ts i = Some st1" "sname st' = sname st1" "seen (task st') \<subseteq> seen (task st1) \<union> D i"
    using keptD [OF assms(2)] by blast
  then obtain st where "map_of ss i = Some st" "sname st1 = sname st" "seen (task st1) \<subseteq> seen (task st) \<union> C i"
    using keptD [OF assms(1)] by blast
  with 1 show "\<exists>st. map_of ss i = Some st \<and> sname st' = sname st \<and> seen (task st') \<subseteq> seen (task st) \<union> (C i \<union> D i)"
    by fastforce
qed

lemma kept_trans: "kept C ss ts \<Longrightarrow> kept nobody ts us \<Longrightarrow> kept C ss us" "kept nobody ss ts \<Longrightarrow> kept C ts us \<Longrightarrow> kept C ss us"
  using kept_both [of C ss ts nobody us] kept_both [of nobody ss ts C us] by simp_all

lemma kept_update_task:
  assumes "\<And>s. seen (f s) \<subseteq> seen s \<union> C i"
  shows "kept C ss (update_task i f ss)"
  using assms by (auto simp: kept_def map_of_update_task)

lemma kept_run_task: "kept nobody ss (run_task e ss)"
  using own_event_handed
  by (cases e) (auto simp: run_task_def seen_step intro!: kept_update_task)

lemma kept_run_tasks: "kept nobody ss (fold run_task es ss)"
proof (induction es arbitrary: ss)
  case (Cons e es)
  from kept_trans(1) [OF kept_run_task Cons.IH] show ?case by simp
qed simp

lemma kept_reap: "distinct (map fst ss) \<Longrightarrow> kept C ss (reap_sessions ss)"
  by (auto simp: kept_def map_of_reap split: option.splits if_splits)

lemma kept_delete: "kept C ss (AList.delete i ss)"
  by (auto simp: kept_def delete_conv' split: if_splits)

lemma kept_hand_over: "kept (\<lambda>j. if j = i then {c} else {}) ss (update_task i (hand_over c) ss)"
proof -
  have "seen (hand_over c s) \<subseteq> seen s \<union> {c}" for s
    using seen_step [of s "(quiet_calls, Handoff c)"] by simp
  then show ?thesis by (intro kept_update_task) simp
qed

lemma fst_run_tasks [simp]: "map fst (fold run_task es ss) = map fst ss"
proof (induction es arbitrary: ss)
  case (Cons e es)
  then show ?case by (simp add: run_task_def case_prod_beta)
qed simp

text \<open>Steps that hand nothing over.\<close>

lemma kept_round: "distinct (map fst (sessions d)) \<Longrightarrow> kept nobody (sessions d) (sessions (next_round d))"
  by (simp add: kept_reap)

lemma kept_quiet:
  assumes "daemon_inv d" and "\<not> framed_event e"
  shows "kept nobody (sessions d) (sessions (daemon_step d e))"
  using assms kept_run_task kept_reap
  by (cases e rule: framed_event.cases)
    (auto simp: daemon_inv_def table_inv_def shutdown_def split: sum.split daemon_phase.split)

lemma kept_frame: "kept nobody (sessions d) (sessions (daemon_step d (TaskEvent i e)))"
  using kept_run_task by (simp split: daemon_phase.split)

section \<open>The invariant\<close>

text \<open>Connection \<open>c\<close> asked for the session of number \<open>i\<close> and name \<open>nm\<close>, and was told that it has it.\<close>

definition belongs :: "u32 \<Rightarrow> string option \<Rightarrow> frame \<Rightarrow> frame \<Rightarrow> bool" where
  "belongs i nm req ans \<longleftrightarrow>
     (\<exists>n. req = NewSession n \<and> nm = (if n = [] then None else Some n) \<and> ans = SessionCreated (show_u32 i))
     \<or> (\<exists>t. req = Attach t \<and> (nm = Some t \<or> parse_u32 t = Some i) \<and> ans = Ok)"

definition asked_for :: "(conn \<Rightarrow> frame list) \<Rightarrow> daemon \<Rightarrow> u32 \<Rightarrow> string option \<Rightarrow> conn \<Rightarrow> bool" where
  "asked_for T d i nm c \<longleftrightarrow>
     (\<exists>req later ans. T c = req # later \<and> (c, ans) \<in> set (replies (daemon_log d)) \<and> belongs i nm req ans)"

definition hub_ids :: "(conn \<Rightarrow> frame list) \<Rightarrow> daemon \<Rightarrow> bool" where
  "hub_ids T d \<longleftrightarrow> (\<forall>i st. map_of (sessions d) i = Some st \<longrightarrow> (\<forall>c \<in> seen (task st). asked_for T d i (sname st) c))"

lemma asked_for_mono:
  assumes "asked_for T d i nm c" and "\<exists>fs. T' c = T c @ fs" and "\<exists>rs. replies (daemon_log d') = replies (daemon_log d) @ rs"
  shows "asked_for T' d' i nm c"
  using assms unfolding asked_for_def by fastforce

lemma hub_ids_kept:
  assumes "hub_ids T d" and "kept C (sessions d) (sessions d')" and "\<And>c. \<exists>fs. T' c = T c @ fs"
    and "\<exists>rs. replies (daemon_log d') = replies (daemon_log d) @ rs"
    and "\<And>i st' c. map_of (sessions d') i = Some st' \<Longrightarrow> c \<in> C i \<Longrightarrow> asked_for T' d' i (sname st') c"
  shows "hub_ids T' d'"
  unfolding hub_ids_def
proof (intro allI impI ballI)
  fix i st' c assume m: "map_of (sessions d') i = Some st'" and c: "c \<in> seen (task st')"
  from keptD [OF assms(2) m] obtain st where st: "map_of (sessions d) i = Some st" "sname st' = sname st"
      "seen (task st') \<subseteq> seen (task st) \<union> C i" by blast
  show "asked_for T' d' i (sname st') c"
  proof (cases "c \<in> C i")
    case False
    with st(3) c have "c \<in> seen (task st)" by blast
    with assms(1) st(1,2) have "asked_for T d i (sname st') c" by (simp add: hub_ids_def)
    then show ?thesis by (rule asked_for_mono) (rule assms(3,4))+
  qed (rule assms(5) [OF m])
qed

lemma hub_ids_quiet: "hub_ids T d \<Longrightarrow> daemon_inv d \<Longrightarrow> \<not> framed_event e \<Longrightarrow> hub_ids T (daemon_step d e)"
  by (rule hub_ids_kept [OF _ kept_quiet], assumption+) (auto simp: quiet_step simp del: daemon_step.simps intro: exI [of _ "[]"])

lemma hub_ids_frame:
  assumes "hub_ids T d"
  shows "hub_ids (T(c := T c @ [f])) (daemon_step d (TaskEvent i e))"
  by (rule hub_ids_kept [OF assms kept_frame]) (simp_all split: daemon_phase.split)

section \<open>Requests\<close>

text \<open>A request that hands nothing over.\<close>

lemma ids_refused:
  assumes "hub_ids T d" and "kept nobody (sessions d) (sessions d')" and "\<And>x. \<exists>fs. T' x = T x @ fs"
    and "\<exists>rs. replies (daemon_log d') = replies (daemon_log d) @ rs"
  shows "hub_ids T' d'"
  by (rule hub_ids_kept [OF assms]) simp

text \<open>A request that hands its connection over to session \<open>i\<close>, after the steps \<open>during\<close>.\<close>

lemma ids_granted:
  assumes "hub_ids T d" and "distinct (map fst (sessions d))"
    and d': "d' = next_round (hand_off i c (run_tasks during (dlog [Reply c ans] d)))"
    and T: "T c = []" "T' = T(c := [req])"
    and "\<And>st. map_of (sessions d) i = Some st \<Longrightarrow> belongs i (sname st) req ans"
  shows "hub_ids T' d'"
proof -
  let ?C = "\<lambda>j. if j = i then {c} else {}"
  let ?ss = "fold run_task during (sessions d)"
  have "kept nobody (sessions d) ?ss" by (rule kept_run_tasks)
  then have "kept ?C (sessions d) (update_task i (hand_over c) ?ss)" by (rule kept_trans(2)) (rule kept_hand_over)
  moreover have "kept nobody (update_task i (hand_over c) ?ss) (sessions d')"
    using assms(2) by (auto simp: d' run_tasks_def hand_off_def intro!: kept_reap)
  ultimately have k: "kept ?C (sessions d) (sessions d')" by (rule kept_trans(1))
  have r: "replies (daemon_log d') = replies (daemon_log d) @ [(c, ans)]" by (simp add: d')
  have "asked_for T' d' j (sname st') x" if m: "map_of (sessions d') j = Some st'" and x: "x \<in> ?C j" for j st' x
  proof -
    have "j = i" "x = c" using x by (auto split: if_splits)
    with keptD [OF k m] assms(6) have "belongs i (sname st') req ans" by auto
    with r T \<open>j = i\<close> \<open>x = c\<close> show ?thesis by (auto simp: asked_for_def)
  qed
  with k show ?thesis by (intro hub_ids_kept [OF assms(1) k]) (auto simp: r T)
qed

lemma ids_new_session:
  assumes "hub_ids T d" and "daemon_inv d" and "T c = []"
  shows "hub_ids (T(c := [NewSession name])) (handle_new_session c name calls during d)"
proof -
  have di: "distinct (map fst (sessions d))" using assms(2) by (simp add: daemon_inv_def table_inv_def)
  let ?nm = "if name = [] then None else Some name"
  show ?thesis
  proof (cases "name_taken (sessions d) ?nm")
    case True
    then have "handle_new_session c name calls during d =
        next_round (answer c (Error (''session name already exists: '' @ name)) d)"
      by (simp add: handle_new_session_def Let_def)
    then show ?thesis using di assms(3) by (intro ids_refused [OF assms(1)]) (simp_all add: kept_reap)
  next
    case False
    let ?i = "next_id d"
    let ?st = "\<lparr>task = start_session calls, sname = ?nm\<rparr>"
    let ?d1 = "insert_session ?i ?st (d\<lparr>next_id := ?i + 1\<rparr>)"
    have h: "handle_new_session c name calls during d =
        next_round (hand_off ?i c (run_tasks during (dlog [Reply c (SessionCreated (show_u32 ?i))] ?d1)))"
      using False by (simp add: handle_new_session_def Let_def)
    have s: "sessions ?d1 = AList.update ?i ?st (sessions d)" "replies (daemon_log ?d1) = replies (daemon_log d)"
      by (simp_all add: insert_session_def forget_def)
    have "seen (start_session calls) = {}" by (rule conns_inv_start(2))
    then have "hub_ids T ?d1"
      using assms(1) by (auto simp: hub_ids_def s update_conv' asked_for_def split: if_splits)
    from ids_granted [OF this _ h assms(3) refl] show ?thesis
      using di by (simp add: s distinct_update update_conv' belongs_def)
  qed
qed

lemma resolve_belongs:
  assumes "table_inv ss" and "resolve_session ss t = Some i" and "map_of ss i = Some st"
  shows "belongs i (sname st) (Attach t) Ok"
proof (cases "\<exists>j. registry ss j = Some (Some t)")
  case True
  then obtain j where "registry ss j = Some (Some t)" by blast
  with resolve_name [OF assms(1) this] assms(2,3) show ?thesis by (auto simp: belongs_def registry_def)
next
  case False
  then have "parse_u32 t = Some i" using resolve_number [OF assms(1), of t] assms(2) by (auto split: option.splits if_splits)
  then show ?thesis by (simp add: belongs_def)
qed

lemma ids_attach:
  assumes "hub_ids T d" and "daemon_inv d" and "T c = []"
  shows "hub_ids (T(c := [Attach t])) (handle_attach c t during d)"
proof -
  let ?T = "T(c := [Attach t])" and ?d0 = "reap d"
  have ti: "table_inv (sessions d)" using assms(2) by (simp add: daemon_inv_def)
  then have ti0: "table_inv (reap_sessions (sessions d))" by simp
  with ti have di: "distinct (map fst (sessions d))" "distinct (map fst (reap_sessions (sessions d)))"
    by (simp_all add: table_inv_def)
  have T: "\<exists>fs. ?T x = T x @ fs" for x using assms(3) by simp
  have k0: "kept nobody (sessions d) (sessions ?d0)" using di(1) by (simp add: kept_reap)
  have i0: "hub_ids T ?d0" by (rule ids_refused [OF assms(1) k0]) simp_all
  have none: "hub_ids ?T (next_round (answer c (no_such_session t) ?d0))"
    using di T by (intro ids_refused [OF i0]) (simp_all add: kept_reap)
  have dead: "hub_ids ?T (next_round (answer c (no_such_session t) (forget i (\<lambda>s. s) ?d0)))" for i
    using di T by (intro ids_refused [OF i0]) (simp_all add: kept_trans(1) [OF kept_delete kept_reap] distinct_delete)
  have same: "hub_ids ?T ?d0" using T by (intro ids_refused [OF i0]) simp_all
  have ok: "hub_ids ?T (next_round (hand_off i c (run_tasks during (dlog [Reply c Ok] ?d0))))"
    if "resolve_session (sessions ?d0) t = Some i" for i
    using that by (intro ids_granted [OF i0 _ refl assms(3) refl] resolve_belongs [OF ti0]) (simp_all add: di)
  show ?thesis using none dead ok same by (auto simp: handle_attach_def Let_def split: option.split)
qed

lemma ids_request:
  assumes "hub_ids T d" and "daemon_inv d" and "dphase d = Reading c" and "T c = []"
  shows "hub_ids (T(c := T c @ [f])) (daemon_step d (ControlFrame (Some (Inr f)) calls during))"
proof -
  have ti: "table_inv (sessions d)" using assms(2) by (simp add: daemon_inv_def)
  then have di: "distinct (map fst (sessions d))" "distinct (map fst (reap_sessions (sessions d)))"
    by (auto simp: table_inv_def reap_sessions_def intro: distinct_map_filter)
  have T: "\<exists>fs. (T(c := [f])) x = T x @ fs" for x using assms(4) by simp
  have here: "hub_ids (T(c := [f])) (next_round (answer c (Error m) d))" for m
    using di T by (intro ids_refused [OF assms(1)]) (simp_all add: kept_reap)
  have list: "hub_ids (T(c := [f])) (handle_list c d)"
    using di T by (intro ids_refused [OF assms(1)]) (simp_all add: handle_list_def Let_def kept_reap)
  have server: "hub_ids (T(c := [f])) (stop (answer c Ok (shutdown d)))"
    using T by (intro ids_refused [OF assms(1)]) (simp_all add: shutdown_def)
  have k: "kept nobody (sessions d) (reap_sessions (AList.delete i (reap_sessions (sessions d))))" for i
    by (rule kept_trans(1) [OF kept_trans(1) [OF kept_reap [OF di(1)] kept_delete] kept_reap]) (simp add: di distinct_delete)
  have kill: "hub_ids (T(c := [f])) (handle_kill_session c t d)" for t
    using di T k by (intro ids_refused [OF assms(1)])
      (auto simp: handle_kill_session_def Let_def kept_reap split: option.split)
  show ?thesis
    using ids_new_session [OF assms(1,2,4)] ids_attach [OF assms(1,2,4)] here list kill server assms(3,4)
    by (cases f) simp_all
qed

end
