(* ===== verification/Conversation.thy ===== *)
theory Conversation
  imports System_Inv System_Run Identity
begin
text \<open>
  Every connection is a well-typed conversation, in every run of the whole system: upwards a request,
  then what a client sends; downwards one answer of a type for this request, then what a session
  sends; and each side reads a prefix of what the other has sent.
\<close>

declare hand_over_def [simp del] drop_senders_def [simp del] abort_task_def [simp del]

section \<open>What a process sends\<close>

text \<open>In the relay a client sends only frames of the types \<open>from_client\<close>.\<close>

definition chats :: "client \<Rightarrow> client \<Rightarrow> bool" where
  "chats s s' \<longleftrightarrow> (current_env s = [] \<longrightarrow> current_env s' = [])
     \<and> (\<exists>new. clog s' = clog s @ new \<and> list_all from_client (tried new))"

interpretation client_chat: relay_relation chats from_client "\<lambda>d. True"
proof
  fix s s' s'' :: client
  assume "chats s s'" "chats s' s''"
  then obtain n1 n2 where "clog s' = clog s @ n1" "clog s'' = clog s' @ n2"
      "list_all from_client (tried n1)" "list_all from_client (tried n2)"
    by (auto simp: chats_def)
  then have "clog s'' = clog s @ n1 @ n2 \<and> list_all from_client (tried (n1 @ n2))" by simp
  then have "\<exists>new. clog s'' = clog s @ new \<and> list_all from_client (tried new)" ..
  with \<open>chats s s'\<close> \<open>chats s' s''\<close> show "chats s s''" by (simp add: chats_def)
qed (auto simp: chats_def print_def lost_def return_code_def send_or_lose_def
    split: list.split bool.split option.split client_phase.split)

lemma chats_new: "chats s s' \<Longrightarrow> list_all from_client (new_frames s s')"
  by (auto simp: chats_def new_frames_def)

lemma start_chats: "list_all from_client (tried (clog (client_start io name redraw env no_escape)))"
proof -
  have "chats (new_client name redraw env no_escape) (client_start io name redraw env no_escape)"
    unfolding client_start_def
    by (rule client_chat.rel_trans [OF client_chat.rel_io client_chat.rel_relay_start]) simp
  then show ?thesis by (auto simp: chats_def new_client_def)
qed

lemma frameless_chats: "client_frameless ev \<Longrightarrow> list_all from_client (new_frames cl (client_step cl (io, ev)))"
  by (rule chats_new, rule client_chat.rel_relay_step) auto

lemma read_chats: "list_all from_client (new_frames cl (client_step cl (io, ServerFrame r)))"
  by (rule chats_new, rule client_chat.rel_relay_step) auto

text \<open>An attempt tries \<open>Attach\<close> first.\<close>

lemma attempt_chats:
  assumes "client_inv cl" and "peeked a \<noteq> Inr [0x03]" and "connected a"
  shows "list_all from_client (drop 1 (new_frames cl (client_step cl (io, Attempt a))))"
proof (cases "cphase cl = Lost")
  case True
  let ?s0 = "with_io io cl"
  let ?s1 = "clog_add (Sent (Attach (session_name ?s0))) ?s0"
  let ?s2 = "print (text_bytes ''[reconnected]'') ?s1"
  have e: "current_env ?s1 = []" using assms(1) True by (simp add: client_inv_def with_io_def clog_add_def)
  have p: "chats ?s1 ?s2" by (rule client_chat.rel_print) simp
  with e have e2: "current_env ?s2 = []" by (simp add: chats_def)
  let ?s3 = "?s2\<lparr>cphase := Relaying, current_redraw := True\<rparr>"
  have "chats ?s3 (relay_start io ?s3)" by (rule client_chat.rel_relay_start) (simp add: e2)
  with p have r: "chats ?s1 (relay_start io ?s3)" by (auto simp: chats_def)
  have "chats ?s1 (return_code 1 (print (text_bytes (''[session gone: '' @ m @ '']'')) ?s1))" for m
    by (rule client_chat.rel_return_print) simp
  with p r client_chat.rel_refl [of ?s1] have "attach_sent a \<Longrightarrow> chats ?s1 (client_step cl (io, Attempt a))"
    using True assms(2,3) by (simp add: on_attempt_def Let_def split: option.split sum.split frame.split client_phase.split)
  moreover have "\<not> attach_sent a \<Longrightarrow> client_step cl (io, Attempt a) = clog_add (SendFailed (Attach (session_name ?s0))) ?s0"
    using True assms(2,3) by (simp add: on_attempt_def)
  ultimately show ?thesis
    by (cases "attach_sent a") (auto simp: chats_def new_frames_def clog_add_def with_io_def)
qed (simp add: new_frames_def)

section \<open>What the daemon and its tasks send\<close>

definition answered_by :: "(conn \<Rightarrow> frame list) \<Rightarrow> conn \<times> frame \<Rightarrow> bool" where
  "answered_by T r \<longleftrightarrow> (\<exists>req later. T (fst r) = req # later \<and> frame_type_of (snd r) \<in> set (answer_types req))"

definition hub_talk :: "(conn \<Rightarrow> frame list) \<Rightarrow> daemon \<Rightarrow> bool" where
  "hub_talk T d \<longleftrightarrow> (\<forall>t \<in> set (all_tasks d). server_typed t) \<and> (\<forall>r \<in> set (replies (daemon_log d)). answered_by T r)
     \<and> hub_ids T d"

lemma answered_by_mono: "answered_by T r \<Longrightarrow> \<exists>fs. T' (fst r) = T (fst r) @ fs \<Longrightarrow> answered_by T' r"
  by (auto simp: answered_by_def)

lemma lineage_server_typed:
  assumes "lineage C ts us" and "\<forall>t \<in> set ts. server_typed t"
  shows "\<forall>t \<in> set us. server_typed t"
proof
  fix s' assume "s' \<in> set us"
  then obtain s where "server_typed s" "becomes C s s'"
    using assms unfolding lineage_def by (metis server_typed_start)
  then show "server_typed s'" unfolding becomes_def using server_speech.run_inv by blast
qed

lemma hub_talk_quiet: "hub_talk T d \<Longrightarrow> daemon_inv d \<Longrightarrow> \<not> framed_event e \<Longrightarrow> hub_talk T (daemon_step d e)"
  using quiet_step [of e d] lineage_server_typed hub_ids_quiet unfolding hub_talk_def by (metis (no_types))

lemma hub_talk_request:
  assumes "hub_talk T d" and "daemon_inv d" and "dphase d = Reading c" and "T c = []" and "quietly_during during"
  shows "hub_talk (T(c := T c @ [f])) (daemon_step d (ControlFrame (Some (Inr f)) calls during))" (is "hub_talk ?T ?d")
proof -
  have "serves c f d ?d" using serves_request [OF assms(2,5)] assms(3) by simp
  then have "\<forall>t \<in> set (all_tasks ?d). server_typed t"
    using lineage_server_typed assms(1) unfolding serves_def hub_talk_def by blast
  moreover obtain g where g: "replies (daemon_log ?d) = replies (daemon_log d) @ [(c, g)]"
      "frame_type_of g \<in> set (answer_types f)"
    by (rule daemon_answer [OF assms(2,3)])
  have "answered_by ?T r" if "answered_by T r" for r
    using that by (rule answered_by_mono) simp
  moreover have "answered_by ?T (c, g)" using g(2) assms(4) by (simp add: answered_by_def)
  moreover have "hub_ids ?T ?d" using assms(1) by (intro ids_request assms(2-4)) (simp add: hub_talk_def)
  ultimately show ?thesis using assms(1) g(1) by (auto simp: hub_talk_def simp del: daemon_step.simps)
qed

lemma hub_talk_frame:
  assumes "hub_talk T d" and "\<forall>r. dphase d \<noteq> Stopped r"
  shows "hub_talk (T(c := T c @ [f])) (daemon_step d (TaskEvent i (sys, ev)))"
proof -
  let ?d = "d\<lparr>sessions := run_task (i, sys, ev) (sessions d)\<rparr>"
  have "daemon_step d (TaskEvent i (sys, ev)) = ?d" using assms(2) by (cases "dphase d") simp_all
  moreover have "\<forall>t \<in> set (all_tasks ?d). server_typed t"
  proof -
    have "server_typed (task (snd p))" if "p \<in> set (sessions d)" for p
      using assms(1) that by (simp add: hub_talk_def all_tasks_def)
    moreover have "\<forall>t \<in> set (retired d). server_typed t" using assms(1) by (simp add: hub_talk_def all_tasks_def)
    ultimately show ?thesis
      by (force simp: all_tasks_def run_task_def update_task_def intro: server_typed_step split: if_splits)
  qed
  moreover have "answered_by (T(c := T c @ [f])) r" if "answered_by T r" for r
    using that by (rule answered_by_mono) simp
  moreover have "hub_ids (T(c := T c @ [f])) (daemon_step d (TaskEvent i (sys, ev)))"
    using assms(1) by (intro hub_ids_frame) (simp add: hub_talk_def)
  ultimately show ?thesis using assms(1) by (simp add: hub_talk_def del: daemon_step.simps)
qed

section \<open>The invariant\<close>

definition opens :: "frame list \<Rightarrow> bool" where
  "opens fs \<longleftrightarrow> (\<exists>req later. fs = req # later \<and> control_request req \<and> list_all from_client later)"

lemma opens_first: "control_request f \<Longrightarrow> opens [f]"
  by (simp add: opens_def)

lemma opens_post: "opens fs \<Longrightarrow> list_all from_client gs \<Longrightarrow> opens (fs @ gs)"
  by (auto simp: opens_def)

definition talk_ok :: "system \<Rightarrow> bool" where
  "talk_ok s \<longleftrightarrow> hub_talk (heard s) (hub s) \<and> (\<forall>c < next_conn s. opens (posted s c))"

lemma talk_same:
  "talk_ok s \<Longrightarrow> hub s' = hub s \<Longrightarrow> heard s' = heard s \<Longrightarrow> next_conn s' = next_conn s \<Longrightarrow> posted s' = posted s \<Longrightarrow> talk_ok s'"
  unfolding talk_ok_def by metis

lemma talk_post:
  assumes "talk_ok s" and "list_all from_client fs" and "c < next_conn s"
  shows "talk_ok (put_process p st (post c fs (s\<lparr>downs := w\<rparr>)))"
  using assms opens_post by (auto simp: talk_ok_def post_def)

lemma talk_dial:
  assumes "talk_ok s" and "control_request req"
  shows "talk_ok ((dial p req s)\<lparr>procs := ps\<rparr>)"
  using assms opens_first by (auto simp: talk_ok_def dial_def less_Suc_eq)

lemma talk_hub:
  "talk_ok s \<Longrightarrow> hub_talk (\<lambda>x. taken (w x)) d \<Longrightarrow> talk_ok (s\<lparr>hub := d, backlog := b, ups := w\<rparr>)"
  by (simp add: talk_ok_def)

text \<open>Every move keeps it.\<close>

lemma talk_tell: "talk_ok s \<Longrightarrow> daemon_inv (hub s) \<Longrightarrow> \<not> framed_event e \<Longrightarrow> talk_ok (tell e s)"
  using talk_hub [of s "ups s" "daemon_step (hub s) e" "backlog s"] hub_talk_quiet by (simp add: talk_ok_def)

lemma talk_read:
  assumes "talk_ok s"
    and "hub_talk (\<lambda>x. taken (((ups s)(c := take_frame (ups s c))) x)) (daemon_step (hub s) e)"
  shows "talk_ok (tell e (take_up c s))"
  using assms by (simp add: talk_ok_def del: daemon_step.simps)

lemma own_conn:
  assumes "system_ok s"
  shows "stage_of p s = Waiting c \<Longrightarrow> c < next_conn s" "stage_of p s = Working cl c \<Longrightarrow> c < next_conn s \<and> client_inv cl"
    "stage_of p s = Redialing cl c \<Longrightarrow> c < next_conn s \<and> client_inv cl"
  using system_okD(4) [OF assms, of p] by (simp_all add: mine_def)

lemma talk_advance:
  assumes "talk_ok s" and "list_all from_client (drop k (new_frames cl (client_step cl e)))" and "c < next_conn s"
  shows "talk_ok (advance p cl c k e s)" "talk_ok (advance p cl c k e (take_down c s))"
  unfolding advance_def Let_def using talk_post [OF assms, where w = "downs s"] talk_post [OF assms] by simp_all

lemma talk_gone: "talk_ok s \<Longrightarrow> talk_ok (put_process p st s)" "talk_ok s \<Longrightarrow> talk_ok (put_process p st (take_down c s))"
  by (rule talk_same, assumption, simp_all)+

lemma talk_step_hub:
  assumes ok: "system_ok s" and t: "talk_ok s"
  shows "talk_ok (system_step s (AcceptNext err))" "talk_ok (system_step s (ReadRequest calls during))"
    "talk_ok (system_step s (TaskReads i sys))"
proof -
  note k = system_okD(3) [OF ok, unfolded hub_ok_def]
  have "talk_ok (tell (AcceptConn (Inr c) cred) (s\<lparr>backlog := cs\<rparr>))" for c cred cs
  proof (rule talk_tell)
    show "talk_ok (s\<lparr>backlog := cs\<rparr>)" by (rule talk_same [OF t]) simp_all
  qed (simp_all add: custody_inv [OF k])
  with t show "talk_ok (system_step s (AcceptNext err))"
    by (simp add: Let_def del: daemon_step.simps split: list.split)
  have h: "hub_talk (heard s) (hub s)" using t by (simp add: talk_ok_def)
  have "talk_ok (tell (ControlFrame (Some (Inr f)) calls during) (take_up c s))"
    if c: "dphase (hub s) = Reading c" and f: "next_frame (ups s c) = Some f"
      and "list_all (\<lambda>(i, sys, ev). frameless ev) during" for c f
  proof -
    have q: "quietly_during during" using that(3) by (auto simp: list_all_iff)
    have e: "heard s c = []" using k c by (simp add: custody_def)
    have "hub_talk (\<lambda>x. taken (((ups s)(c := take_frame (ups s c))) x))
        (daemon_step (hub s) (ControlFrame (Some (Inr f)) calls during))"
      unfolding taken_at [OF f] by (rule hub_talk_request [OF h custody_inv [OF k] c e q])
    from talk_read [OF t this] show ?thesis .
  qed
  with t show "talk_ok (system_step s (ReadRequest calls during))"
    by (simp del: daemon_step.simps split: daemon_phase.split option.split)
  have "talk_ok (tell (TaskEvent i (sys, ev)) (take_up c s))"
    if f: "next_frame (ups s c) = Some f" and run: "\<forall>r. dphase (hub s) \<noteq> Stopped r" for c f ev
  proof -
    have "hub_talk (\<lambda>x. taken (((ups s)(c := take_frame (ups s c))) x)) (daemon_step (hub s) (TaskEvent i (sys, ev)))"
      unfolding taken_at [OF f] by (rule hub_talk_frame [OF h run])
    from talk_read [OF t this] show ?thesis .
  qed
  with t show "talk_ok (system_step s (TaskReads i sys))"
    by (auto simp del: daemon_step.simps split: daemon_phase.split option.split)
qed

lemma talk_step_process:
  assumes ok: "system_ok s" and t: "talk_ok s"
  shows "talk_ok (system_step s (GetAnswer p io))" "talk_ok (system_step s (ClientReads p io))"
    "talk_ok (system_step s (ClientMoves p io ev))" "talk_ok (system_step s (Conclude p io peek))"
    "talk_ok (system_step s (ConcludeBadly p io peek sent e))"
proof -
  note c = own_conn [OF ok]
  show "talk_ok (system_step s (GetAnswer p io))"
    using t talk_gone [OF t] c(1) talk_post [OF t start_chats]
    by (auto simp: Let_def split: stage.split option.split sum.split outcome.split)
  show "talk_ok (system_step s (ClientReads p io))"
    using t c(2) talk_advance [OF t, of 0] read_chats
    by (auto simp del: client_step.simps split: stage.split option.split)
  show "talk_ok (system_step s (ClientMoves p io ev))"
    using t c(2) talk_advance [OF t, of 0] frameless_chats
    by (auto simp del: client_step.simps split: stage.split)
  have "talk_ok (advance p cl c 1 (io, Attempt a) s)" "talk_ok (advance p cl c 1 (io, Attempt a) (take_down c s))"
    if "stage_of p s = Redialing cl c" "peeked a \<noteq> Inr [0x03]" "connected a" for cl c a
    by (rule talk_advance [OF t attempt_chats]; use c(3) [OF that(1)] that(2,3) in simp)+
  then show "talk_ok (system_step s (Conclude p io peek))" "talk_ok (system_step s (ConcludeBadly p io peek sent e))"
    using t by (auto split: stage.split option.split)
qed

lemma talk_step:
  assumes ok: "system_ok s" and t: "talk_ok s"
  shows "talk_ok (system_step s m)"
proof -
  have inv: "daemon_inv (hub s)" using system_okD(3) [OF ok] unfolding hub_ok_def by (rule custody_inv)
  show ?thesis
  proof (cases m)
    case (Start u cmd env)
    then show ?thesis using t talk_dial [OF t request_control] by (auto split: option.split)
  next
    case (ArriveUp c n)
    show ?thesis unfolding ArriveUp by (rule talk_same [OF t]) auto
  next
    case (ArriveDown c n)
    show ?thesis unfolding ArriveDown by (rule talk_same [OF t]) auto
  next
    case (Redial p)
    have "talk_ok (put_process p st (dial p (Attach n) s))" for st n
      using talk_dial [OF t, where req = "Attach n"] by (simp add: control_request_def dial_def)
    with Redial t show ?thesis by (auto split: stage.split)
  next
    case (LoseRequest e)
    have "\<not> framed_event (ControlFrame (map_option Inl e) pty_ready [])" by (cases e) simp_all
    from talk_tell [OF t inv this] show ?thesis unfolding LoseRequest by (simp del: daemon_step.simps)
  next
    case (TaskMoves i sys ev)
    with t talk_tell [OF t inv, of "TaskEvent i (sys, ev)"] show ?thesis by (simp del: daemon_step.simps)
  next
    case (AcceptFails e)
    with talk_tell [OF t inv, of "AcceptConn (Inl e) (Inr 0)"] show ?thesis by (simp del: daemon_step.simps)
  next
    case TellToStop
    with talk_tell [OF t inv, of StopSignal] show ?thesis by (simp del: daemon_step.simps)
  next
    case (GiveUp p)
    with t talk_gone(1) [OF t] show ?thesis by simp
  qed (simp_all only: talk_step_hub [OF assms] talk_step_process [OF assms])
qed

interpretation typed_system: step_machine system_step "\<lambda>s. system_ok s \<and> talk_ok s"
  by unfold_locales (simp add: system_ok_step talk_step)

lemma talk_ok_reachable: "talk_ok (run_system (start_hub w ctl fd sg) ms)"
proof -
  let ?s = "start_hub w ctl fd sg"
  have "sessions (hub ?s) = []" "retired (hub ?s) = []" "daemon_log (hub ?s) = []"
    by (auto simp: new_system_def start_daemon_def Let_def blank_daemon_def next_round_def reap_def reap_sessions_def
        reaped_def split: prod.split sum.split option.split)
  then have "talk_ok ?s" by (simp add: talk_ok_def hub_talk_def hub_ids_def all_tasks_def) (simp add: new_system_def)
  then show ?thesis using typed_system.run_inv [of ?s ms] system_ok_start by simp
qed

section \<open>The protocol\<close>

definition conversation :: "frame list \<Rightarrow> frame list \<Rightarrow> bool" where
  "conversation up down \<longleftrightarrow>
     (\<exists>req later. up = req # later \<and> control_request req \<and> list_all from_client later
        \<and> (down = [] \<or> (\<exists>ans frames. down = ans # frames \<and> frame_type_of ans \<in> set (answer_types req)
             \<and> list_all from_server frames \<and> (frames = [] \<or> grants_session ans))))"

lemma answer_types_of: "frame_type_of f = frame_type_of g \<Longrightarrow> answer_types f = answer_types g"
  by (cases f; cases g) simp_all

lemma carried_type: "carried f = Inr g \<Longrightarrow> frame_type_of g = frame_type_of f"
  unfolding carried_def by (rule decode_payload_type)

lemma frames_to_typed: "server_typed t \<Longrightarrow> list_all from_server (frames_to c (effects t))"
  by (auto simp: server_typed_def frames_to_def list_all_iff List.map_filter_def split: effect.splits)

lemma outbox_cases:
  assumes "custody A u T d" and "\<forall>t \<in> set (all_tasks d). server_typed t"
  shows "outbox c d = [] \<or> (\<exists>ans frames. outbox c d = ans # frames \<and> (c, ans) \<in> set (replies (daemon_log d))
    \<and> list_all from_server frames \<and> (frames = [] \<or> grants_session ans))"
proof (cases "\<exists>t \<in> set (all_tasks d). c \<in> seen t")
  case True
  then obtain t where t: "t \<in> set (all_tasks d)" "c \<in> seen t" by blast
  obtain g where g: "grants_session g" "outbox c d = g # frames_to c (effects t)" by (rule outbox_owned [OF assms(1) t])
  have "session_out c (all_tasks d) = frames_to c (effects t)"
    by (rule session_out_owner [OF custody_sends_own [OF assms(1)] custody_owners [OF assms(1)] t])
  with g(2) have "replies_to c d = [g]" by (simp add: outbox_def)
  then have "(c, g) \<in> set (replies (daemon_log d))" by (force simp: replies_to_def map_eq_Cons_conv filter_eq_Cons_iff)
  with g t(1) assms(2) frames_to_typed show ?thesis by blast
next
  case False
  then have "session_out c (all_tasks d) = []"
    using session_out_none [OF custody_sends_own [OF assms(1)], of c] by (simp add: owners_zero)
  then have o: "outbox c d = replies_to c d" by (simp add: outbox_def)
  have "length (outbox c d) \<le> 1" by (rule outbox_unowned [OF assms(1)]) (use False in blast)
  then consider "outbox c d = []" | g where "outbox c d = [g]"
    by (cases "outbox c d") auto
  then show ?thesis
  proof cases
    case 2
    then have "(c, g) \<in> set (replies (daemon_log d))" using o by (force simp: replies_to_def map_eq_Cons_conv filter_eq_Cons_iff)
    with 2 show ?thesis by simp
  qed simp
qed

text \<open>
  C7. Every connection is a well-typed conversation.  In every run of the whole system, with any number
  of processes of any users, whatever is cut, lost or interleaved: upwards a request, then only what
  a client sends to a session; downwards at most one answer, of a type for this very request, and
  after it only what a session sends to its client, and only if the answer granted a session.  And
  each side has read, frame by frame, a prefix of what the other has sent.
\<close>

theorem connections_are_typed_conversations:
  assumes "s = run_system (start_hub w ctl fd sg) ms"
    and "\<forall>f \<in> set (posted s c) \<union> set (outbox c (hub s)). fits f"
  shows "((posted s c = [] \<and> outbox c (hub s) = []) \<or> conversation (posted s c) (outbox c (hub s)))
    \<and> (\<exists>fs. prefix fs (posted s c) \<and> carries fs (heard s c))
    \<and> (\<exists>gs. prefix gs (outbox c (hub s)) \<and> carries gs (got s c))"
proof -
  have ok: "system_ok s" "talk_ok s" using system_ok_reachable talk_ok_reachable unfolding assms(1) by blast+
  note k = system_okD [OF ok(1)]
  have cu: "custody (reached s) (user s) (heard s) (hub s)" using k(3) by (simp add: hub_ok_def)
  have ch: "channel_ok (posted s c) (ups s c)" "channel_ok (outbox c (hub s)) (downs s c)"
    using k(2) assms(2) by (simp_all add: flows_ok_def)
  obtain fs where fs: "prefix fs (posted s c)" "carries fs (heard s c)" using ch(1) by (rule channel_ok_prefix)
  have hub: "hub_talk (heard s) (hub s)" and op: "c < next_conn s \<Longrightarrow> opens (posted s c)"
    using ok(2) by (simp_all add: talk_ok_def)
  have down: "outbox c (hub s) = [] \<or> (\<exists>ans frames. outbox c (hub s) = ans # frames
      \<and> (c, ans) \<in> set (replies (daemon_log (hub s))) \<and> list_all from_server frames \<and> (frames = [] \<or> grants_session ans))"
    by (rule outbox_cases [OF cu]) (use hub in \<open>simp add: hub_talk_def\<close>)
  have "frame_type_of ans \<in> set (answer_types req)"
    if a: "(c, ans) \<in> set (replies (daemon_log (hub s)))" "posted s c = req # later" for ans req later
  proof -
    have "answered_by (heard s) (c, ans)" using hub a(1) by (simp add: hub_talk_def)
    then obtain r l where r: "heard s c = r # l" "frame_type_of ans \<in> set (answer_types r)" by (auto simp: answered_by_def)
    then obtain fs' where "fs = req # fs'" "carried req = Inr r"
      using fs a(2) by (auto simp: list_all2_Cons2 prefix_def)
    then have "answer_types r = answer_types req" using carried_type answer_types_of by blast
    with r(2) show ?thesis by simp
  qed
  moreover have "(c, ans) \<in> set (replies (daemon_log (hub s))) \<Longrightarrow> c < next_conn s" for ans
    using cu by (auto simp: custody_def reached_def)
  moreover have "posted s c = []" if "\<not> c < next_conn s" using k(1) that by (simp add: conns_ok_def)
  ultimately have "(posted s c = [] \<and> outbox c (hub s) = []) \<or> conversation (posted s c) (outbox c (hub s))"
    using op down unfolding conversation_def opens_def by (cases "c < next_conn s") blast+
  moreover obtain gs where "prefix gs (outbox c (hub s))" "carries gs (got s c)" using ch(2) by (rule channel_ok_prefix)
  ultimately show ?thesis using fs by blast
qed

theorem connections_are_typed_conversations_witness:
  "conversation (posted sample_system 0) (outbox 0 (hub sample_system))
   \<and> posted sample_system 0 = [NewSession [], Resize 80 24, Data [0x6C, 0x73]]
   \<and> outbox 0 (hub sample_system) = [SessionCreated ''0'', Data [0x6F, 0x6B]]"
  using connections_are_typed_conversations [OF sample_started [symmetric] sample_fits [of 0]]
  by (simp add: sample_sent)

section \<open>The right session\<close>

lemma carried_exact: "carried f = Inr g \<Longrightarrow> belongs i nm g ans \<Longrightarrow> f = g"
  using decode_payload_canonical [of "frame_type_of f" "payload_of f" g]
  by (cases f) (auto simp: carried_def belongs_def)

text \<open>
  C4. The right session.  In every run of the whole system, a session that is in the daemon's table
  has only clients that mean it: each connection it ever had was opened by a process of the daemon's
  user with a request to create a session, which got this number and name, or to attach to this name
  or number, and the process was told so.  So neither what a client types nor what a shell prints
  goes to another session's end.
\<close>

theorem sessions_have_the_right_clients:
  assumes "s = run_system (start_hub w ctl fd sg) ms" and "\<forall>f \<in> set (posted s c). fits f"
    and "map_of (sessions (hub s)) i = Some st" and "c \<in> seen (task st)"
  shows "user s c = uid w \<and> (\<exists>req later ans. posted s c = req # later \<and> belongs i (sname st) req ans
    \<and> outbox c (hub s) = ans # frames_to c (effects (task st)))"
proof -
  have ok: "system_ok s" "talk_ok s" "uid (disk (hub s)) = uid w"
    using system_ok_reachable talk_ok_reachable uid_reachable unfolding assms(1) by blast+
  note k = system_okD [OF ok(1)]
  have cu: "custody (reached s) (user s) (heard s) (hub s)" using k(3) by (simp add: hub_ok_def)
  have t: "task st \<in> set (all_tasks (hub s))" using map_of_SomeD [OF assms(3)] by (force simp: all_tasks_def)
  then have "task_ok (user s) (heard s) (hub s) (task st)" using cu by (simp add: custody_def)
  then have "user s c = uid w" using assms(4) ok(3) by (simp add: task_ok_def entrusted_def)
  moreover have "asked_for (heard s) (hub s) i (sname st) c"
    using ok(2) assms(3,4) by (simp add: talk_ok_def hub_talk_def hub_ids_def)
  then obtain g later ans where g: "heard s c = g # later" "(c, ans) \<in> set (replies (daemon_log (hub s)))"
      "belongs i (sname st) g ans" by (auto simp: asked_for_def)
  obtain fs where "prefix fs (posted s c)" "carries fs (heard s c)"
    using k(2) assms(2) channel_ok_prefix unfolding flows_ok_def by metis
  with g(1) obtain f later' where f: "posted s c = f # later'" "carried f = Inr g"
    by (auto simp: list_all2_Cons2 prefix_def)
  have "session_out c (all_tasks (hub s)) = frames_to c (effects (task st))"
    by (rule session_out_owner [OF custody_sends_own [OF cu] custody_owners [OF cu] t assms(4)])
  moreover have "replies_to c (hub s) = [ans]"
    using filter_key [OF _ g(2)] cu by (simp add: custody_def replies_to_def)
  ultimately show ?thesis using f(1) g(3) carried_exact [OF f(2) g(3)] by (auto simp: outbox_def)
qed

theorem sessions_have_the_right_clients_witness:
  "user sample_system 0 = uid sample_world \<and> (\<exists>req later ans.
     posted sample_system 0 = req # later \<and> belongs 0 None req ans
     \<and> outbox 0 (hub sample_system) = ans # frames_to 0 (effects sample_task))"
proof -
  have "map_of (sessions (hub sample_system)) 0 = Some \<lparr>task = sample_task, sname = None\<rparr>"
    by (simp add: sample_system_def)
  from sessions_have_the_right_clients [OF sample_started [symmetric] _ this, of 0] show ?thesis
    using sample_fits [of 0] by (simp add: sample_task_def seen_def owned_def)
qed

end
