(* ===== verification/Progress.thy ===== *)
theory Progress
  imports Conversation
begin
text \<open>
  Progress: from any state the system can reach, a process whose connection is next in the queue gets
  the answer to its request in five moves, and goes on as \<open>main.rs\<close> says.
\<close>

declare hand_over_def [simp del] drop_senders_def [simp del] abort_task_def [simp del]

section \<open>Channels from which nothing has been read\<close>

lemma arrive_all:
  assumes "channel_ok fs ch" and "taken ch = []" and "length (stream_of fs) \<le> n"
  shows "buffer (arrive fs n ch) = stream_of fs"
proof -
  obtain xs left where "fs = xs @ left" "carries xs (taken ch)" "stream_of xs @ buffer ch = take (arrived ch) (stream_of fs)"
    using assms(1) unfolding channel_ok_def by blast
  with assms(2) have "buffer ch = take (arrived ch) (stream_of fs)" by simp
  with assms(3) show ?thesis by (simp add: arrive_def Let_def)
qed

lemma next_frame_first: "sendable f \<Longrightarrow> buffer ch = stream_of (f # fs) \<Longrightarrow> next_frame ch = Some f"
  by (simp add: next_frame_def decode_encoded)

lemma arrives_first:
  assumes "channel_ok (f # fs) ch" and "taken ch = []" and "length (stream_of (f # fs)) \<le> n" and "sendable f"
  shows "next_frame (arrive (f # fs) n ch) = Some f"
  by (rule next_frame_first [OF assms(4) arrive_all [OF assms(1-3)]])

section \<open>The moves\<close>

definition service :: "conn \<Rightarrow> nat \<Rightarrow> pty_calls \<Rightarrow> nat \<Rightarrow> nat \<Rightarrow> client_io \<Rightarrow> move list" where
  "service c n calls m p io = [ArriveUp c n, AcceptNext None, ReadRequest calls [], ArriveDown c m, GetAnswer p io]"

text \<open>The request reaches the daemon.\<close>

lemma request_served:
  assumes ok: "system_ok s" and acc: "dphase (hub s) = Accepting" and q: "backlog s = c # cs"
    and u: "user s c = uid (disk (hub s))" and req: "posted s c = req # later" "sendable req"
    and fit: "\<forall>f \<in> set (posted s c). fits f" and n: "length (stream_of (posted s c)) \<le> n"
    and s3: "s3 = run_system s [ArriveUp c n, AcceptNext None, ReadRequest calls []]"
  shows "\<exists>ans fs. outbox c (hub s3) = ans # fs \<and> frame_type_of ans \<in> set (answer_types req)
    \<and> downs s3 = downs s \<and> procs s3 = procs s \<and> ctl_path (hub s3) = ctl_path (hub s)"
proof -
  note k = system_okD [OF ok]
  have cu: "custody (reached s) (user s) (heard s) (hub s)" using k(3) by (simp add: hub_ok_def)
  have c: "c \<notin> reached s" using q by (simp add: reached_def)
  with cu have h: "heard s c = []" "c \<notin> fst ` set (replies (daemon_log (hub s)))" by (auto simp: custody_def)
  have "channel_ok (posted s c) (ups s c)" using k(2) fit by (simp add: flows_ok_def)
  with h(1) n req have nx: "next_frame (arrive (posted s c) n (ups s c)) = Some req" by (simp add: arrives_first)
  let ?d = "hub s\<lparr>dphase := Reading c\<rparr>"
  have d2: "daemon_step (hub s) (AcceptConn (Inr c) (Inr (user s c))) = ?d"
    using acc u by (simp add: verify_peer_uid_Inr [THEN iffD2])
  have di: "daemon_inv ?d" using custody_inv [OF cu] by (simp add: daemon_inv_def)
  let ?d3 = "handle_request c req calls [] ?d"
  have h3: "hub s3 = ?d3" "downs s3 = downs s" "procs s3 = procs s"
    using s3 q acc nx d2 by (simp_all del: daemon_step.simps) simp
  obtain ans where a: "replies (daemon_log ?d3) = replies (daemon_log (hub s)) @ [(c, ans)]"
      "frame_type_of ans \<in> set (answer_types req)"
    using daemon_answer [OF di, of c req calls "[]"] by auto
  have "filter (\<lambda>r. fst r = c) (replies (daemon_log (hub s))) = []" using h(2) by (force simp: filter_empty_conv)
  then have "outbox c ?d3 = ans # session_out c (all_tasks ?d3)" by (simp add: outbox_def replies_to_def a(1))
  moreover have "ctl_path ?d3 = ctl_path (hub s)" by (cases req) (simp_all add: handle_new_session_def handle_attach_def
      handle_list_def handle_kill_session_def shutdown_def Let_def split: option.split)
  ultimately show ?thesis unfolding h3 using a(2) by blast
qed

text \<open>
  C8. Progress.  In every reachable state in which the daemon waits for connections, a process of its
  own user whose connection is first in the queue and whose request the codec can carry is served by
  five moves: its bytes arrive, the daemon accepts and answers, the answer arrives and is read.  The
  answer is of a type for this request, and, if the codec can carry it, the process acts on it: it
  becomes a client of the session or reports and ends; it is not left waiting.
\<close>

theorem waiting_process_is_served:
  assumes "s = run_system (start_hub w ctl fd sg) ms" and "dphase (hub s) = Accepting"
    and "stage_of p s = Waiting c" and "backlog s = c # cs" and "puid (procs s ! p) = uid w"
    and "posted s c = req # later" and "sendable req" and "\<forall>f \<in> set (posted s c). fits f"
    and "length (stream_of (posted s c)) \<le> n" and "s' = run_system s (service c n calls m p io)"
  shows "\<exists>ans fs. outbox c (hub s') = ans # fs \<and> frame_type_of ans \<in> set (answer_types req)
    \<and> (sendable ans \<and> (\<forall>f \<in> set fs. fits f) \<and> length (stream_of (ans # fs)) \<le> m \<longrightarrow>
        stage_of p s' =
          (case response_of (ctl_path (hub s)) (procs s ! p) (Some (Inr ans)) of
             Inr (RunClient session redraw env no_escape) \<Rightarrow> Working (client_start io session redraw env no_escape) c
           | _ \<Rightarrow> Over))"
proof -
  have ok: "system_ok s" "uid (disk (hub s)) = uid w"
    using system_ok_reachable uid_reachable unfolding assms(1) by blast+
  have mine: "c \<in> mine s p" "got s c = []" using system_okD(4) [OF ok(1), of p] assms(3) by simp_all
  then have u: "user s c = uid (disk (hub s))" using assms(5) ok(2) by (simp add: mine_def)
  define s3 where "s3 = run_system s [ArriveUp c n, AcceptNext None, ReadRequest calls []]"
  have ok3: "system_ok s3" unfolding s3_def by (rule whole_system.run_inv [OF ok(1)])
  obtain ans fs where a: "outbox c (hub s3) = ans # fs" "frame_type_of ans \<in> set (answer_types req)"
      and same: "downs s3 = downs s" "procs s3 = procs s" "ctl_path (hub s3) = ctl_path (hub s)"
    using request_served [OF ok(1) assms(2,4) u assms(6-9) s3_def] by blast
  have s': "s' = system_step (system_step s3 (ArriveDown c m)) (GetAnswer p io)"
    unfolding assms(10) s3_def service_def by simp
  have "stage_of p s3 = stage_of p s" by (simp add: stage_of_def same(2))
  with assms(3) have st: "stage_of p s3 = Waiting c" by simp
  have p: "p < length (procs s)" using assms(3) by (auto simp: stage_of_def split: if_splits)
  have "hub s' = hub s3"
    unfolding s' by (simp add: Let_def post_def split: stage.split option.split sum.split outcome.split)
  moreover have "stage_of p s' =
      (case response_of (ctl_path (hub s)) (procs s ! p) (Some (Inr ans)) of
         Inr (RunClient session redraw env no_escape) \<Rightarrow> Working (client_start io session redraw env no_escape) c
       | _ \<Rightarrow> Over)"
    if "sendable ans" "\<forall>f \<in> set fs. fits f" "length (stream_of (ans # fs)) \<le> m"
  proof -
    have "channel_ok (ans # fs) (downs s c)"
    proof -
      have "\<forall>f \<in> set (outbox c (hub s3)). fits f" using that(1,2) sendable_fits by (auto simp: a(1))
      then have "channel_ok (outbox c (hub s3)) (downs s3 c)" using system_okD(2) [OF ok3] by (simp add: flows_ok_def)
      then show ?thesis by (simp only: a(1) same(1))
    qed
    from arrives_first [OF this mine(2) that(3,1)]
    have nx: "next_frame (arrive (ans # fs) m (downs s c)) = Some ans" .
    let ?s4 = "system_step s3 (ArriveDown c m)"
    have "stage_of p ?s4 = stage_of p s3" by (simp add: stage_of_def)
    with st have st4: "stage_of p ?s4 = Waiting c" by simp
    have h4: "next_frame (downs ?s4 c) = Some ans" "ctl_path (hub ?s4) = ctl_path (hub s)" "procs ?s4 = procs s"
      using nx by (simp_all add: a(1) same)
    show ?thesis
      unfolding s' system_step.simps(11) [of ?s4] st4 h4 stage.case option.case
      using p h4(3) by (auto simp: stage_of_def Let_def post_def simp del: system_step.simps split: sum.split outcome.split)
  qed
  ultimately show ?thesis using a by auto
qed

definition sample_waiting :: system where
  "sample_waiting = run_system (start_hub sample_world sample_ctl True None) [Start 1000 (NewSessionCmd None False) (\<lambda>x. None)]"

lemma sample_waiting_eq:
  "sample_waiting =
     \<lparr>hub = fresh_daemon,
      procs = [\<lparr>puid = 1000, pcmd = NewSessionCmd None False, penv = (\<lambda>x. None), stage = Waiting 0\<rparr>],
      backlog = [0], next_conn = 1, dialer = (\<lambda>c. 0)(0 := 0), posted = (\<lambda>c. [])(0 := [NewSession []]),
      ups = (\<lambda>c. idle_channel), downs = (\<lambda>c. idle_channel)\<rparr>"
  by (simp add: sample_waiting_def sample_start fresh_daemon_def new_system_def dial_def new_session_request_def)

theorem waiting_process_is_served_witness:
  "\<exists>ans fs. outbox 0 (hub (run_system sample_waiting (service 0 5 pty_ready 100 0 (calm_at 0)))) = ans # fs
    \<and> frame_type_of ans \<in> {TYPE_SESSION_CREATED, TYPE_ERROR}"
proof -
  have f: "frame_bytes (NewSession []) = [0x10, 0, 0, 0, 0]" "sendable (NewSession [])" "fits (NewSession [])"
    by (simp_all add: codec_eval fits_def)
  have "dphase (hub sample_waiting) = Accepting" "stage_of 0 sample_waiting = Waiting 0" "backlog sample_waiting = [0]"
    "puid (procs sample_waiting ! 0) = uid sample_world" "posted sample_waiting 0 = [NewSession []]"
    "\<forall>f \<in> set (posted sample_waiting 0). fits f" "length (stream_of (posted sample_waiting 0)) \<le> 5"
    using f by (simp_all add: sample_waiting_eq fresh_daemon_def blank_daemon_def stage_of_def sample_world_def)
  from waiting_process_is_served [OF sample_waiting_def this(1-5) f(2) this(6,7) refl, of pty_ready 100 "calm_at 0"]
  show ?thesis by auto
qed

end
