(* ===== verification/Reconnection.thy ===== *)
theory Reconnection
  imports Dialogue
begin
text \<open>
  A client that has lost its connection, the daemon and the session's task together: one successful
  turn of the reconnect loop of \<open>client.rs\<close> against the control loop of \<open>daemon.rs\<close>, up to the task of
  \<open>server.rs\<close> that relays on the new connection.
\<close>

declare hand_over_def [simp del] drop_senders_def [simp del] abort_task_def [simp del]

section \<open>Each side of a reconnection\<close>

text \<open>The task receives the connection, whether or not it has noticed that the old one is dead.\<close>

definition farewell :: "phase \<Rightarrow> effect list" where
  "farewell ph =
     (case ph of Relay c \<Rightarrow> [SendFrame c Detached, Close c] | AwaitClient c \<Rightarrow> [Close c] | _ \<Rightarrow> [])"

definition serving :: "session \<Rightarrow> bool" where
  "serving s \<longleftrightarrow> (\<exists>c. phase s = Relay c \<or> phase s = AwaitClient c)"

lemma task_takes_connection:
  assumes "session_inv s" and "serving s" and "client_rx s = []"
    and "s' = session_step (hand_over c s) (sys, ClientRecv)"
  shows "phase s' = Relay c" "client_rx s' = []" "pgid s' = pgid s" "finished s' = finished s"
    "effects s' = effects s @ farewell (phase s)"
    "metadata_slot s' = map_option (\<lambda>m. m\<lparr>attached := True\<rparr>) (metadata_slot s)"
  using assms(1-3)
  by (auto simp: assms(4) serving_def hand_over_def on_client_def emit_def set_attached_def farewell_def session_inv_def)

text \<open>The daemon, from accepting the connection to the task's next step.\<close>

definition attach_events ::
  "conn \<Rightarrow> nat \<Rightarrow> string \<Rightarrow> pty_calls \<Rightarrow> u32 \<Rightarrow> syscalls \<Rightarrow> daemon_event list" where
  "attach_events c peer target calls i sys =
     [AcceptConn (Inr c) (Inr peer), ControlFrame (Some (Inr (Attach target))) calls [], TaskEvent i (sys, ClientRecv)]"

lemma resolve_in_table: "resolve_session ss t = Some i \<Longrightarrow> map_of ss i \<noteq> None"
proof -
  assume r: "resolve_session ss t = Some i"
  have "i \<in> fst ` set ss" if "find (\<lambda>(sid, st). sname st = Some t) ss = Some (i, st)" for st
    using find_SomeD [OF that] by force
  with r show ?thesis
    by (auto simp: resolve_session_def map_of_eq_None_iff split: option.splits if_splits)
qed

lemma not_ended_serving: "serving s \<Longrightarrow> \<not> ended (phase s)"
  by (auto simp: serving_def)

lemma daemon_attaches:
  assumes "daemon_inv d" and "dphase d = Accepting" and "peer = uid (disk d)"
    and "resolve_session (reap_sessions (sessions d)) t = Some i" and "map_of (sessions d) i = Some st"
    and "serving (task st)" and "client_rx (task st) = []"
    and "d' = run_daemon d (attach_events c peer t calls i sys)"
  shows "replies (daemon_log d') = replies (daemon_log d) @ [(c, Ok)]"
    "map_of (sessions d') i = Some (st\<lparr>task := session_step (hand_over c (task st)) (sys, ClientRecv)\<rparr>)"
    "\<And>j. j \<noteq> i \<Longrightarrow> map_of (sessions d') j = map_of (reap_sessions (sessions d)) j"
proof -
  have dist: "distinct (map fst (sessions d))" "distinct (map fst (reap_sessions (sessions d)))"
    using assms(1) table_inv_reap [of "sessions d"] by (auto simp: daemon_inv_def table_inv_def)
  have m: "map_of (reap_sessions (sessions d)) i = Some st" and nf: "\<not> finished (task st)"
    using resolve_in_table [OF assms(4)] assms(5) by (auto simp: map_of_reap [OF dist(1)] split: if_splits)
  have ne: "\<not> ended (phase (task st))" by (rule not_ended_serving [OF assms(6)])
  let ?ss = "update_task i (hand_over c) (reap_sessions (reap_sessions (sessions d)))"
  have rr: "reap_sessions (reap_sessions ss) = reap_sessions ss" for ss
    by (simp add: reap_sessions_def)
  have step: "run_daemon d [AcceptConn (Inr c) (Inr peer), ControlFrame (Some (Inr (Attach t))) calls []] =
      next_round (hand_off i c (run_tasks [] (dlog [Reply c Ok] (reap (d\<lparr>dphase := Reading c\<rparr>)))))"
    using assms(2-4) m ne by (simp add: verify_peer_uid_def handle_attach_def Let_def)
  have d': "d' = daemon_step (next_round (hand_off i c (run_tasks [] (dlog [Reply c Ok] (reap (d\<lparr>dphase := Reading c\<rparr>))))))
      (TaskEvent i (sys, ClientRecv))"
    unfolding assms(8) attach_events_def using step by simp
  show "replies (daemon_log d') = replies (daemon_log d) @ [(c, Ok)]" by (simp add: d')
  have fin: "finished (hand_over c s) = finished s" for s
    by (simp add: hand_over_def)
  have ss: "map_of (reap_sessions (update_task i (hand_over c) (reap_sessions (sessions d)))) j =
      map_option (\<lambda>x. if j = i then x\<lparr>task := hand_over c (task x)\<rparr> else x) (map_of (reap_sessions (sessions d)) j)" for j
    using dist by (auto simp: map_of_reap map_of_update_task fin split: option.split)
  show "map_of (sessions d') i = Some (st\<lparr>task := session_step (hand_over c (task st)) (sys, ClientRecv)\<rparr>)"
    using m by (simp add: d' run_task_def map_of_update_task ss del: session_step.simps)
  show "map_of (sessions d') j = map_of (reap_sessions (sessions d)) j" if "j \<noteq> i" for j
    using that by (simp add: d' run_task_def map_of_update_task ss option.map_ident)
qed

text \<open>The client, on a turn that the daemon answers with \<open>Ok\<close>.\<close>

lemma client_reattaches:
  assumes "cphase cl = Lost" and "client_inv cl" and "calm_io io"
    and "peeked a \<noteq> Inr [0x03]" and "connected a" and "attach_sent a" and "answered a = Some (Inr Ok)"
    and "cl' = client_step cl (io, Attempt a)"
  shows "cphase cl' = Relaying" "last_pong cl' = io_now io"
    "clog cl' = clog cl @ [Sent (Attach (session_name cl)), Printed (text_bytes ''[reconnected]''),
       Sent (Resize (fst (io_winsize io)) (snd (io_winsize io))), Sent (Data [0x0C])]"
proof -
  let ?s1 = "clog_add (Sent (Attach (session_name cl))) (with_io io cl)"
  let ?s2 = "print (text_bytes ''[reconnected]'') ?s1"
  let ?s3 = "?s2\<lparr>cphase := Relaying, current_redraw := True\<rparr>"
  have c: "calm ?s1" using assms(3) by simp
  then have c3: "calm ?s3" "current_env ?s3 = []" "clog ?s3 = clog cl @ [Sent (Attach (session_name cl)), Printed (text_bytes ''[reconnected]'')]"
    using assms(1,2) by (simp_all add: client_inv_def)
  have "cphase ?s2 = Lost" using c assms(1) by simp
  then have cl': "cl' = relay_start io ?s3"
    using assms(1,4-7) by (simp add: assms(8) on_attempt_def Let_def)
  show "cphase cl' = Relaying" "last_pong cl' = io_now io"
    "clog cl' = clog cl @ [Sent (Attach (session_name cl)), Printed (text_bytes ''[reconnected]''),
       Sent (Resize (fst (io_winsize io)) (snd (io_winsize io))), Sent (Data [0x0C])]"
    using c3 by (simp_all add: cl' relay_start_def Let_def send_size_def case_prod_beta)
qed

section \<open>Properties\<close>

text \<open>
  C11. A lost client gets its session back.  If the name it attached by still means a session whose
  shell runs, then one turn of the reconnect loop that gets through ends with the client relaying
  again and the session relaying to the new connection: the daemon answers \<open>Ok\<close>, the client sends
  its window size and a redraw, the shell is the same and marked attached, and the old connection is
  told \<open>Detached\<close> if the session had not noticed its loss, and closed.  No other session is touched.
\<close>

theorem lost_client_resumes_its_session:
  assumes "daemon_inv d" and "dphase d = Accepting" and "peer = uid (disk d)"
    and "resolve_session (reap_sessions (sessions d)) (session_name cl) = Some i"
    and "map_of (sessions d) i = Some st" and "serving (task st)" and "client_rx (task st) = []"
    and "cphase cl = Lost" and "client_inv cl" and "calm_io io"
    and "peeked a \<noteq> Inr [0x03]" and "connected a" and "attach_sent a"
    and "d' = run_daemon d (attach_events c peer (session_name cl) calls i sys)"
    and "replies (daemon_log d') = replies (daemon_log d) @ [(c, f)]"
    and "arrives f later r" and "answered a = Some r"
  shows "cphase (client_step cl (io, Attempt a)) = Relaying
    \<and> sent_frames (clog (client_step cl (io, Attempt a))) = sent_frames (clog cl)
        @ [Attach (session_name cl), Resize (fst (io_winsize io)) (snd (io_winsize io)), Data [0x0C]]
    \<and> (\<exists>st'. map_of (sessions d') i = Some st' \<and> phase (task st') = Relay c
         \<and> pgid (task st') = pgid (task st) \<and> map_option attached (metadata_slot (task st')) = Some True
         \<and> effects (task st') = effects (task st) @ farewell (phase (task st)))
    \<and> (\<forall>j. j \<noteq> i \<longrightarrow> map_of (sessions d') j = map_of (reap_sessions (sessions d)) j)"
proof -
  note att = daemon_attaches [OF assms(1-7), OF assms(14)]
  have f: "f = Ok" using att(1) assms(15) by simp
  have "r = Inr Ok"
    using assms(16) decode_encoded [of Ok later] by (auto simp: arrives_def f)
  note cl = client_reattaches [OF assms(8-13) _ refl] assms(17) [unfolded this]
  have si: "session_inv (task st)"
    using assms(1,5) tasks_ok_map_of session_reachable_inv by (auto simp: daemon_inv_def)
  note tk = task_takes_connection [OF si assms(6,7) refl, of c sys]
  have "map_option attached (map_option (\<lambda>m. m\<lparr>attached := True\<rparr>) (metadata_slot (task st))) = Some True"
    using si assms(6) by (auto simp: session_inv_def serving_def)
  with att tk cl(1,3) [OF cl(4)] show ?thesis by auto
qed

theorem lost_client_resumes_its_session_witness:
  "\<exists>st'. map_of (sessions (run_daemon ((busy_daemon None)\<lparr>dphase := Accepting\<rparr>)
       (attach_events 6 1000 ''0'' pty_ready 0 quiet_calls))) 0 = Some st' \<and> phase (task st') = Relay 6
     \<and> pgid (task st') = Some 42"
proof -
  let ?d = "(busy_daemon None)\<lparr>dphase := Accepting\<rparr>"
  let ?cl = "sample_client\<lparr>cphase := Lost\<rparr>"
  let ?a = "\<lparr>peeked = Inl (OsError 11), connected = True, attach_sent = True, answered = Some (Inr Ok)\<rparr>"
  have d: "daemon_inv ?d" "dphase ?d = Accepting" "1000 = uid (disk ?d)"
    by (simp_all add: busy_daemon_inv) (simp add: busy_daemon_def fresh_daemon_def blank_daemon_def)
  have n: "session_name ?cl = ''0''" by (simp add: sample_client_eq new_client_def)
  have ss: "sessions ?d = [(0, \<lparr>task = run_session (start_session pty_ready) boot, sname = None\<rparr>)]"
    by (simp add: busy_daemon_def)
  have "char_of (48 :: nat) = CHR ''0''" by (simp add: char_of_eq_iff)
  then have "parse_u32 ''0'' = Some 0" using parse_show_u32 [of 0] by (simp add: show_u32_def show_nat.simps digit_char_def)
  then have r: "resolve_session (reap_sessions (sessions ?d)) (session_name ?cl) = Some 0"
    unfolding n by (simp add: ss reap_sessions_def resolve_session_def boot_run)
  have m: "map_of (sessions ?d) 0 = Some \<lparr>task = run_session (start_session pty_ready) boot, sname = None\<rparr>"
    by (simp add: ss)
  have s: "serving (run_session (start_session pty_ready) boot)" "client_rx (run_session (start_session pty_ready) boot) = []"
    by (simp_all add: serving_def boot_run)
  have ci: "client_inv ?cl" by (simp add: client_inv_def sample_client_eq new_client_def)
  have rep: "replies (daemon_log (run_daemon ?d (attach_events 6 1000 (session_name ?cl) pty_ready 0 quiet_calls))) =
      replies (daemon_log ?d) @ [(6, Ok)]"
    using daemon_attaches(1) [OF d r m _ _ refl] s by simp
  have "arrives Ok [] (Inr Ok)" using decode_encoded [of Ok "[]"] by (simp add: arrives_def)
  from lost_client_resumes_its_session [OF d r m _ _ _ ci _ _ _ _ refl rep this, of "calm_at 1" ?a] s
  show ?thesis by (auto simp: n boot_run)
qed

text \<open>
  A session is found again only by its name or number, and a daemon that starts again counts
  from 0.  So a client that was attached to session 0 when the daemon went down gets, once it
  reconnects, the first session of the new daemon: it is answered \<open>Ok\<close>, the creator of that session is
  thrown out with \<open>Detached\<close>, and the stray client types into a shell that was never its own.
\<close>

theorem stale_id_takes_over_new_session:
  assumes "start_daemon w p fd sg = (d0, ready)" and "dphase d0 = Accepting"
    and "open_session_pty pc = Inr pty" and "sys_spawn sys = Inr pid" and "peer = uid (disk d0)"
    and "d1 = run_daemon d0 [AcceptConn (Inr c1) (Inr peer), ControlFrame (Some (Inr (NewSession name))) pc [],
        TaskEvent 0 (sys, ClientRecv), TaskEvent 0 (sys, EnvWait first)]"
    and "d2 = run_daemon d1 (attach_events c2 peer (show_u32 0) pc 0 sys')"
  shows "replies (daemon_log d2) = [(c1, SessionCreated (show_u32 0)), (c2, Ok)]
    \<and> (\<exists>st. map_of (sessions d2) 0 = Some st \<and> phase (task st) = Relay c2 \<and> pgid (task st) = Some (sint pid)
          \<and> SendFrame c1 Detached \<in> set (effects (task st)))"
proof -
  obtain w1 w2 w3 where "bind_unix_listener w1 p = (Inr (), w2)" "write_file w2 (pid_file_path p) = Inr w3"
    and d0: "d0 = blank_daemon w3 p" "ready = fd"
    using start_daemon_accepting [OF assms(1,2)] .
  have inv: "daemon_inv d1"
    unfolding assms(6) d0 by (rule control_loop.run_inv) simp
  let ?s0 = "blank_session pty"
  let ?s = "spawn_shell sys c1 first (?s0\<lparr>phase := ReadEnv c1\<rparr>)"
  let ?nm = "if name = [] then None else Some name"
  have nt: "\<not> name_taken [] nm" for nm by (simp add: name_taken_def split: option.split)
  have d1: "dphase d1 = Accepting" "disk d1 = disk d0" "replies (daemon_log d1) = [(c1, SessionCreated (show_u32 0))]"
      "sessions d1 = [(0, \<lparr>task = ?s, sname = ?nm\<rparr>)]"
    using assms(3,5)
    by (simp_all add: assms(6) d0 blank_daemon_def verify_peer_uid_def handle_new_session_def Let_def nt start_session_def
        reap_sessions_def update_task_def hand_over_def blank_session_def run_task_def on_client_def)
  have sp: "phase ?s = Relay c1" "client_rx ?s = []" "pgid ?s = Some (sint pid)" "finished ?s = False"
    using assms(4) by (simp_all add: spawn_shell_def Let_def blank_session_def set_attached_def)
  have r: "resolve_session (reap_sessions (sessions d1)) (show_u32 0) = Some 0"
    by (auto simp: d1(4) reap_sessions_def sp resolve_session_def)
  have m: "map_of (sessions d1) 0 = Some \<lparr>task = ?s, sname = ?nm\<rparr>" by (simp add: d1(4))
  have sv: "serving ?s" by (simp add: serving_def sp)
  have "peer = uid (disk d1)" using assms(5) d1(2) by simp
  note att = daemon_attaches [OF inv d1(1) this r m _ _ assms(7)]
  have si: "session_inv ?s"
    using inv m tasks_ok_map_of session_reachable_inv by (fastforce simp: daemon_inv_def)
  note tk = task_takes_connection [OF si sv sp(2) refl, of c2 sys']
  show ?thesis
    using att sv sp d1(3) tk by (simp add: farewell_def)
qed

theorem stale_id_takes_over_new_session_witness:
  "let d1 = run_daemon (fst (start_daemon sample_world sample_ctl True None))
        [AcceptConn (Inr 1) (Inr 1000), ControlFrame (Some (Inr (NewSession ''work''))) pty_ready [],
         TaskEvent 0 (quiet_calls, ClientRecv), TaskEvent 0 (quiet_calls, EnvWait None)]
   in \<exists>st. map_of (sessions (run_daemon d1 (attach_events 2 1000 (show_u32 0) pty_ready 0 quiet_calls))) 0 = Some st
        \<and> phase (task st) = Relay 2 \<and> SendFrame 1 Detached \<in> set (effects (task st))"
proof -
  have p: "open_session_pty pty_ready = Inr ''/dev/pts/3''"
    by (simp add: open_session_pty_def pty_ready_def checked_dup_def none_or_def)
  have s: "sys_spawn quiet_calls = Inr 42" by (simp add: quiet_calls_def)
  have d: "dphase (blank_daemon sample_disk sample_ctl) = Accepting" "1000 = uid (disk (blank_daemon sample_disk sample_ctl))"
    by (simp_all add: blank_daemon_def)
  from stale_id_takes_over_new_session [OF sample_start d(1) p s d(2) refl refl, of 1 "''work''" None 2 quiet_calls]
  show ?thesis unfolding Let_def sample_start fst_conv by blast
qed

end
