(* ===== verification/Orphans.thy ===== *)
theory Orphans
  imports Daemon_Props
begin
text \<open>
  No shell outlives its daemon unnoticed.  A task that the daemon lets go of (because it was killed,
  found finished, found ended by an attach, or because the daemon stops) has ended, so it has hung
  up the process group of its shell; and every session ever created is either still in the table
  or has been let go.
\<close>

declare hand_over_def [simp del] drop_senders_def [simp del] abort_task_def [simp del]

section \<open>Tasks that are finished have ended\<close>

lemma finished_ended_step:
  "(finished s \<longrightarrow> ended (phase s)) \<Longrightarrow> finished (session_step s e) \<longrightarrow> ended (phase (session_step s e))"
proof (cases e rule: sessionevent_cases)
  case (1 sys)
  assume "finished s \<longrightarrow> ended (phase s)"
  with 1 show ?thesis
    by (cases "phase s") (auto simp: on_client_def set_attached_def finish_def split: list.splits option.splits)
next
  case (2 sys r)
  assume "finished s \<longrightarrow> ended (phase s)"
  with 2 show ?thesis
    by (cases "phase s") (auto simp: spawn_shell_def set_attached_def Let_def finish_def split: sum.splits option.splits)
next
  case (9 sys ready r)
  assume "finished s \<longrightarrow> ended (phase s)"
  with 9 show ?thesis
    by (cases "phase s") (auto simp: on_pty_readable_def shell_exited_def finish_def Let_def
        split: sum.splits option.splits)
qed (cases "phase s"; auto simp: client_gone_def finish_def shell_exited_def hand_over_def drop_senders_def
    abort_task_def set_heartbeat_def set_attached_def on_child_exit_def split: sum.splits option.splits prod.splits)+

lemma finished_ended: "session_reachable s \<Longrightarrow> finished s \<Longrightarrow> ended (phase s)"
proof (induction rule: session_reachable.induct)
  case (started calls)
  then show ?case by (simp add: start_session_def blank_session_def split: sum.splits)
next
  case (stepped s e)
  then show ?case using finished_ended_step [of s e] by blast
qed

lemma reachable_hups:
  assumes "session_reachable s"
  shows "hups (effects s) =
    (if ended (phase s) then (case pgid s of None \<Rightarrow> [] | Some g \<Rightarrow> [SignalGroup g SIGHUP]) else [])"
proof -
  have "hup_inv (start_session calls)" for calls
    by (simp add: hup_inv_def start_session_def blank_session_def split: sum.splits)
  with assms have "hup_inv s"
    by (induction rule: session_reachable.induct) (auto intro: hup_inv_step)
  then show ?thesis by (simp add: hup_inv_def)
qed

lemma task_actions [simp]: "phase (drop_senders s) = phase s" "ended (phase (abort_task s))"
  by (simp_all add: drop_senders_def abort_task_def)

section \<open>What the daemon has let go\<close>

text \<open>Of the \<open>n\<close> sessions created, with the ids below \<open>n\<close>, some are in the table, the others have ended.\<close>

definition accounted :: "nat \<Rightarrow> daemon \<Rightarrow> bool" where
  "accounted n d \<longleftrightarrow> distinct (map fst (sessions d)) \<and> tasks_ok (sessions d)
     \<and> fst ` set (sessions d) \<subseteq> of_nat ` {..<n}
     \<and> (n \<le> 2 ^ 32 \<longrightarrow> (\<forall>s \<in> set (retired d). ended (phase s)))
     \<and> length (retired d) + length (sessions d) = n"

lemma accounted_cong:
  "sessions d' = sessions d \<Longrightarrow> retired d' = retired d \<Longrightarrow> accounted n d' = accounted n d"
  by (simp add: accounted_def)

lemma accounted_simple [simp]:
  "accounted n (dlog es d) = accounted n d" "accounted n (answer c f d) = accounted n d"
  "accounted n (stop d) = accounted n d" "accounted n (d\<lparr>dphase := p\<rparr>) = accounted n d"
  "accounted n (d\<lparr>next_id := i\<rparr>) = accounted n d"
  by (simp_all add: accounted_def)

lemma reaped_ended: "tasks_ok ss \<Longrightarrow> s \<in> set (reaped ss) \<Longrightarrow> ended (phase s)"
  by (force simp: reaped_def tasks_ok_def tasks_of_def intro: finished_ended)

lemma length_reap: "length (reaped ss) + length (reap_sessions ss) = length ss"
  using sum_length_filter_compl [of "\<lambda>(i, st). finished (task st)" ss]
  by (simp add: reaped_def reap_sessions_def case_prod_beta')

lemma accounted_reap [simp]: "accounted n d \<Longrightarrow> accounted n (reap d)"
proof -
  assume a: "accounted n d"
  moreover have "set (reap_sessions (sessions d)) \<subseteq> set (sessions d)" by (auto simp: reap_sessions_def)
  moreover have "distinct (map fst (reap_sessions (sessions d)))"
    using a by (simp add: accounted_def reap_sessions_def distinct_map_filter)
  ultimately show ?thesis
    using length_reap [of "sessions d"] by (auto simp: accounted_def reaped_ended)
qed

lemma accounted_next_round [simp]: "accounted n d \<Longrightarrow> accounted n (next_round d)"
  by (simp add: next_round_def)

lemma accounted_tables:
  assumes "accounted n d" and "map fst ss = map fst (sessions d)" and "tasks_ok ss"
  shows "accounted n (d\<lparr>sessions := ss\<rparr>)"
proof -
  have "length ss = length (sessions d)" "fst ` set ss = fst ` set (sessions d)"
    using assms(2) map_eq_imp_length_eq [OF assms(2)] by (simp_all flip: set_map)
  with assms show ?thesis by (simp add: accounted_def)
qed

lemma accounted_task_steps [simp]:
  assumes "accounted n d"
  shows "accounted n (run_tasks es d)" "accounted n (hand_off i c d)"
    "accounted n (d\<lparr>sessions := run_task e (sessions d)\<rparr>)"
  using assms unfolding run_tasks_def hand_off_def
  by (intro accounted_tables; simp add: accounted_def tasks_ok_update_task)+

lemma length_delete:
  "distinct (map fst ss) \<Longrightarrow>
   length (AList.delete i ss) + (case map_of ss i of None \<Rightarrow> 0 | Some st \<Rightarrow> 1) = length ss"
proof (induction ss)
  case (Cons p ss)
  then show ?case by (cases p) (auto simp: AList.delete_id split: option.splits)
qed simp

lemma length_update: "distinct (map fst ss) \<Longrightarrow> length (AList.update i st ss) = length (AList.delete i ss) + 1"
proof (induction ss)
  case (Cons p ss)
  then show ?case by (cases p) (auto simp: AList.delete_id)
qed simp

lemma accounted_forget:
  assumes a: "accounted n d" and f: "\<And>st. map_of (sessions d) i = Some st \<Longrightarrow> ended (phase (f (task st)))"
  shows "accounted n (forget i f d)"
proof -
  have "set (AList.delete i (sessions d)) \<subseteq> set (sessions d)" by (auto simp: AList.delete_eq)
  with a f show ?thesis
    using length_delete [of "sessions d" i]
    by (cases "map_of (sessions d) i") (auto simp: accounted_def distinct_delete)
qed

lemma accounted_shutdown: "accounted n d \<Longrightarrow> accounted n (shutdown d)"
  by (auto simp: accounted_def tasks_ok_def tasks_of_def)

text \<open>A session gets an id that no session in the table has, until the ids wrap.\<close>

lemma accounted_insert:
  assumes a: "accounted n d" and "session_reachable (task st)"
  shows "accounted (Suc n) (insert_session (of_nat n) st d)"
proof -
  let ?i = "of_nat n :: u32"
  have keys: "fst ` set (AList.update ?i st (sessions d)) \<subseteq> of_nat ` {..<Suc n}"
    using a by (auto simp: accounted_def dom_update lessThan_Suc)
  have new: "map_of (sessions d) ?i = None" if "Suc n \<le> 2 ^ 32"
  proof -
    have "?i \<noteq> of_nat k" if "k < n" for k
      using that \<open>Suc n \<le> 2 ^ 32\<close> by (auto simp: word_of_nat_eq_iff take_bit_nat_eq_self)
    with a show ?thesis by (auto simp: accounted_def map_of_eq_None_iff)
  qed
  have "length (AList.update ?i st (sessions d)) =
      length (AList.delete ?i (sessions d)) + 1"
    using a by (simp add: accounted_def length_update)
  with a assms(2) keys new show ?thesis
    using length_delete [of "sessions d" ?i]
    by (cases "map_of (sessions d) ?i")
      (auto simp: accounted_def distinct_update tasks_ok_update)
qed

section \<open>The daemon accounts for every session\<close>

abbreviation created :: "daemon \<Rightarrow> nat" where
  "created d \<equiv> length (created_ids (daemon_log d))"

definition books :: "daemon \<Rightarrow> bool" where
  "books d \<longleftrightarrow> ids_inv d \<and> accounted (created d) d \<and> (dphase d = Stopped (Inr ()) \<longrightarrow> sessions d = [])"

lemma books_id: "books d \<Longrightarrow> next_id d = of_nat (created d)"
  by (simp add: books_def ids_inv_def Let_def)

lemma accounted_new_session:
  assumes "books d"
  shows "accounted (created (handle_new_session c name calls during d)) (handle_new_session c name calls during d)"
proof -
  have a: "accounted (created d) d" using assms by (simp add: books_def)
  from accounted_insert [OF a, of "\<lparr>task = start_session calls, sname = nm\<rparr>" for nm] started
  have "accounted (Suc (created d)) (insert_session (next_id d) \<lparr>task = start_session calls, sname = nm\<rparr> (d\<lparr>next_id := k\<rparr>))" for nm k
    unfolding books_id [OF assms] by (subst accounted_cong [of _ "insert_session (of_nat (created d)) \<lparr>task = start_session calls, sname = nm\<rparr> d"]) simp_all
  with a show ?thesis
    by (simp add: handle_new_session_def Let_def del: insert_session_fields(1,5))
qed

lemma accounted_other:
  assumes "accounted n d"
  shows "accounted n (handle_attach c t during d)" "accounted n (handle_list c d)"
    "accounted n (handle_kill_session c t d)" "accounted n (stop (answer c Ok (shutdown d)))"
    "accounted n (next_round (answer c f d))" "accounted n (next_round (dlog es d))"
  using assms
  by (auto simp: handle_attach_def handle_list_def handle_kill_session_def Let_def accounted_shutdown
      simp del: reap_fields intro!: accounted_next_round accounted_task_steps accounted_forget split: option.split)

lemma created_request:
  "created_ids (daemon_log (handle_attach c t during d)) = created_ids (daemon_log d)"
  "created_ids (daemon_log (handle_list c d)) = created_ids (daemon_log d)"
  by (simp_all add: handle_attach_def handle_list_def no_such_session_def Let_def split: option.split)

lemma books_request:
  assumes b: "books d" and p: "dphase d = Reading c"
  shows "books (handle_request c f calls during d)"
proof -
  have a: "accounted (created d) d" using b by (simp add: books_def)
  have "accounted (created (handle_request c f calls during d)) (handle_request c f calls during d)"
    using accounted_new_session [OF b] accounted_other [OF a]
    by (cases f) (simp_all add: created_request)
  moreover have "dphase (handle_request c f calls during d) = Stopped (Inr ()) \<longrightarrow>
      sessions (handle_request c f calls during d) = []"
    using p by (cases f) (auto simp: handle_new_session_def handle_attach_def handle_list_def
        handle_kill_session_def Let_def split: option.splits)
  ultimately show ?thesis using b ids_inv_request [of d] by (simp add: books_def)
qed

lemma books_step: "books d \<Longrightarrow> books (daemon_step d e)"
proof (cases e)
  case (AcceptConn r cred)
  assume b: "books d"
  then have "ids_inv (daemon_step d e)" by (simp add: books_def ids_inv_step del: daemon_step.simps)
  with b AcceptConn show ?thesis by (auto simp: books_def accounted_other split: sum.splits)
next
  case StopSignal
  assume b: "books d"
  then have "ids_inv (daemon_step d e)" by (simp add: books_def ids_inv_step del: daemon_step.simps)
  with b StopSignal show ?thesis by (auto simp: books_def accounted_shutdown)
next
  case (ControlFrame r calls during)
  assume b: "books d"
  then have "ids_inv (next_round (dlog [DropConn c] d))" for c
    by (subst ids_inv_cong [of _ d]) (simp_all add: books_def)
  with b ControlFrame show ?thesis
    by (auto simp: books_request split: daemon_phase.split option.split sum.split)
      (auto simp: books_def accounted_other)
next
  case (TaskEvent i ev)
  assume b: "books d"
  then have "ids_inv (daemon_step d e)" by (simp add: books_def ids_inv_step del: daemon_step.simps)
  with b TaskEvent show ?thesis by (auto simp: books_def split: daemon_phase.splits)
qed

interpretation bookkeeping: step_machine daemon_step books
  by unfold_locales (rule books_step)

lemma books_start: "books (fst (start_daemon w p fd sg))"
  by (auto simp: start_daemon_def blank_daemon_def Let_def books_def ids_inv_def accounted_def tasks_ok_def tasks_of_def
      next_round_def reap_def reap_sessions_def split: prod.split sum.split option.split)

text \<open>
  C12. No shell is left behind.  In every run of the daemon that creates at most \<open>2 ^ 32\<close> sessions, each
  session ever created is either in the table or has been let go; one that was let go, for whatever
  reason, has ended, and its shell's process group (if it had a shell) has got exactly one
  \<open>SIGHUP\<close>; and a daemon that has stopped regularly has let all of them go.
\<close>

theorem no_shell_left_behind:
  assumes "d = run_daemon (fst (start_daemon w p fd sg)) es" and "length (created_ids (daemon_log d)) \<le> 2 ^ 32"
  shows "length (retired d) + length (sessions d) = length (created_ids (daemon_log d))
    \<and> (\<forall>s \<in> set (retired d). ended (phase s)
         \<and> hups (effects s) = (case pgid s of None \<Rightarrow> [] | Some g \<Rightarrow> [SignalGroup g SIGHUP]))
    \<and> (dphase d = Stopped (Inr ()) \<longrightarrow> sessions d = [])"
proof -
  have b: "books d" unfolding assms(1) by (rule bookkeeping.run_inv [OF books_start])
  then have a: "accounted (created d) d" by (simp add: books_def)
  have i: "daemon_inv d" unfolding assms(1) by (rule control_loop.run_inv [OF daemon_inv_start])
  show ?thesis
  proof (intro conjI ballI)
    fix s assume s: "s \<in> set (retired d)"
    with a assms(2) show e: "ended (phase s)" by (simp add: accounted_def)
    from i s have "session_reachable s" by (simp add: daemon_inv_def)
    from reachable_hups [OF this] e
    show "hups (effects s) = (case pgid s of None \<Rightarrow> [] | Some g \<Rightarrow> [SignalGroup g SIGHUP])" by simp
  qed (use a b in \<open>simp_all add: accounted_def books_def\<close>)
qed

definition sample_life :: "daemon_event list" where
  "sample_life =
     request 1 (NewSession ''w'') @ [TaskEvent 0 (quiet_calls, ClientRecv), TaskEvent 0 (quiet_calls, EnvWait None)]
       @ request 2 (NewSession []) @ request 3 KillServer"

lemmas life_eval = sample_life_def request_def fresh_daemon_def blank_daemon_def verify_peer_uid_def
  handle_new_session_def name_taken_def next_round_def reap_def reap_sessions_def reaped_def forget_def
  insert_session_def run_task_def run_tasks_def update_task_def hand_off_def hand_over_def dlog_def pty_ready_start
  blank_session_def on_client_def quiet_calls_def spawn_shell_def emit_def set_attached_def
  env_of_first_frame_def shell_command_of_def Let_def answer_def shutdown_def stop_def

lemma sample_life_ends:
  "let d = run_daemon fresh_daemon sample_life in
   dphase d = Stopped (Inr ()) \<and> map pgid (retired d) = [Some 42, None] \<and> length (created_ids (daemon_log d)) = 2"
  by (simp add: life_eval drop_senders_def abort_task_def leave_def)

theorem no_shell_left_behind_witness:
  "let d = run_daemon (fst (start_daemon sample_world sample_ctl True None)) sample_life in
   sessions d = [] \<and> map (\<lambda>s. hups (effects s)) (retired d) = [[SignalGroup 42 SIGHUP], []]"
proof -
  define d where "d = run_daemon (fst (start_daemon sample_world sample_ctl True None)) sample_life"
  have l: "dphase d = Stopped (Inr ())" "map pgid (retired d) = [Some 42, None]" "length (created_ids (daemon_log d)) = 2"
    using sample_life_ends unfolding d_def sample_start fresh_daemon_def Let_def by simp_all
  have "length (created_ids (daemon_log d)) \<le> 2 ^ 32" unfolding l(3) by simp
  note n = no_shell_left_behind [OF d_def this]
  from n l(2) have "map (\<lambda>s. hups (effects s)) (retired d) = [[SignalGroup 42 SIGHUP], []]"
    by (auto simp: map_eq_Cons_conv)
  with n l(1) show ?thesis by (simp add: d_def Let_def)
qed

end
