(* ===== verification/Session_Tests.thy ===== *)
theory Session_Tests
  imports End_To_End
begin
text \<open>
  The integration tests of the session task, \<open>tests/e2e_test.rs\<close>, run on the model.  A test is a
  script: what the client does, what the shell does, and assertions.  The shell is not there, so
  its answer to a command is part of the script; what the test asserts is that the shell got the
  command whole and that the client gets the answer, whatever happened before.
\<close>

declare hand_over_def [simp del] drop_senders_def [simp del] abort_task_def [simp del]

section \<open>Scripts\<close>

text \<open>A script passes if every step's assertion holds in the state after it.\<close>

fun script_passes :: "('t \<Rightarrow> 's \<Rightarrow> 's) \<Rightarrow> ('t \<Rightarrow> 's \<Rightarrow> bool) \<Rightarrow> 't list \<Rightarrow> 's \<Rightarrow> bool"
and script_from :: "('t \<Rightarrow> 's \<Rightarrow> 's) \<Rightarrow> ('t \<Rightarrow> 's \<Rightarrow> bool) \<Rightarrow> 't \<Rightarrow> 't list \<Rightarrow> 's \<Rightarrow> bool" where
  "script_passes act ok [] s = True"
| "script_passes act ok (t # ts) s = script_from act ok t ts (act t s)"
| "script_from act ok t ts s = (ok t s \<and> script_passes act ok ts s)"

datatype session_script_step =
    Happens "event list"                   \<comment> \<open>steps of the task\<close>
  | Types conn bytes bytes                 \<comment> \<open>a client's \<open>Data\<close> frame, and the shell's answer\<close>
  | Expects "session \<Rightarrow> bool"              \<comment> \<open>an assertion\<close>

text \<open>A call of \<open>write\<close> that takes everything.\<close>

definition writes_all :: "bytes \<Rightarrow> syscalls" where
  "writes_all d = quiet_calls\<lparr>sys_write := Inr (length d)\<rparr>"

fun session_act :: "session_script_step \<Rightarrow> session \<Rightarrow> session" where
  "session_act (Happens evs) s = run_session s (map (Pair quiet_calls) evs)"
| "session_act (Types c d back) s =
     run_session s [(writes_all d, SocketFrame (Some (Inr (Data d)))), (quiet_calls, PtyReadable None (Inr back))]"
| "session_act (Expects P) s = s"

fun session_ok :: "session_script_step \<Rightarrow> session \<Rightarrow> bool" where
  "session_ok (Happens evs) s = True"
| "session_ok (Types c d back) s = (take 2 (rev (effects s)) = [SendFrame c (Data back), PtyWrite d])"
| "session_ok (Expects P) s = P s"

abbreviation session_test :: "session_script_step list \<Rightarrow> bool" where
  "session_test ts \<equiv> script_passes session_act session_ok ts (start_session pty_ready)"

text \<open>What the tests look at.\<close>

definition gets :: "conn \<Rightarrow> frame \<Rightarrow> session \<Rightarrow> bool" where
  "gets c f s = list_ex ((=) f) (frames_to c (effects s))"

fun is_exit :: "frame \<Rightarrow> bool" where
  "is_exit (Exit k) = True"
| "is_exit _ = False"

definition did :: "effect \<Rightarrow> session \<Rightarrow> bool" where
  "did e s = list_ex ((=) e) (effects s)"

definition meta_says :: "(session_metadata \<Rightarrow> bool) \<Rightarrow> session \<Rightarrow> bool" where
  "meta_says P s = (case metadata_slot s of None \<Rightarrow> False | Some m \<Rightarrow> P m)"

text \<open>
  The helpers.  In \<open>setup_session\<close> and \<open>wait_for_shell\<close> the first frame is the window size, which
  the task takes while it waits for \<open>Env\<close>; a client that reconnects sends its size again.
\<close>

definition prompt :: bytes where "prompt = [0x24, 0x20]"

definition setup_session :: "session_script_step list" where
  "setup_session =
     [Happens [Handoff 1, ClientRecv, EnvWait (Some (Some (Inr (Resize 80 24)))), PtyReadable None (Inr prompt)],
      Expects (gets 1 (Data prompt))]"

definition setup_session_with_env :: "(string \<times> string) list \<Rightarrow> session_script_step list" where
  "setup_session_with_env vars =
     [Happens [Handoff 1, ClientRecv, EnvWait (Some (Some (Inr (Env vars)))), SocketFrame (Some (Inr (Resize 80 24))),
               PtyReadable None (Inr prompt)],
      Expects (gets 1 (Data prompt))]"

definition disconnect :: "session_script_step list" where
  "disconnect = [Happens [SocketFrame None]]"

definition connect_again :: "conn \<Rightarrow> session_script_step list" where
  "connect_again c = [Happens [Handoff c, ClientRecv, SocketFrame (Some (Inr (Resize 80 24)))]]"

abbreviation line :: "string \<Rightarrow> bytes" where
  "line s \<equiv> as_bytes s @ [0x0A]"

definition clean_up :: "conn \<Rightarrow> session_script_step list" where
  "clean_up c = [Types c (line ''exit'') (line ''logout''), Happens [ChildExit (Inr (Some 0)), JoinReady],
                 Expects finished]"

section \<open>The tests\<close>

definition server_spawns_shell_and_relays_output :: "session_script_step list" where
  "server_spawns_shell_and_relays_output = setup_session @ clean_up 1"

definition server_relays_command_output :: "session_script_step list" where
  "server_relays_command_output =
     setup_session @ [Types 1 (line ''echo TTYLEPORT_TEST_OK'') (line ''TTYLEPORT_TEST_OK'')] @ clean_up 1"

definition server_sends_exit_frame_on_shell_exit :: "session_script_step list" where
  "server_sends_exit_frame_on_shell_exit =
     setup_session @ [Types 1 (line ''exit 42'') (line ''logout''), Happens [ChildExit (Inr (Some 42))],
                      Expects (gets 1 (Exit 42))]"

definition reconnect_preserves_shell_session :: "session_script_step list" where
  "reconnect_preserves_shell_session =
     setup_session @ [Types 1 (line ''export TTYLEPORT_MARKER=alive'') prompt] @ disconnect @ connect_again 2
     @ [Types 2 (line ''echo $TTYLEPORT_MARKER'') (line ''alive'')] @ clean_up 2"

definition server_exits_when_shell_dies_while_disconnected :: "session_script_step list" where
  "server_exits_when_shell_dies_while_disconnected =
     setup_session @ [Types 1 (line ''sleep 0.5 && exit 0'') prompt] @ disconnect
     @ [Happens [ChildExit (Inr (Some 0)), JoinReady], Expects finished]"

definition second_client_detaches_first :: "session_script_step list" where
  "second_client_detaches_first =
     setup_session @ connect_again 2 @ [Expects (gets 1 Detached), Types 2 (line ''echo TAKEOVER_OK'') (line ''TAKEOVER_OK'')]
     @ clean_up 2"

definition exit_code_zero_sends_exit_frame :: "session_script_step list" where
  "exit_code_zero_sends_exit_frame =
     setup_session @ [Types 1 (line ''exit 0'') (line ''logout''), Happens [ChildExit (Inr (Some 0))],
                      Expects (gets 1 (Exit 0))]"

definition exit_code_signal_death :: "session_script_step list" where
  "exit_code_signal_death =
     setup_session @ [Expects (meta_says (\<lambda>m. 0 < shell_pid m)), Happens [ChildExit (Inr None)],
                      Expects (\<lambda>s. list_ex is_exit (frames_to 1 (effects s)))]"

definition rapid_reconnect_cycles :: "session_script_step list" where
  "rapid_reconnect_cycles =
     setup_session @ [Types 1 (line ''export RAPID_TEST_MARKER=survived'') prompt]
     @ concat (map (\<lambda>c. disconnect @ connect_again c) [2, 3, 4])
     @ [Types 4 (line ''echo $RAPID_TEST_MARKER'') (line ''survived'')] @ clean_up 4"

definition control_frame_on_session_is_ignored :: "session_script_step list" where
  "control_frame_on_session_is_ignored =
     setup_session
     @ [Happens (map (\<lambda>f. SocketFrame (Some (Inr f))) [ListSessions, KillServer, NewSession ''bogus'']),
        Types 1 (line ''echo STILL_ALIVE'') (line ''STILL_ALIVE'')] @ clean_up 1"

text \<open>While nobody is connected the task does not read the terminal, so output waits there.\<close>

definition pty_buffer_saturation_and_resume :: "session_script_step list" where
  "pty_buffer_saturation_and_resume =
     setup_session @ [Types 1 (line ''{ sleep 0.3; seq 1 2000; echo PTY_DRAINED_OK; } &'') prompt] @ disconnect
     @ [Happens [PtyReadable None (Inr (line ''1''))]] @ connect_again 2
     @ [Happens [PtyReadable None (Inr (line ''1'')), PtyReadable None (Inr (line ''PTY_DRAINED_OK''))],
        Expects (gets 2 (Data (line ''1''))), Expects (gets 2 (Data (line ''PTY_DRAINED_OK'')))] @ clean_up 2"

definition resize_propagates_to_pty :: "session_script_step list" where
  "resize_propagates_to_pty =
     setup_session @ [Happens [SocketFrame (Some (Inr (Resize 132 43)))], Expects (did (SetWinsize 132 43))] @ clean_up 1"

definition metadata_reflects_attached_state :: "session_script_step list" where
  "metadata_reflects_attached_state =
     [Happens [Handoff 1, ClientRecv, EnvWait None], Expects (meta_says (\<lambda>m. True)),
      Happens [SocketFrame (Some (Inr (Resize 80 24))), PtyReadable None (Inr prompt)], Expects (meta_says attached)]
     @ disconnect @ [Expects (meta_says (\<lambda>m. \<not> attached m))] @ connect_again 2 @ clean_up 2"

definition client_explicit_exit_frame :: "session_script_step list" where
  "client_explicit_exit_frame =
     setup_session @ [Happens [SocketFrame (Some (Inr (Exit 0)))]] @ connect_again 2
     @ [Types 2 (line ''echo EXIT_FRAME_OK'') (line ''EXIT_FRAME_OK'')] @ clean_up 2"

definition ping_pong_heartbeat :: "session_script_step list" where
  "ping_pong_heartbeat =
     setup_session @ [Happens [SocketFrame (Some (Inr Ping))], Expects (gets 1 Pong),
                      Expects (meta_says (\<lambda>m. 0 < last_heartbeat m))] @ clean_up 1"

definition env_vars_forwarded :: "session_script_step list" where
  "env_vars_forwarded =
     setup_session_with_env [(''TERM'', ''xterm-test-42'')]
     @ [Expects (did (SpawnShell \<lparr>program = ''/bin/bash'', args = [''-l''], current_dir = Some ''/root'',
                                  env_vars = [(''TERM'', ''xterm-test-42'')]\<rparr>))] @ clean_up 1"

definition login_shell_starts_in_home :: "session_script_step list" where
  "login_shell_starts_in_home =
     setup_session
     @ [Expects (did (SpawnShell \<lparr>program = ''/bin/bash'', args = [''-l''], current_dir = sys_home quiet_calls,
                                  env_vars = []\<rparr>))] @ clean_up 1"

text \<open>More than a megabyte of output, as the shell's terminal hands it out, and a last line.\<close>

definition high_throughput_data :: "bytes list" where
  "high_throughput_data = replicate 300 (replicate 4096 0x41) @ [line ''THROUGHPUT_DONE'']"

section \<open>They pass\<close>

lemma quiet_simps:
  "sys_writable quiet_calls = None" "sys_write quiet_calls = Inr 3" "sys_send quiet_calls = None"
  "sys_foreground quiet_calls = Some 77" "sys_now quiet_calls = 1000" "sys_spawn quiet_calls = Inr 42"
  "sys_try_wait quiet_calls = None" "sys_shell quiet_calls = Some ''/bin/bash''" "sys_home quiet_calls = Some ''/root''"
  by (simp_all add: quiet_calls_def)

lemma writes_all_simps: "sys_writable (writes_all d) = None" "sys_write (writes_all d) = Inr (length d)"
  by (simp_all add: writes_all_def quiet_calls_def)

lemma pty_read: "b \<noteq> [] \<Longrightarrow> on_pty_readable quiet_calls c None (Inr b) s = emit [SendFrame c (Data b)] s"
  by (simp add: on_pty_readable_def quiet_calls_def)

lemmas task_simps = pty_ready_start blank_session_def on_client_def quiet_simps writes_all_simps pty_read spawn_shell_def
  emit_def set_attached_def set_heartbeat_def env_of_first_frame_def shell_command_of_def client_gone_def
  clamp_winsize_def clamp_u16_def MAX_WINSIZE_def hand_over_def drop_senders_def abort_task_def leave_def finish_def
  on_child_exit_def shell_exited_def exit_code_def prompt_def

lemmas session_script_simps = task_simps setup_session_def setup_session_with_env_def disconnect_def connect_again_def
  clean_up_def gets_def did_def meta_says_def frames_to_def List.map_filter_def

lemma relay_tests_pass:
  "session_test server_spawns_shell_and_relays_output" "session_test server_relays_command_output"
  "session_test server_sends_exit_frame_on_shell_exit"
  "session_test exit_code_zero_sends_exit_frame" "session_test exit_code_signal_death"
  "session_test resize_propagates_to_pty" "session_test ping_pong_heartbeat"
  "session_test control_frame_on_session_is_ignored" "session_test env_vars_forwarded"
  "session_test login_shell_starts_in_home"
  by (simp_all add: session_script_simps server_spawns_shell_and_relays_output_def server_relays_command_output_def
      server_sends_exit_frame_on_shell_exit_def
      exit_code_zero_sends_exit_frame_def exit_code_signal_death_def resize_propagates_to_pty_def
      ping_pong_heartbeat_def control_frame_on_session_is_ignored_def env_vars_forwarded_def
      login_shell_starts_in_home_def)

lemma reconnection_tests_pass:
  "session_test reconnect_preserves_shell_session" "session_test server_exits_when_shell_dies_while_disconnected"
  "session_test second_client_detaches_first" "session_test rapid_reconnect_cycles"
  "session_test pty_buffer_saturation_and_resume" "session_test metadata_reflects_attached_state"
  "session_test client_explicit_exit_frame"
  by (simp_all add: session_script_simps reconnect_preserves_shell_session_def
      server_exits_when_shell_dies_while_disconnected_def second_client_detaches_first_def rapid_reconnect_cycles_def
      pty_buffer_saturation_and_resume_def metadata_reflects_attached_state_def client_explicit_exit_frame_def)

lemma high_throughput_data_relay:
  "frames_to 1 (effects (run_session (run_session (start_session pty_ready) boot)
     (map reads_pty (map (Pair quiet_calls) high_throughput_data)))) = map Data high_throughput_data"
  "1000000 < sum_list (map length high_throughput_data)"
proof -
  have "\<forall>(sys, b) \<in> set (map (Pair quiet_calls) high_throughput_data). sys_send sys = None \<and> b \<noteq> []"
    by (auto simp: high_throughput_data_def quiet_calls_def)
  from session_sends_output [OF _ this, of "run_session (start_session pty_ready) boot" 1]
  show "frames_to 1 (effects (run_session (run_session (start_session pty_ready) boot)
     (map reads_pty (map (Pair quiet_calls) high_throughput_data)))) = map Data high_throughput_data"
    by (simp add: boot_run comp_def) (simp add: frames_to_def List.map_filter_def)
qed (simp add: high_throughput_data_def sum_list_replicate)

end
