(* ===== verification/Daemon_Tests.thy ===== *)
theory Daemon_Tests
  imports Session_Tests Lineage
begin
text \<open>
  The integration tests of the daemon, \<open>tests/daemon_test.rs\<close>, run on the model: scripts of
  requests, each on a connection of its own and with the assertion on the reply, of steps of the
  session tasks, and of assertions on what a client has received or on the daemon.
\<close>

declare hand_over_def [simp del] drop_senders_def [simp del] abort_task_def [simp del]

section \<open>Scripts\<close>

datatype daemon_script_step =
    Ask conn frame "frame \<Rightarrow> bool"     \<comment> \<open>\<open>control_request\<close>, or the first frame of \<open>attach_session\<close>\<close>
  | Meanwhile u32 "event list"         \<comment> \<open>steps of a session task\<close>
  | Holds "daemon \<Rightarrow> bool"             \<comment> \<open>an assertion\<close>

fun daemon_act :: "daemon_script_step \<Rightarrow> daemon \<Rightarrow> daemon" where
  "daemon_act (Ask c f P) d = run_daemon d (request c f)"
| "daemon_act (Meanwhile i evs) d = run_daemon d (map (\<lambda>ev. TaskEvent i (quiet_calls, ev)) evs)"
| "daemon_act (Holds P) d = d"

fun daemon_ok :: "daemon_script_step \<Rightarrow> daemon \<Rightarrow> bool" where
  "daemon_ok (Ask c f P) d = list_ex P (replies_to c d)"
| "daemon_ok (Meanwhile i evs) d = True"
| "daemon_ok (Holds P) d = P d"

abbreviation daemon_test :: "daemon_script_step list \<Rightarrow> bool" where
  "daemon_test ts \<equiv> script_passes daemon_act daemon_ok ts fresh_daemon"

text \<open>What the tests look at.\<close>

fun is_error :: "frame \<Rightarrow> bool" where
  "is_error (Error m) = True"
| "is_error _ = False"

fun lists :: "(session_entry list \<Rightarrow> bool) \<Rightarrow> frame \<Rightarrow> bool" where
  "lists P (SessionInfo es) = P es"
| "lists P _ = False"

abbreviation is_created :: "u32 \<Rightarrow> frame \<Rightarrow> bool" where
  "is_created i \<equiv> (=) (SessionCreated (show_u32 i))"

abbreviation is_ok :: "frame \<Rightarrow> bool" where
  "is_ok \<equiv> (=) Ok"

definition sees :: "conn \<Rightarrow> frame \<Rightarrow> daemon \<Rightarrow> bool" where
  "sees c f d = list_ex ((=) f) (outbox c d)"

definition hung_up :: "conn \<Rightarrow> daemon \<Rightarrow> bool" where
  "hung_up c d = list_ex (\<lambda>s. list_ex ((=) (Close c)) (effects s)) (all_tasks d)"

definition socket_gone :: "daemon \<Rightarrow> bool" where
  "socket_gone d = (dphase d = Stopped (Inr ()) \<and> \<not> path_exists (disk d) sample_ctl)"

text \<open>
  The helpers besides their request: \<open>create_session\<close> drops its connection and waits, while the
  task receives it, waits for the first frame, spawns the shell and notices that the client is
  gone; \<open>attach_session\<close> sends a window size and waits for output.  A shell that is killed by a
  signal has a status without a code.
\<close>

definition create_session :: "conn \<Rightarrow> string \<Rightarrow> u32 \<Rightarrow> daemon_script_step list" where
  "create_session c name i =
     [Ask c (NewSession name) (is_created i), Meanwhile i [ClientRecv, EnvWait (Some None), SocketFrame None]]"

definition attach_session :: "conn \<Rightarrow> string \<Rightarrow> u32 \<Rightarrow> daemon_script_step list" where
  "attach_session c target i =
     [Ask c (Attach target) is_ok,
      Meanwhile i [ClientRecv, SocketFrame (Some (Inr (Resize 80 24))), PtyReadable None (Inr prompt)],
      Holds (sees c (Data prompt))]"

definition interact :: "conn \<Rightarrow> bytes \<Rightarrow> bytes \<Rightarrow> daemon_script_step list" where
  "interact c command out =
     [Meanwhile 0 [SocketFrame (Some (Inr (Data command))), PtyReadable None (Inr out)], Holds (sees c (Data out))]"

definition kill_cleanup :: "conn \<Rightarrow> string \<Rightarrow> daemon_script_step list" where
  "kill_cleanup c target = [Ask c (KillSession target) (\<lambda>f. True)]"

abbreviation shell_killed :: daemon_script_step where
  "shell_killed \<equiv> Meanwhile 0 [ChildExit (Inr None), JoinReady]"

abbreviation list_all_of :: "conn \<Rightarrow> (session_entry list \<Rightarrow> bool) \<Rightarrow> daemon_script_step" where
  "list_all_of c P \<equiv> Ask c ListSessions (lists P)"

abbreviation is_listed :: "u32 \<Rightarrow> string \<Rightarrow> session_entry list \<Rightarrow> bool" where
  "is_listed i name es \<equiv> length es = 1 \<and> entry_id (es ! 0) = show_u32 i \<and> entry_name (es ! 0) = name"

section \<open>The tests\<close>

definition daemon_creates_and_lists_sessions :: "daemon_script_step list" where
  "daemon_creates_and_lists_sessions =
     create_session 1 ''mytest'' 0 @ [list_all_of 2 (is_listed 0 ''mytest'')] @ kill_cleanup 3 (show_u32 0)"

definition daemon_rejects_duplicate_name :: "daemon_script_step list" where
  "daemon_rejects_duplicate_name =
     create_session 1 ''dupname'' 0 @ [Ask 2 (NewSession ''dupname'') is_error] @ kill_cleanup 3 (show_u32 0)"

definition daemon_allows_multiple_unnamed_sessions :: "daemon_script_step list" where
  "daemon_allows_multiple_unnamed_sessions =
     create_session 1 [] 0 @ create_session 2 [] 1 @ [list_all_of 3 (\<lambda>es. length es = 2)]
     @ kill_cleanup 4 (show_u32 0) @ kill_cleanup 5 (show_u32 1)"

definition daemon_kills_session :: "daemon_script_step list" where
  "daemon_kills_session =
     create_session 1 ''killme'' 0 @ [Ask 2 (KillSession (show_u32 0)) is_ok, list_all_of 3 (\<lambda>es. es = [])]"

definition daemon_kills_session_by_name :: "daemon_script_step list" where
  "daemon_kills_session_by_name =
     create_session 1 ''named-kill'' 0 @ [Ask 2 (KillSession ''named-kill'') is_ok, list_all_of 3 (\<lambda>es. es = [])]"

definition daemon_kills_server :: "daemon_script_step list" where
  "daemon_kills_server = create_session 1 ''doomed'' 0 @ [Ask 2 KillServer is_ok, Holds socket_gone]"

definition create_after_kill_same_name :: "daemon_script_step list" where
  "create_after_kill_same_name =
     create_session 1 ''reuse'' 0 @ [Ask 2 (KillSession (show_u32 0)) is_ok] @ create_session 3 ''reuse'' 1
     @ [list_all_of 4 (\<lambda>es. is_listed 1 ''reuse'' es \<and> 0 < entry_shell_pid (es ! 0))] @ kill_cleanup 5 (show_u32 1)"

definition multiple_concurrent_sessions :: "daemon_script_step list" where
  "multiple_concurrent_sessions =
     create_session 1 ''sess-a'' 0 @ create_session 2 ''sess-b'' 1
     @ [list_all_of 3 (\<lambda>es. map entry_id es = [show_u32 0, show_u32 1]),
        list_all_of 4 (\<lambda>es. length es = 2 \<and> list_all (\<lambda>e. 0 < entry_shell_pid e) es)]
     @ kill_cleanup 5 (show_u32 0) @ kill_cleanup 6 (show_u32 1)"

definition daemon_unexpected_frame :: "daemon_script_step list" where
  "daemon_unexpected_frame =
     [Ask 1 (Data (as_bytes ''hello'')) is_error, Ask 2 (Resize 80 24) is_error, list_all_of 3 (\<lambda>es. es = [])]"

definition kill_server_no_sessions :: "daemon_script_step list" where
  "kill_server_no_sessions = [Ask 1 KillServer is_ok, Holds socket_gone]"

definition kill_nonexistent_session :: "daemon_script_step list" where
  "kill_nonexistent_session = [Ask 1 (KillSession ''999'') is_error]"

definition session_natural_exit_reaps_from_list :: "daemon_script_step list" where
  "session_natural_exit_reaps_from_list =
     create_session 1 ''reapme'' 0
     @ [list_all_of 2 (\<lambda>es. length es = 1 \<and> 0 < entry_shell_pid (es ! 0)), shell_killed, list_all_of 3 (\<lambda>es. es = [])]"

definition list_before_session_ready :: "daemon_script_step list" where
  "list_before_session_ready =
     [Ask 1 (NewSession ''early'') (is_created 0), list_all_of 2 (\<lambda>es. length es = 1 \<and> entry_id (es ! 0) = show_u32 0)]
     @ kill_cleanup 3 (show_u32 0)"

definition kill_session_while_client_connected :: "daemon_script_step list" where
  "kill_session_while_client_connected =
     create_session 1 ''kill-conn'' 0 @ attach_session 2 (show_u32 0) 0
     @ [Ask 3 (KillSession (show_u32 0)) is_ok, Holds (hung_up 2)]"

definition session_metadata_has_pty_and_pid :: "daemon_script_step list" where
  "session_metadata_has_pty_and_pid =
     create_session 1 ''metacheck'' 0
     @ [list_all_of 2 (\<lambda>es. length es = 1 \<and> 0 < entry_shell_pid (es ! 0)
          \<and> take 9 (entry_pty_path (es ! 0)) = ''/dev/pts/'' \<and> 0 < entry_created_at (es ! 0))]
     @ kill_cleanup 3 (show_u32 0)"

definition attach_to_session :: "daemon_script_step list" where
  "attach_to_session =
     create_session 1 ''attachme'' 0 @ attach_session 2 (show_u32 0) 0
     @ interact 2 (line ''echo ATTACH_OK'') (line ''ATTACH_OK'')
     @ kill_cleanup 3 (show_u32 0)"

definition attach_by_name :: "daemon_script_step list" where
  "attach_by_name =
     create_session 1 ''namedattach'' 0 @ attach_session 2 ''namedattach'' 0
     @ interact 2 (line ''echo NAME_ATTACH_OK'') (line ''NAME_ATTACH_OK'')
     @ kill_cleanup 3 (show_u32 0)"

definition attach_nonexistent_returns_error :: "daemon_script_step list" where
  "attach_nonexistent_returns_error = [Ask 1 (Attach ''nonexistent'') is_error]"

definition attach_dead_session_returns_error :: "daemon_script_step list" where
  "attach_dead_session_returns_error =
     create_session 1 ''dying'' 0
     @ [list_all_of 2 (\<lambda>es. length es = 1 \<and> 0 < entry_shell_pid (es ! 0)), shell_killed,
        Ask 3 (Attach (show_u32 0)) is_error]"

definition kill_dead_session_returns_error :: "daemon_script_step list" where
  "kill_dead_session_returns_error =
     create_session 1 ''dying2'' 0
     @ [list_all_of 2 (\<lambda>es. length es = 1 \<and> 0 < entry_shell_pid (es ! 0)), shell_killed,
        Ask 3 (KillSession (show_u32 0)) is_error]"

definition list_sessions_shows_heartbeat :: "daemon_script_step list" where
  "list_sessions_shows_heartbeat =
     create_session 1 ''hbtest'' 0 @ attach_session 2 (show_u32 0) 0
     @ [Meanwhile 0 [SocketFrame (Some (Inr Ping))], Holds (sees 2 Pong),
        list_all_of 3 (\<lambda>es. length es = 1 \<and> 0 < entry_last_heartbeat (es ! 0))] @ kill_cleanup 4 (show_u32 0)"

section \<open>They pass\<close>

lemma known_numbers:
  "show_u32 0 = ''0''" "show_u32 1 = ''1''" "parse_u32 ''0'' = Some 0" "parse_u32 ''1'' = Some 1"
  "parse_u32 ''999'' = Some 999" "parse_u32 ''nonexistent'' = None"
proof -
  show s: "show_u32 0 = ''0''" "show_u32 1 = ''1''" by (simp_all add: show_u32_def) (code_simp, code_simp)
  show "parse_u32 ''0'' = Some 0" "parse_u32 ''1'' = Some 1"
    using parse_show_u32 [of 0] parse_show_u32 [of 1] unfolding s by simp_all
  have "show_u32 999 = ''999''" by (simp add: show_u32_def) code_simp
  then show "parse_u32 ''999'' = Some 999" using parse_show_u32 [of 999] by simp
  show "parse_u32 ''nonexistent'' = None" by (simp add: parse_u32_def parse_uint_def digit_value_def)
qed

lemma socket_removed:
  "\<not> path_exists (remove_quietly (remove_quietly sample_disk sample_ctl) (pid_file_path sample_ctl)) sample_ctl"
proof -
  have "nodes (remove_quietly sample_disk sample_ctl) sample_ctl = None"
    by (rule remove_quietly_gone [where n = "Sock 1000 384 True"])
      (simp_all add: sample_disk_def sample_ctl_def sample_world_simps)
  then show ?thesis
    using remove_quietly_frame [of "pid_file_path sample_ctl" "remove_quietly sample_disk sample_ctl"]
    by (simp add: path_exists_def only_changes_def sample_ctl_def pid_file_path_def with_file_name_def abs_path_def)
qed

lemmas handler_simps = handle_new_session_def handle_attach_def handle_list_def handle_kill_session_def
  name_taken_def resolve_session_def next_round_def reap_def reap_sessions_def reaped_def forget_def
  insert_session_def run_task_def run_tasks_def update_task_def hand_off_def dlog_def answer_def
  shutdown_def stop_def build_session_entries_def entry_of_session_def entry_key_def no_such_session_def Let_def

lemmas daemon_script_simps = task_simps handler_simps known_numbers socket_removed fresh_daemon_def blank_daemon_def
  request_run create_session_def attach_session_def interact_def kill_cleanup_def sees_def hung_up_def socket_gone_def
  outbox_def replies_to_def session_out_def all_tasks_def frames_to_def List.map_filter_def

lemma request_tests_pass:
  "daemon_test daemon_creates_and_lists_sessions" "daemon_test daemon_rejects_duplicate_name"
  "daemon_test daemon_allows_multiple_unnamed_sessions" "daemon_test daemon_kills_session"
  "daemon_test daemon_kills_session_by_name" "daemon_test daemon_kills_server"
  "daemon_test create_after_kill_same_name" "daemon_test multiple_concurrent_sessions"
  "daemon_test daemon_unexpected_frame" "daemon_test kill_server_no_sessions"
  "daemon_test kill_nonexistent_session" "daemon_test list_before_session_ready"
  by (simp_all add: daemon_script_simps daemon_creates_and_lists_sessions_def
      daemon_rejects_duplicate_name_def daemon_allows_multiple_unnamed_sessions_def
      daemon_kills_session_def daemon_kills_session_by_name_def daemon_kills_server_def
      create_after_kill_same_name_def multiple_concurrent_sessions_def daemon_unexpected_frame_def
      kill_server_no_sessions_def kill_nonexistent_session_def list_before_session_ready_def)

lemma session_life_tests_pass:
  "daemon_test session_natural_exit_reaps_from_list"
  "daemon_test kill_session_while_client_connected" "daemon_test session_metadata_has_pty_and_pid"
  "daemon_test attach_to_session" "daemon_test attach_by_name"
  "daemon_test attach_nonexistent_returns_error" "daemon_test attach_dead_session_returns_error"
  "daemon_test kill_dead_session_returns_error" "daemon_test list_sessions_shows_heartbeat"
  by (simp_all add: daemon_script_simps session_natural_exit_reaps_from_list_def
      kill_session_while_client_connected_def session_metadata_has_pty_and_pid_def attach_to_session_def
      attach_by_name_def attach_nonexistent_returns_error_def attach_dead_session_returns_error_def
      kill_dead_session_returns_error_def list_sessions_shows_heartbeat_def)

end
