(* ===== verification/Unit_Tests.thy ===== *)
theory Unit_Tests
  imports Connect Escape
begin
text \<open>
  The repository's own unit tests, run on the model: the tests of \<open>EscapeProcessor\<close> in
  \<open>src/client.rs\<close>, those of \<open>Destination\<close> and the \<open>ssh\<close> command lines in \<open>src/connect.rs\<close>, and
  \<open>tests/protocol_test.rs\<close>: the bytes of encoded frames, the round trips, several frames in one
  buffer, the incomplete and the refused buffers, the listings the line format loses.  Each test is translated with its inputs and its
  assertions; that all pass shows that model and code agree on every case the authors thought of.
\<close>

section \<open>\<open>EscapeProcessor\<close>\<close>

text \<open>A test: the processor, the reads with the actions asserted for each, and the state asserted at the end.\<close>

record escape_test =
  processor :: escape_processor
  reads :: "(bytes \<times> escape_action list) list"
  final_state :: "escape_state option"

fun escape_run :: "escape_processor \<Rightarrow> bytes list \<Rightarrow> escape_processor \<times> escape_action list list" where
  "escape_run p [] = (p, [])"
| "escape_run p (b # bs) =
     (case esc_process p b of (actions, p') \<Rightarrow>
        (case escape_run p' bs of (p'', rest) \<Rightarrow> (p'', actions # rest)))"

definition escape_test_passes :: "escape_test \<Rightarrow> bool" where
  "escape_test_passes t =
     (case escape_run (processor t) (map fst (reads t)) of (p, outs) \<Rightarrow>
        outs = map snd (reads t) \<and> (case final_state t of None \<Rightarrow> True | Some st \<Rightarrow> esc_state p = st))"

abbreviation one_read :: "escape_processor \<Rightarrow> bytes \<Rightarrow> escape_action list \<Rightarrow> escape_test" where
  "one_read p b actions \<equiv> \<lparr>processor = p, reads = [(b, actions)], final_state = None\<rparr>"

abbreviation in_normal :: escape_processor where
  "in_normal \<equiv> \<lparr>esc_state = Normal\<rparr>"

abbreviation NLb :: bytes where "NLb \<equiv> [0x0A]"

definition single_read_tests :: "escape_test list" where
  "single_read_tests =
     [one_read new_processor (as_bytes ''hello'') [ActData (as_bytes ''hello'')],
      one_read in_normal (NLb @ as_bytes ''~.'') [ActData NLb, Detach],
      one_read in_normal (0x0D # as_bytes ''~.'') [ActData [0x0D], Detach],
      one_read in_normal (as_bytes ''a~.'') [ActData (as_bytes ''a~.'')],
      one_read new_processor (as_bytes ''~.'') [Detach],
      one_read in_normal (NLb @ as_bytes ''~'' @ [0x1A]) [ActData NLb, Suspend],
      one_read in_normal (NLb @ as_bytes ''~?'') [ActData NLb, Help],
      \<lparr>processor = in_normal, reads = [(NLb @ as_bytes ''~~'', [ActData NLb, ActData (as_bytes ''~'')])],
        final_state = Some Normal\<rparr>,
      one_read in_normal (NLb @ as_bytes ''~x'') [ActData NLb, ActData (as_bytes ''~x'')]]"

definition split_read_tests :: "escape_test list" where
  "split_read_tests =
     [\<lparr>processor = in_normal,
        reads = [(NLb, [ActData NLb]), (as_bytes ''~'', []), (as_bytes ''.'', [Detach])], final_state = None\<rparr>,
      \<lparr>processor = in_normal,
        reads = [(NLb, [ActData NLb]), (as_bytes ''~'', []), (as_bytes ''a'', [ActData (as_bytes ''~a'')])],
        final_state = None\<rparr>]"

definition long_read_tests :: "escape_test list" where
  "long_read_tests =
     [one_read in_normal (NLb @ as_bytes ''~?'' @ NLb @ as_bytes ''~.'') [ActData NLb, Help, ActData NLb, Detach],
      one_read in_normal (NLb @ NLb @ NLb @ as_bytes ''~.'') [ActData (NLb @ NLb @ NLb), Detach],
      one_read in_normal (NLb @ as_bytes ''~.remaining'') [ActData NLb, Detach],
      \<lparr>processor = in_normal, reads = [(NLb @ as_bytes ''~'' @ NLb, [ActData NLb, ActData (as_bytes ''~'' @ NLb)])],
        final_state = Some AfterNewline\<rparr>,
      one_read new_processor [] [],
      \<lparr>processor = in_normal, reads = [(NLb @ as_bytes ''~'', [ActData NLb])], final_state = Some AfterTilde\<rparr>,
      \<lparr>processor = in_normal, reads = [(NLb @ as_bytes ''~'', [ActData NLb]), (as_bytes ''.'', [Detach])],
        final_state = None\<rparr>]"

lemmas escape_test_simps = escape_test_passes_def esc_process_def new_processor_def flush_data_def

lemma single_read_tests_pass: "list_all escape_test_passes single_read_tests"
  by (simp add: single_read_tests_def escape_test_simps)

lemma split_read_tests_pass: "list_all escape_test_passes split_read_tests"
  by (simp add: split_read_tests_def escape_test_simps)

lemma long_read_tests_pass: "list_all escape_test_passes long_read_tests"
  by (simp add: long_read_tests_def escape_test_simps)

section \<open>Destinations and command lines\<close>

definition destination_tests :: "(string \<times> destination option) list" where
  "destination_tests =
     [(''user@host'', Some \<lparr>user = Some ''user'', host = ''host'', port = None\<rparr>),
      (''myhost'', Some \<lparr>user = None, host = ''myhost'', port = None\<rparr>),
      (''host:2222'', Some \<lparr>user = None, host = ''host'', port = Some 2222\<rparr>),
      (''user@host:2222'', Some \<lparr>user = Some ''user'', host = ''host'', port = Some 2222\<rparr>),
      ('''', None), (''@host'', None), ('':2222'', None)]"

definition destination_test_passes :: "string \<times> destination option \<Rightarrow> bool" where
  "destination_test_passes = (\<lambda>(s, d). (case parse_destination s of Inl e \<Rightarrow> d = None | Inr x \<Rightarrow> d = Some x))"

definition with_destination :: "string \<Rightarrow> (destination \<Rightarrow> bool) \<Rightarrow> bool" where
  "with_destination s P = (case parse_destination s of Inl e \<Rightarrow> False | Inr d \<Rightarrow> P d)"

definition tunnel_command_default_opts :: bool where
  "tunnel_command_default_opts =
     with_destination ''user@host'' (\<lambda>d.
       let given = tunnel_command d (abs_path [''tmp'', ''local.sock'']) ''/run/user/1000/gritty/ctl.sock'' []
       in list_all (\<lambda>a. a \<in> set given)
            [''ServerAliveInterval=3'', ''StreamLocalBindUnlink=yes'', ''ExitOnForwardFailure=yes'', ''ConnectTimeout=5'',
             ''-N'', ''-T'', ''/tmp/local.sock:/run/user/1000/gritty/ctl.sock'', ''user@host''])"

definition tunnel_command_extra_opts :: bool where
  "tunnel_command_extra_opts =
     with_destination ''host:2222'' (\<lambda>d.
       let given = tunnel_command d (abs_path [''tmp'', ''local.sock'']) ''/tmp/remote.sock'' [''ProxyJump=bastion'']
       in list_all (\<lambda>a. a \<in> set given) [''ProxyJump=bastion'', ''-p'', ''2222''])"

text \<open>The name of the socket begins with \<open>connect-\<close> and ends with \<open>.sock\<close>, in a directory named after the program.\<close>

definition local_socket_path_format :: "world \<Rightarrow> nat \<Rightarrow> bool" where
  "local_socket_path_format w pid =
     (let p = local_socket_path w pid
      in comps p \<noteq> [] \<and> prefix ''connect-'' (last (comps p)) \<and> suffix ''.sock'' (last (comps p))
         \<and> (case path_parent p of None \<Rightarrow> False
            | Some q \<Rightarrow> comps q \<noteq> [] \<and> contains (last (comps q)) ''gritty''))"

definition ssh_dest_tests :: "(string \<times> string) list" where
  "ssh_dest_tests = [(''alice@example.com'', ''alice@example.com''), (''example.com'', ''example.com'')]"

definition port_args_tests :: "(string \<times> string list) list" where
  "port_args_tests = [(''host:9999'', [''-p'', ''9999'']), (''host'', [])]"

lemmas destination_test_simps = parse_destination_def rsplit_once_def parse_u16_def parse_uint_def digit_value_def

lemma destination_tests_pass: "list_all destination_test_passes destination_tests"
  by (simp add: destination_tests_def destination_test_passes_def destination_test_simps)

lemma ssh_dest_tests_pass: "list_all (\<lambda>(s, out). with_destination s (\<lambda>d. ssh_dest d = out)) ssh_dest_tests"
  by (simp add: ssh_dest_tests_def with_destination_def destination_test_simps ssh_dest_def)

lemma show_tests: "show_u16 2222 = ''2222''" "show_u16 9999 = ''9999''"
  by (simp_all add: show_u16_def show_nat.simps digit_char_def char_of_eq_iff)

lemma port_args_tests_pass: "list_all (\<lambda>(s, out). with_destination s (\<lambda>d. port_args d = out)) port_args_tests"
  by (simp add: port_args_tests_def with_destination_def destination_test_simps port_args_def show_tests)

lemma tunnel_command_tests_pass: "tunnel_command_default_opts" "tunnel_command_extra_opts"
  by (simp_all add: tunnel_command_default_opts_def tunnel_command_extra_opts_def with_destination_def
      destination_test_simps tunnel_command_def port_args_def show_tests SSH_TUNNEL_OPTS_def o_args_def
      display_path_def abs_path_def ssh_dest_def)

lemma contains_prefix: "contains (s @ t) s"
  by (auto simp: contains_def list_ex_iff intro!: bexI [of _ "s @ t"])

lemma local_socket_path_test_passes: "local_socket_path_format w pid"
  using contains_prefix [of "''gritty''" "[]"] contains_prefix [of "''gritty''" "''-'' @ show_nat (uid w)"]
  by (auto simp: local_socket_path_format_def local_socket_path_def socket_dir_def path_join_def abs_path_def
      path_parent_def suffix_def split: option.split intro: exI [of _ "''connect-'' @ show_nat pid"])

section \<open>The codec\<close>

text \<open>The frames whose round trip the tests assert.\<close>

definition test_entry :: "string \<Rightarrow> string \<Rightarrow> string \<Rightarrow> u32 \<Rightarrow> u64 \<Rightarrow> bool \<Rightarrow> u64 \<Rightarrow> session_entry" where
  "test_entry i n p pid t a h =
     \<lparr>entry_id = i, entry_name = n, entry_pty_path = p, entry_shell_pid = pid, entry_created_at = t,
      entry_attached = a, entry_last_heartbeat = h\<rparr>"

definition roundtrip_tests :: "frame list" where
  "roundtrip_tests =
     [Data (as_bytes ''hello world''), Resize 120 40, Exit 0, NewSession ''myproject'', NewSession '''',
      Attach ''0'', Attach ''myproject'', SessionCreated ''42'', ListSessions,
      SessionInfo [test_entry ''0'' ''project-a'' ''/dev/pts/3'' 1234 1700000000 True 1700000005,
                   test_entry ''1'' '''' ''/dev/pts/5'' 5678 1700000100 False 0],
      SessionInfo [], Ok, Error ''something failed'', Detached, KillSession ''0'', KillSession ''myproject'',
      KillServer, Data [], Exit (- 1), Error '''', Ping, Pong,
      Env [(''TERM'', ''xterm-256color''), (''LANG'', ''en_US.UTF-8''), (''COLORTERM'', ''truecolor'')], Env []]"

lemma roundtrip_tests_pass: "list_all (\<lambda>f. decode (frame_bytes f) = (Inr (Some f), [])) roundtrip_tests"
proof -
  have "list_all sendable roundtrip_tests"
    by (auto simp: roundtrip_tests_def test_entry_def entry_ok_def env_ok_def ascii_rust_str text_of_info_def
        line_of_entry_def text_of_env_def MAX_FRAME_SIZE_def show_u32_def show_u64_def show_nat.simps strip_cr_def)
  moreover have "decode (frame_bytes f) = (Inr (Some f), [])" if "sendable f" for f
    using decode_encoded [OF that, of "[]"] by simp
  ultimately show ?thesis by (simp add: list_all_iff)
qed

text \<open>Buffers that are incomplete, and buffers refused as \<open>InvalidData\<close> (an unknown type with any error).\<close>

definition incomplete_tests :: "bytes list" where
  "incomplete_tests = [[0x01, 0x00, 0x00], [0x01, 0x00, 0x00, 0x00, 0x05, 0xAA, 0xBB], []]"

definition invalid_tests :: "bytes list" where
  "invalid_tests =
     [[0xFF, 0, 0, 0, 0], [0x02, 0, 0, 0, 3, 0, 0x50, 0], [0x03, 0, 0, 0, 2, 0, 0x2A], [0x10, 0, 0, 0, 2, 0xFF, 0xFE]]"

definition refused :: "bytes \<Rightarrow> bool" where
  "refused b = (case fst (decode b) of Inl e \<Rightarrow> error_kind e = InvalidData | Inr f \<Rightarrow> False)"

lemma incomplete_tests_pass: "list_all (\<lambda>b. decode b = (Inr None, b)) incomplete_tests"
  by (simp add: incomplete_tests_def decode_short decode_Cons5 u32_from_be_def MAX_FRAME_SIZE_def)

lemma invalid_tests_pass: "list_all refused invalid_tests"
  by (simp add: invalid_tests_def refused_def decode_Cons5 u32_from_be_def decode_payload_def decode_string_def
      from_utf8_def MAX_FRAME_SIZE_def utf8_tail_def utf8_width_def)

text \<open>The bytes of encoded frames, and several frames in one buffer.\<close>

definition encode_tests :: "(frame \<times> bytes) list" where
  "encode_tests =
     [(Data (as_bytes ''hello''), [0x01, 0, 0, 0, 5] @ as_bytes ''hello''),
      (Resize 80 24, [0x02, 0, 0, 0, 4, 0, 80, 0, 24]), (Exit 42, [0x03, 0, 0, 0, 4, 0, 0, 0, 42])]"

lemma encode_tests_pass: "list_all (\<lambda>(f, b). snd (encode f []) = b) encode_tests"
  by (simp add: encode_tests_def encode_def put_frame_def u32_to_be_def u16_to_be_def as_bytes_def)

definition multi_frame_test :: "frame list" where
  "multi_frame_test = [Data (as_bytes ''abc''), Resize 80 24, Exit 7]"

lemma multi_frame_test_passes:
  "feed decode [] [fold (\<lambda>f b. snd (encode f b)) multi_frame_test []] = (multi_frame_test, None, [])"
proof -
  have "\<forall>f \<in> set multi_frame_test. sendable f"
    by (simp add: multi_frame_test_def MAX_FRAME_SIZE_def as_bytes_def)
  moreover have "fold (\<lambda>f b. snd (encode f b)) multi_frame_test [] = concat (map frame_bytes multi_frame_test)"
    by (simp add: multi_frame_test_def encode_def put_frame_def)
  ultimately show ?thesis using codec.feed_encoded [of multi_frame_test "[concat (map frame_bytes multi_frame_test)]"] by simp
qed

text \<open>A large frame, and a buffer from which one frame of two is taken.\<close>

definition large_data_frame :: frame where
  "large_data_frame = Data (replicate (64 * 1024) 0xAB)"

lemma large_data_frame_roundtrip: "decode (snd (encode large_data_frame [])) = (Inr (Some large_data_frame), [])"
proof -
  have "sendable large_data_frame" by (simp add: large_data_frame_def MAX_FRAME_SIZE_def)
  from decode_encoded [OF this, of "[]"] show ?thesis by (simp add: encode_def large_data_frame_def put_frame_def)
qed

definition two_frames_test :: "frame \<times> frame" where
  "two_frames_test = (Data (as_bytes ''first''), Data (as_bytes ''second''))"

lemma decode_consumes_only_one_frame:
  assumes "two_frames_test = (f, g)" and "buf = snd (encode g (snd (encode f [])))"
  shows "\<exists>rest. decode buf = (Inr (Some f), rest) \<and> length rest < length buf \<and> rest \<noteq> [] \<and> decode rest = (Inr (Some g), [])"
proof -
  have s: "sendable f" "sendable g" and b: "buf = frame_bytes f @ frame_bytes g"
    using assms by (auto simp: two_frames_test_def MAX_FRAME_SIZE_def as_bytes_def encode_def put_frame_def)
  have "decode buf = (Inr (Some f), frame_bytes g)" "decode (frame_bytes g) = (Inr (Some g), [])"
    using decode_encoded [OF s(1), of "frame_bytes g"] decode_encoded [OF s(2), of "[]"] b by simp_all
  moreover have "frame_bytes g \<noteq> []" "frame_bytes f \<noteq> []"
    using length_frame_bytes [of g] length_frame_bytes [of f] by auto
  ultimately show ?thesis using b by simp
qed

text \<open>Listings that the line format cannot carry: a tab in an id, a newline in a name.\<close>

definition lossy_tests :: "session_entry list" where
  "lossy_tests =
     [test_entry (''has'' @ [TAB] @ ''tab'') ''test'' ''/dev/pts/3'' 1234 1700000000 True 0,
      test_entry ''0'' (''has'' @ [NL] @ ''newline'') ''/dev/pts/3'' 1234 1700000000 True 0]"

lemma lossy_tests_pass:
  "list_all (\<lambda>e. decode (snd (encode (SessionInfo [e]) [])) = (Inr (Some (SessionInfo [])), [])) lossy_tests"
proof -
  have "decode (snd (encode (SessionInfo [e]) [])) = (Inr (Some (SessionInfo (info_of_text (text_of_info [e])))), [])"
    if "rust_str (text_of_info [e])" "length (text_of_info [e]) \<le> MAX_FRAME_SIZE" for e
    using decode_put_frame [of "as_bytes (text_of_info [e])" _ "[]"] that
    by (simp add: encode_def encode_str_def encode_into_eq decode_put_frame decode_payload_def)
  moreover have "text_of_info [test_entry (''has'' @ [TAB] @ ''tab'') ''test'' ''/dev/pts/3'' 1234 1700000000 True 0] =
      ''has'' @ [TAB] @ ''tab'' @ [TAB] @ ''test'' @ [TAB] @ ''/dev/pts/3'' @ [TAB] @ ''1234'' @ [TAB] @ ''1700000000'' @ [TAB]
        @ ''1'' @ [TAB] @ ''0''"
    "text_of_info [test_entry ''0'' (''has'' @ [NL] @ ''newline'') ''/dev/pts/3'' 1234 1700000000 True 0] =
      ''0'' @ [TAB] @ ''has'' @ [NL] @ ''newline'' @ [TAB] @ ''/dev/pts/3'' @ [TAB] @ ''1234'' @ [TAB] @ ''1700000000'' @ [TAB]
        @ ''1'' @ [TAB] @ ''0''"
    by (simp_all add: text_of_info_def test_entry_def line_of_entry_def show_u32_def show_u64_def show_nat.simps)
      (code_simp, code_simp)
  ultimately show ?thesis
    by (simp add: lossy_tests_def ascii_rust_str MAX_FRAME_SIZE_def)
      (simp add: info_of_text_def str_lines_def strip_line_def strip_cr_def entry_of_line_def List.map_filter_def)
qed

end
