(* ===== verification/Spec2Isabelle.thy ===== *)
theory Spec2Isabelle
  imports Keystrokes Progress Reconnection Orphans Daemon_Tests Unit_Tests
begin

text \<open>
  A model of gritty (persistent terminal sessions over Unix sockets), its daemon, session tasks,
  client, wire protocol, SSH tunnel and command line, and what makes them correct.  Paths below are
  those of the crate's \<open>src\<close> directory.

  \<^bold>\<open>The program.\<close>  A daemon (\<open>daemon.rs\<close>) listens on a control socket; each connection makes one
  request.  \<open>NewSession\<close> spawns a session task (\<open>server.rs\<close>) that owns a pseudo terminal and a login
  shell, and \<open>NewSession\<close> and \<open>Attach\<close> hand the connection itself over to the task, which relays
  frames (\<open>protocol.rs\<close>) between it and the terminal until the client goes away, is replaced by
  another, or the shell ends.  The client (\<open>client.rs\<close>) relays the user's terminal, watches for escape
  sequences, sends heartbeats and reconnects through the daemon when the connection is lost.
  \<open>connect.rs\<close> forwards a local socket to a remote daemon through \<open>ssh\<close>; \<open>security.rs\<close> creates the
  socket directory and the socket; \<open>main.rs\<close> and \<open>lib.rs\<close> are the command line.

  \<^bold>\<open>Theories.\<close>
  \<^item> \<open>TTY_Prelude\<close>: integer types, I/O errors, the \<open>?\<close> operator, runs of a step function, and the
    locales \<open>step_machine\<close> and \<open>logging_machine\<close> that the session task, the daemon and the client interpret.
  \<^item> \<open>Rust_Text\<close>, \<open>Unix_Fs\<close>: the part of the standard library that is used (UTF-8, \<open>lines\<close>, \<open>split\<close>,
    numbers as text; paths, files, modes, Unix sockets), each with the laws its callers need
    (\<open>fs_call\<close>).
  \<^item> \<open>Wire\<close>: big-endian integers and stream decoders, with the contracts \<open>stream_decoder\<close> and
    \<open>frame_codec\<close>; \<open>Protocol\<close>: the frames, \<open>decode\<close> and \<open>encode\<close>, which interpret them.
  \<^item> \<open>Escape\<close>: \<open>EscapeProcessor\<close> as the code's loop over buffers (\<open>esc_loop\<close>) and as a transducer
    (\<open>esc_spec\<close>), the specification it implements.
  \<^item> \<open>Security\<close>: \<open>secure_create_dir_all\<close>, \<open>bind_unix_listener\<close>, peer check, \<open>dup\<close>, window sizes.
  \<^item> \<open>Server\<close>: the session task as a state machine.  \<open>phase\<close> says which \<open>select!\<close> the task is in,
    an \<open>event\<close> is one branch of it (or an action of the daemon), \<open>syscalls\<close> are the results of the
    calls the branch makes, \<open>effects\<close> the ordered log of frames, closes, writes, signals.
  \<^item> \<open>Daemon\<close>: the table of sessions (\<open>name_table\<close> is what the handlers rely on), one definition per
    request, the accept loop, startup and shutdown; \<open>Daemon_Props\<close>: the abstract registry
    (\<open>registry_spec\<close>), the refinement of every request to it, and the properties; \<open>Orphans\<close>: what
    becomes of every session ever created.
  \<^item> \<open>Client\<close>: \<open>write_stdout\<close>, the relay, the heartbeat and the reconnect loop, with the clock as an
    argument of each step (\<open>relay_relation\<close> and, with the reconnect loop, \<open>client_relation\<close>: what the
    elementary operations respect, every step does); \<open>Terminal\<close>: the guards that change the terminal's
    settings and put them back.
  \<^item> \<open>Connect\<close>: destinations, \<open>ssh\<close> command lines, the wait for the socket, the tunnel monitor, the
    cleanup guard and \<open>run\<close>; \<open>Cli\<close>: the subcommands and the printed table.
  \<^item> \<open>Launch\<close>: \<open>daemonize\<close> as two processes with descriptor tables and a pipe between them, a step
    relation (\<open>launch_step\<close>) over all their interleavings; \<open>Program\<close>: the command line, \<open>run\<close> and
    \<open>main\<close>, with the exit code of every way through (\<open>main_exit\<close>, over a record \<open>host\<close> of what the
    system, the user and the peers do).
  \<^item> \<open>End_To_End\<close>: client, wire and task composed; \<open>Ownership\<close>: the daemon with all its tasks, and
    who owns each connection; \<open>Dialogue\<close>: the types of the frames each side sends and understands;
    \<open>Reconnection\<close>: a lost client, the daemon and the session's task together.
  \<^item> The whole system.  \<open>Network\<close>: one direction of a connection as a byte stream that arrives in
    pieces and may break off anywhere (\<open>channel_ok\<close>); \<open>Lineage\<close>: what becomes of each task in a step of
    the daemon, and what has been sent on each connection (\<open>outbox\<close>); \<open>Custody\<close>: the daemon with all its
    tasks against what has been read on each connection; \<open>System\<close>: any number of processes of any
    users, the daemon and all streams, with one \<open>move\<close> per step of one of them, made of the definitions
    of the other theories (\<open>system_step\<close>); \<open>Display\<close>: what a client prints, by source; \<open>System_Inv\<close>: the
    invariant (\<open>system_ok\<close>) and that every move keeps it; \<open>Identity\<close>: which session a connection belongs
    to; \<open>System_Run\<close>: one run, computed; \<open>System_Props\<close>, \<open>Keystrokes\<close>,
    \<open>Conversation\<close>, \<open>Progress\<close>: what it gives.
  \<^item> \<open>Unit_Tests\<close>, \<open>Session_Tests\<close>, \<open>Daemon_Tests\<close>: the repository's own tests, unit and integration, run
    on the model.

  \<^bold>\<open>What the lemmas show.\<close> The codec: round trips both ways, independence of how
  the stream is cut, bounds on what is accepted. The escape processor: equality with its
  specification, also across reads, and exactly which input detaches. The file system code: what is
  created and with which mode. The session task: invariants of every run (flag, hang-up, order of
  frames), transparency of the relay, survival of reconnections, and where input or the session is
  lost. The daemon: refinement to the registry, distinct names and ids, the listing, independence of
  hash order, life of its files, and that no shell is left behind. The client: delivery of input and
  output, heartbeat and reconnection. The tunnel: rate limit, termination of the wait. The command
  line: the exit code of each subcommand, and that a daemon's launch ends and is reported truthfully
  whatever the interleaving. Across components: typed bytes reach the shell, output reaches the
  user, the shell's exit code reaches the caller, every connection has at most one owner; in every
  run of the whole system only processes of the daemon's own user feed a shell, by the frames they
  sent and in their order, which carry nothing but what was typed (\<open>keystrokes\<close>) and
  requests for a redraw, a client shows only its own session's output, without gaps, a session has
  only clients that asked for it, a waiting process is served, and every connection is a well-typed
  conversation; no side sends what the other does not understand, a live connection is kept and a
  lost client resumes its session (or, after a restart of the daemon, another one with the same
  number).

  \<^bold>\<open>Modelling choices.\<close>  One branch of a \<open>select!\<close> is one atomic step; where a handler awaits a send
  before it hands a connection over, the steps other tasks make meanwhile are an argument
  (\<open>during\<close>).  A task aborted in the middle of a branch is taken as aborted before or after it.  An
  event that the current state does not wait for does nothing.  System calls, the clock, \<open>ssh\<close> and
  the remote host are arguments or results carried by events, never assumed to succeed unless a
  property says so.  Integers keep their width: \<open>next_id\<close> wraps as in a release build.  Loops that
  poll read a list of results; where such a loop may use the list up the result says so (\<open>None\<close>),
  and the properties state when it cannot.  The decoding loop of a reader has the length of its
  buffer as fuel, which is enough because each frame takes at least five bytes (\<open>Wire\<close>).

  In \<open>system_step\<close> the network may deliver any number of bytes at a time or none, a send that fails may
  have sent a part, a process may be killed at any point; the kernel numbers connections afresh, and
  the peer credentials it reports are those of the process that connected.  The properties of the
  system ask that payloads fit the 32-bit length field (\<open>fits\<close>).

  \<^bold>\<open>Not modelled.\<close>  The \<open>ioctl\<close> that reads the window size and \<open>cfmakeraw\<close> (arguments), the parsing
  that \<open>clap\<close> generates (the model starts from the parsed command line), the log lines, the text of
  the messages on the standard error stream, and the content of the PID file.  A read of the readiness pipe that fails is a branch of \<open>daemonize_parent\<close> but not a step of
  \<open>launch_step\<close>: the descriptor is valid and no handler interrupts the call.
\<close>

end
